(* ===== verification/Prelude.thy ===== *)
theory Prelude
  imports Complex_Main "HOL-Library.AList" "HOL-Library.Multiset" "HOL-Library.Sublist"
begin

text \<open>
  Shared vocabulary of the development: Rust's \<open>Result\<close> as a sum type, state-passing
  operations, the association lists that stand for \<open>DashMap\<close> and \<open>BTreeMap\<close> values, the
  fact collections, and the generic lemmas the component theories rely on.
\<close>

named_theorems ops "definitions of the modelled operations, unfolded by component proofs"
named_theorems status_simps "how an operation changes the status field of a record"

section \<open>Results\<close>

text \<open>Rust's \<open>Result<T, E>\<close> is \<open>'e + 'a\<close>: \<open>Ok\<close> on the right, \<open>Err\<close> on the left.\<close>

abbreviation Ok :: "'a \<Rightarrow> 'e + 'a" where
  "Ok \<equiv> Inr"

abbreviation Err :: "'e \<Rightarrow> 'e + 'a" where
  "Err \<equiv> Inl"

text \<open>
  An operation of a component with interior mutability: it takes the component's state and
  returns the result and the new state.
\<close>

type_synonym ('s, 'e, 'a) op = "'s \<Rightarrow> ('e + 'a) \<times> 's"

definition is_ok :: "'e + 'a \<Rightarrow> bool" where
  "is_ok r = (case r of Inl e \<Rightarrow> False | Inr x \<Rightarrow> True)"

lemma is_ok_simps [simp]: "is_ok (Ok x)" "\<not> is_ok (Err e)"
  by (simp_all add: is_ok_def)

lemma not_is_ok_Err: "\<not> is_ok r \<Longrightarrow> \<exists>e. r = Err e"
  by (cases r) simp_all

section \<open>Identifiers, instants and durations\<close>

text \<open>
  A \<open>Uuid\<close> is compared and ordered as a 128-bit number. Instants (\<open>DateTime<Utc>\<close>) and durations
  are integers (nanoseconds).
\<close>

type_synonym uuid = nat
type_synonym instant = int
type_synonym duration = int

text \<open>
  What the program reads from outside: the clock (\<open>Utc::now\<close>), the identifier generator
  (\<open>Uuid::now_v7\<close>) and the random source (\<open>fastrand::f64\<close>), with the conversion
  \<open>chrono::Duration::from_std\<close>, which may refuse a duration. Code that is generic over its
  adapters is modelled over an arbitrary world type \<open>'w\<close> and takes these as a dictionary; code of
  a single component takes each reading as an argument.
\<close>

record 'w Env =
  utc_now :: "'w \<Rightarrow> instant \<times> 'w"
  now_v7 :: "'w \<Rightarrow> uuid \<times> 'w"
  random_f64 :: "'w \<Rightarrow> real \<times> 'w"
  from_std :: "duration \<Rightarrow> string + duration"

section \<open>Keyed stores\<close>

text \<open>
  A \<open>DashMap\<close>, \<open>HashMap\<close> or \<open>BTreeMap\<close> is an association list with distinct keys; the order
  of the list is the order in which an iteration visits the entries, which the code may not
  rely on, so the theorems hold for every order.
\<close>

type_synonym ('k, 'v) dashmap = "('k \<times> 'v) list"

definition dm_wf :: "('k, 'v) dashmap \<Rightarrow> bool" where
  "dm_wf m \<longleftrightarrow> distinct (map fst m)"

definition dm_get :: "('k, 'v) dashmap \<Rightarrow> 'k \<Rightarrow> 'v option" where
  "dm_get m k = map_of m k"

definition dm_insert :: "'k \<Rightarrow> 'v \<Rightarrow> ('k, 'v) dashmap \<Rightarrow> ('k, 'v) dashmap" where
  "dm_insert k v m = AList.update k v m"

definition dm_remove :: "'k \<Rightarrow> ('k, 'v) dashmap \<Rightarrow> ('k, 'v) dashmap" where
  "dm_remove k m = AList.delete k m"

definition dm_values :: "('k, 'v) dashmap \<Rightarrow> 'v list" where
  "dm_values m = map snd m"

lemma dm_get_Nil [simp]: "dm_get [] k = None"
  by (simp add: dm_get_def)

lemma dm_get_insert [simp]:
  "dm_get (dm_insert k v m) k' = (if k' = k then Some v else dm_get m k')"
  by (simp add: dm_get_def dm_insert_def update_conv')

lemma dm_get_remove [simp]:
  "dm_get (dm_remove k m) k' = (if k' = k then None else dm_get m k')"
  by (simp add: dm_get_def dm_remove_def delete_conv')

lemma dm_wf_Nil [simp]: "dm_wf []"
  by (simp add: dm_wf_def)

lemma dm_wf_insert [simp]: "dm_wf m \<Longrightarrow> dm_wf (dm_insert k v m)"
  by (simp add: dm_wf_def dm_insert_def distinct_update)

lemma dm_wf_remove [simp]: "dm_wf m \<Longrightarrow> dm_wf (dm_remove k m)"
  by (simp add: dm_wf_def dm_remove_def distinct_delete)

lemma dm_get_in_set: "dm_wf m \<Longrightarrow> dm_get m k = Some v \<longleftrightarrow> (k, v) \<in> set m"
  by (simp add: dm_get_def dm_wf_def)

lemma dm_values_get: "dm_wf m \<Longrightarrow> v \<in> set (dm_values m) \<longleftrightarrow> (\<exists>k. dm_get m k = Some v)"
  by (force simp: dm_values_def dm_get_in_set)

lemma dm_length_insert:
  "length (dm_insert k v m) = (if dm_get m k = None then Suc (length m) else length m)"
  by (induction m) (auto simp: dm_get_def dm_insert_def)

lemma dm_length_remove: "dm_wf m \<Longrightarrow> dm_get m k = Some v \<Longrightarrow> length m = Suc (length (dm_remove k m))"
proof (induction m)
  case (Cons x m)
  then show ?case
    by (cases x) (auto simp: dm_get_def dm_remove_def dm_wf_def AList.delete_notin_dom split: if_splits)
qed (simp add: dm_get_def)

lemma dm_keys_get: "set (map fst m) = {k. dm_get m k \<noteq> None}"
  by (auto simp: dm_get_def map_of_eq_None_iff)

section \<open>Decimal text\<close>

text \<open>\<open>to_string\<close> of an unsigned integer.\<close>

definition digit_char :: "nat \<Rightarrow> char" where
  "digit_char d = char_of (48 + d)"

fun dec_string :: "nat \<Rightarrow> string" where
  "dec_string n = (if n < 10 then [digit_char n] else dec_string (n div 10) @ [digit_char (n mod 10)])"

declare dec_string.simps [simp del]

section \<open>Text\<close>

text \<open>
  A Rust string is the list of its characters, restricted to the code points up to U+00FF, which
  are the values of the type \<open>char\<close>; \<open>chars()\<close> is the list itself and \<open>len()\<close> counts the bytes of its
  UTF-8 form.
\<close>

definition utf8_len :: "string \<Rightarrow> nat" where
  "utf8_len s = sum_list (map (\<lambda>c. if (of_char c :: nat) < 128 then 1 else 2) s)"

lemma utf8_len_ascii: "list_all (\<lambda>c. (of_char c :: nat) < 128) s \<Longrightarrow> utf8_len s = length s"
  by (induction s) (auto simp: utf8_len_def)

text \<open>\<open>char::is_whitespace\<close>, \<open>char::is_control\<close> and \<open>str::trim\<close> on these characters.\<close>

definition is_whitespace :: "char \<Rightarrow> bool" where
  "is_whitespace c \<longleftrightarrow> (let n = of_char c :: nat in 9 \<le> n \<and> n \<le> 13 \<or> n = 32 \<or> n = 133 \<or> n = 160)"

definition is_control :: "char \<Rightarrow> bool" where
  "is_control c \<longleftrightarrow> (let n = of_char c :: nat in n < 32 \<or> 127 \<le> n \<and> n < 160)"

definition trim :: "string \<Rightarrow> string" where
  "trim s = rev (dropWhile is_whitespace (rev (dropWhile is_whitespace s)))"

text \<open>\<open>str::split\<close> at a character: always at least one piece.\<close>

fun split_on :: "char \<Rightarrow> string \<Rightarrow> string list" where
  "split_on d [] = [[]]"
| "split_on d (c # cs) = (if c = d then [] # split_on d cs
     else case split_on d cs of [] \<Rightarrow> [[c]] | p # ps \<Rightarrow> (c # p) # ps)"

lemma split_on_nonempty [simp]: "split_on d s \<noteq> []"
  by (cases s) (auto split: list.splits)

lemma split_on_append: "split_on d (s @ d # t) = split_on d s @ split_on d t"
  by (induction s) (auto split: list.splits)

lemma split_on_plain: "d \<notin> set s \<Longrightarrow> split_on d s = [s]"
  by (induction s) auto

lemma split_on_pieces: "p \<in> set (split_on d s) \<Longrightarrow> d \<notin> set p"
  by (induction s arbitrary: p) (auto split: if_splits list.splits)

section \<open>Lists\<close>

lemma distinct_map_neq: "distinct (map f (x # xs)) \<Longrightarrow> y \<in> set xs \<Longrightarrow> f y \<noteq> f x"
  by (metis distinct.simps(2) image_eqI list.simps(9) set_map)

end
