(* ===== verification/Money.thy ===== *)
theory Money
  imports Prelude "HOL-Library.Signed_Division" "HOL-Library.List_Lexorder" "HOL-Library.Char_ord"
begin

text \<open>
  \<open>crates/pharos-core/src/money.rs\<close> and \<open>allocation.rs\<close>: currencies, amounts of minor units in
  \<open>i128\<close> with checked arithmetic, the lossless split of an amount into shares, the decimal
  rendering and the string form used by serde.
\<close>

section \<open>128-bit signed arithmetic\<close>

definition i128_min :: int where
  "i128_min = - (2 ^ 127)"

definition i128_max :: int where
  "i128_max = 2 ^ 127 - 1"

definition in_i128 :: "int \<Rightarrow> bool" where
  "in_i128 x \<longleftrightarrow> i128_min \<le> x \<and> x \<le> i128_max"

text \<open>The standard library's \<open>checked_*\<close> operations: the exact result, or \<open>None\<close>.\<close>

definition checked_i128 :: "int \<Rightarrow> int option" where
  "checked_i128 x = (if in_i128 x then Some x else None)"

text \<open>\<open>i128::div_euclid\<close> and \<open>i128::rem_euclid\<close>, over the truncating division of Rust.\<close>

definition div_euclid :: "int \<Rightarrow> int \<Rightarrow> int" where
  "div_euclid a b =
     (let q = a sdiv b in
      if a smod b < 0 then (if b > 0 then q - 1 else q + 1) else q)"

definition rem_euclid :: "int \<Rightarrow> int \<Rightarrow> int" where
  "rem_euclid a b = (let r = a smod b in if r < 0 then r + \<bar>b\<bar> else r)"

section \<open>Lossless allocation\<close>

datatype AllocationError = InvalidAllocation | TooManyParts (parts_requested: nat) (parts_max: nat)

definition allocate_minor_units :: "int \<Rightarrow> nat \<Rightarrow> nat \<Rightarrow> AllocationError + int list" where
  "allocate_minor_units amt parts max_parts =
     (if parts = 0 then Err InvalidAllocation
      else if parts > max_parts then Err (TooManyParts parts max_parts)
      else
        (let parts_i128 = int parts;
             base = div_euclid amt parts_i128;
             remainder = rem_euclid amt parts_i128
         in Ok (map (\<lambda>index. base + of_bool (index < remainder)) [0..parts_i128 - 1])))"

section \<open>Currencies and amounts\<close>

text \<open>
  A \<open>String\<close> is its list of bytes. The text of \<open>InvalidCurrency\<close> is a function of the offending
  code or exponent, which the model keeps in place of the formatted message.
\<close>

datatype CurrencyFault = BadCode string | BadExponent nat

datatype MoneyError =
    CurrencyMismatch string string
  | Overflow
  | InvalidCurrency CurrencyFault
  | MoneyInvalidAllocation
  | MoneyTooManyParts nat nat

datatype Currency = Currency (code: string) (exponent: nat)

datatype Money = Money (amount: int) (currency: Currency)

definition MAX_EXPONENT :: nat where
  "MAX_EXPONENT = 38"

definition MAX_ALLOCATION_PARTS :: nat where
  "MAX_ALLOCATION_PARTS = 10000"

definition is_ascii_uppercase :: "char \<Rightarrow> bool" where
  "is_ascii_uppercase c \<longleftrightarrow> CHR ''A'' \<le> c \<and> c \<le> CHR ''Z''"

definition is_ascii_digit :: "char \<Rightarrow> bool" where
  "is_ascii_digit c \<longleftrightarrow> CHR ''0'' \<le> c \<and> c \<le> CHR ''9''"

definition Currency_new :: "string \<Rightarrow> nat \<Rightarrow> MoneyError + Currency" where
  "Currency_new c e =
     (let valid_length = (2 \<le> length c \<and> length c \<le> 12);
          valid_chars = list_all (\<lambda>x. is_ascii_uppercase x \<or> is_ascii_digit x) c
      in if \<not> valid_length \<or> \<not> valid_chars then Err (InvalidCurrency (BadCode c))
         else if e > MAX_EXPONENT then Err (InvalidCurrency (BadExponent e))
         else Ok (Currency c e))"

definition brl :: Currency where "brl = Currency ''BRL'' 2"
definition usd :: Currency where "usd = Currency ''USD'' 2"
definition eur :: Currency where "eur = Currency ''EUR'' 2"
definition btc :: Currency where "btc = Currency ''BTC'' 8"
definition eth :: Currency where "eth = Currency ''ETH'' 18"

definition Money_zero :: "Currency \<Rightarrow> Money" where
  "Money_zero c = Money 0 c"

definition is_negative :: "Money \<Rightarrow> bool" where
  "is_negative m \<longleftrightarrow> amount m < 0"

definition is_zero :: "Money \<Rightarrow> bool" where
  "is_zero m \<longleftrightarrow> amount m = 0"

definition is_positive :: "Money \<Rightarrow> bool" where
  "is_positive m \<longleftrightarrow> amount m > 0"

definition ensure_same_currency :: "Money \<Rightarrow> Money \<Rightarrow> MoneyError + unit" where
  "ensure_same_currency m n =
     (if currency m = currency n then Ok ()
      else Err (CurrencyMismatch (code (currency m)) (code (currency n))))"

definition ok_or_overflow :: "Money \<Rightarrow> int option \<Rightarrow> MoneyError + Money" where
  "ok_or_overflow m r = (case r of None \<Rightarrow> Err Overflow | Some a \<Rightarrow> Ok (Money a (currency m)))"

definition checked_add :: "Money \<Rightarrow> Money \<Rightarrow> MoneyError + Money" where
  "checked_add m n =
     (case ensure_same_currency m n of
        Inl e \<Rightarrow> Err e
      | Inr _ \<Rightarrow> ok_or_overflow m (checked_i128 (amount m + amount n)))"

definition checked_sub :: "Money \<Rightarrow> Money \<Rightarrow> MoneyError + Money" where
  "checked_sub m n =
     (case ensure_same_currency m n of
        Inl e \<Rightarrow> Err e
      | Inr _ \<Rightarrow> ok_or_overflow m (checked_i128 (amount m - amount n)))"

definition checked_mul :: "Money \<Rightarrow> int \<Rightarrow> MoneyError + Money" where
  "checked_mul m factor = ok_or_overflow m (checked_i128 (amount m * factor))"

definition Money_neg :: "Money \<Rightarrow> MoneyError + Money" where
  "Money_neg m = ok_or_overflow m (checked_i128 (- amount m))"

definition Money_abs :: "Money \<Rightarrow> MoneyError + Money" where
  "Money_abs m = ok_or_overflow m (checked_i128 \<bar>amount m\<bar>)"

definition money_error_of :: "AllocationError \<Rightarrow> MoneyError" where
  "money_error_of e = (case e of
       InvalidAllocation \<Rightarrow> MoneyInvalidAllocation
     | TooManyParts p mx \<Rightarrow> MoneyTooManyParts p mx)"

definition allocate :: "Money \<Rightarrow> nat \<Rightarrow> MoneyError + Money list" where
  "allocate m parts =
     (case allocate_minor_units (amount m) parts MAX_ALLOCATION_PARTS of
        Inl e \<Rightarrow> Err (money_error_of e)
      | Inr shares \<Rightarrow> Ok (map (\<lambda>a. Money a (currency m)) shares))"

section \<open>Decimal text\<close>

text \<open>\<open>to_string\<close> of an unsigned and of a signed integer, and \<open>str::parse::<i128>\<close>.\<close>

definition int_to_string :: "int \<Rightarrow> string" where
  "int_to_string i = (if i < 0 then ''-'' else '''') @ dec_string (nat \<bar>i\<bar>)"

definition digits_value :: "string \<Rightarrow> nat" where
  "digits_value s = foldl (\<lambda>acc c. acc * 10 + (of_char c - 48)) 0 s"

definition parse_i128 :: "string \<Rightarrow> int option" where
  "parse_i128 s =
     (let (neg, ds) = (case s of
              [] \<Rightarrow> (False, [])
            | c # cs \<Rightarrow> if c = CHR ''-'' then (True, cs)
                        else if c = CHR ''+'' then (False, cs) else (False, s))
      in if ds = [] \<or> \<not> list_all is_ascii_digit ds then None
         else checked_i128 (if neg then - int (digits_value ds) else int (digits_value ds)))"

text \<open>\<open>format!("{digits:0>width$}")\<close>: pad with zeros on the left.\<close>

definition pad_left :: "nat \<Rightarrow> string \<Rightarrow> string" where
  "pad_left width s = replicate (width - length s) (CHR ''0'') @ s"

definition Money_display :: "Money \<Rightarrow> string" where
  "Money_display m =
     (let e = exponent (currency m);
          sgn_text = (if amount m < 0 then ''-'' else '''');
          digits = dec_string (nat \<bar>amount m\<bar>)
      in if e = 0 then sgn_text @ digits @ '' '' @ code (currency m)
         else
           (let padded = pad_left (e + 1) digits;
                whole = take (length padded - e) padded;
                frac = drop (length padded - e) padded
            in sgn_text @ whole @ ''.'' @ frac @ '' '' @ code (currency m)))"

text \<open>The serde form of the amount (module \<open>amount_as_string\<close>).\<close>

definition amount_serialize :: "int \<Rightarrow> string" where
  "amount_serialize a = int_to_string a"

definition amount_deserialize :: "string \<Rightarrow> string + int" where
  "amount_deserialize raw = (case parse_i128 raw of None \<Rightarrow> Err raw | Some a \<Rightarrow> Ok a)"

section \<open>The derived orders\<close>

instantiation Currency :: linorder
begin

definition less_eq_Currency :: "Currency \<Rightarrow> Currency \<Rightarrow> bool" where
  "less_eq_Currency x y \<longleftrightarrow> code x < code y \<or> code x = code y \<and> exponent x \<le> exponent y"

definition less_Currency :: "Currency \<Rightarrow> Currency \<Rightarrow> bool" where
  "less_Currency x y \<longleftrightarrow> code x < code y \<or> code x = code y \<and> exponent x < exponent y"

instance
  by standard (auto simp: less_eq_Currency_def less_Currency_def Currency.expand)

end

instantiation Money :: linorder
begin

definition less_eq_Money :: "Money \<Rightarrow> Money \<Rightarrow> bool" where
  "less_eq_Money x y \<longleftrightarrow> amount x < amount y \<or> amount x = amount y \<and> currency x \<le> currency y"

definition less_Money :: "Money \<Rightarrow> Money \<Rightarrow> bool" where
  "less_Money x y \<longleftrightarrow> amount x < amount y \<or> amount x = amount y \<and> currency x < currency y"

instance
  by standard (auto simp: less_eq_Money_def less_Money_def Money.expand)

end

section \<open>Allocation lemmas\<close>

lemma div_euclid_pos [simp]:
  fixes a b :: int
  assumes "0 < b"
  shows "div_euclid a b = a div b"
  unfolding div_euclid_def Let_def signed_divide_int_def signed_modulo_int_def
  using assms pos_mod_sign [OF assms, of a, THEN leD]
  by (auto simp: sgn_if zdiv_zminus1_eq_if zmod_zminus1_eq_if algebra_simps split: if_splits)

lemma rem_euclid_pos [simp]:
  fixes a b :: int
  assumes "0 < b"
  shows "rem_euclid a b = a mod b"
  unfolding rem_euclid_def Let_def signed_divide_int_def signed_modulo_int_def
  using assms pos_mod_sign [OF assms, of a, THEN leD]
  by (auto simp: sgn_if zdiv_zminus1_eq_if zmod_zminus1_eq_if algebra_simps minus_div_mult_eq_mod split: if_splits)

lemma upto_Suc_int: "[0..int (Suc n) - 1] = [0..int n - 1] @ [int n]"
  using upto_rec2 [of 0 "int n"] by simp

lemma sum_of_bool_less:
  "0 \<le> r \<Longrightarrow> sum_list (map (\<lambda>i. b + of_bool (i < r)) [0..int n - 1]) = int n * b + min r (int n)"
proof (induction n)
  case (Suc n)
  have "int (Suc n) * b = int n * b + b" by (simp add: algebra_simps)
  then show ?case using Suc by (auto simp: upto_Suc_int simp del: of_nat_Suc)
qed simp

lemma allocate_minor_units_Ok_iff:
  "allocate_minor_units t parts mx = Ok shares \<longleftrightarrow>
     0 < parts \<and> parts \<le> mx \<and>
     shares = map (\<lambda>i. t div int parts + of_bool (i < t mod int parts)) [0..int parts - 1]"
  by (auto simp: allocate_minor_units_def Let_def)

lemma share_bounds:
  fixes p :: int
  assumes p: "0 < p" and t: "in_i128 t" and i: "0 \<le> i"
  shows "in_i128 (t div p + of_bool (i < t mod p))"
proof -
  have lo: "min t 0 \<le> t div p" using p
    by (smt (verit, best) div_by_1 int_div_less_self pos_imp_zdiv_neg_iff zdiv_mono2_neg)
  have hi: "t div p + of_bool (i < t mod p) \<le> max t 1"
  proof (cases "p = 1 \<or> t \<le> 0")
    case True
    then show ?thesis
    proof
      assume "p = 1" then show ?thesis using i by simp
    next
      assume "t \<le> 0"
      then have "t div p \<le> 0" using p by (simp add: div_nonpos_pos_le0)
      then show ?thesis by (auto simp: max_def)
    qed
  next
    case False
    then have "t div p < t" using p by (intro int_div_less_self) auto
    then show ?thesis by (auto simp: max_def)
  qed
  show ?thesis
    using lo hi t by (auto simp: in_i128_def i128_min_def i128_max_def min_def max_def split: if_splits)
qed

section \<open>Allocation\<close>

text \<open>
  C13: An accepted allocation of \<open>amt\<close> over \<open>parts\<close> shares has exactly \<open>parts\<close> shares whose sum
  is exactly \<open>amt\<close> (negative amounts included), any two shares differ by at most one unit, the
  larger shares come first, and every share fits in an \<open>i128\<close> when the amount does, so the
  addition in the closure never overflows.
\<close>

theorem allocate_minor_units_lossless:
  assumes "allocate_minor_units amt parts max_parts = Ok shares"
  shows "sum_list shares = amt \<and> length shares = parts
    \<and> (\<forall>x \<in> set shares. \<forall>y \<in> set shares. \<bar>x - y\<bar> \<le> 1)
    \<and> sorted_wrt (\<ge>) shares
    \<and> (in_i128 amt \<longrightarrow> list_all in_i128 shares)"
proof -
  from assms have p: "0 < parts"
    and shares: "shares = map (\<lambda>i. amt div int parts + of_bool (i < amt mod int parts)) [0..int parts - 1]"
    by (auto simp: allocate_minor_units_Ok_iff)
  have "amt mod int parts < int parts" using p by simp
  then have "sum_list shares = int parts * (amt div int parts) + amt mod int parts"
    unfolding shares using p by (subst sum_of_bool_less) simp_all
  moreover have "sorted_wrt (\<ge>) shares"
    unfolding shares sorted_wrt_map by (rule sorted_wrt_mono_rel [OF _ sorted_wrt_upto]) auto
  moreover have "list_all in_i128 shares" if "in_i128 amt"
    unfolding shares list_all_iff using share_bounds [OF _ that] p by simp
  ultimately show ?thesis
    using p by (auto simp: shares)
qed

theorem allocate_minor_units_lossless_witness:
  "allocate_minor_units (-5) 3 10 = Ok [-1, -2, -2] \<and> sum_list [-1, -2, -2] = (-5 :: int)"
proof -
  have e: "allocate_minor_units (-5) 3 10 = Ok [-1, -2, -2]" by code_simp
  show ?thesis using e allocate_minor_units_lossless [OF e] by blast
qed

section \<open>Checked arithmetic\<close>

text \<open>A well-formed amount: what \<open>Currency::new\<close> accepts, and an \<open>i128\<close>.\<close>

definition wf_money :: "Money \<Rightarrow> bool" where
  "wf_money m \<longleftrightarrow> in_i128 (amount m)
     \<and> Currency_new (code (currency m)) (exponent (currency m)) = Ok (currency m)"

lemma ok_or_overflow_Ok_iff [simp]:
  "ok_or_overflow m (checked_i128 a) = Ok r \<longleftrightarrow> in_i128 a \<and> r = Money a (currency m)"
  by (auto simp: ok_or_overflow_def checked_i128_def)

lemma ok_or_overflow_Err_iff [simp]:
  "ok_or_overflow m (checked_i128 a) = Err e \<longleftrightarrow> \<not> in_i128 a \<and> e = Overflow"
  by (auto simp: ok_or_overflow_def checked_i128_def)

lemma checked_add_Ok_iff [simp]:
  "checked_add m n = Ok r \<longleftrightarrow>
     currency m = currency n \<and> in_i128 (amount m + amount n)
     \<and> r = Money (amount m + amount n) (currency m)"
  by (auto simp: checked_add_def ensure_same_currency_def)

lemma checked_sub_Ok_iff [simp]:
  "checked_sub m n = Ok r \<longleftrightarrow>
     currency m = currency n \<and> in_i128 (amount m - amount n)
     \<and> r = Money (amount m - amount n) (currency m)"
  by (auto simp: checked_sub_def ensure_same_currency_def)

text \<open>Summing a list of amounts with \<open>checked_add\<close>, stopping at the first error.\<close>

fun sum_checked :: "Money \<Rightarrow> Money list \<Rightarrow> MoneyError + Money" where
  "sum_checked acc [] = Ok acc"
| "sum_checked acc (m # ms) = (case checked_add acc m of Inl e \<Rightarrow> Err e | Inr r \<Rightarrow> sum_checked r ms)"

lemma sum_checked_nonneg:
  "list_all (\<lambda>m. 0 \<le> amount m \<and> currency m = c) ms \<Longrightarrow> in_i128 a \<Longrightarrow>
   in_i128 (a + sum_list (map amount ms)) \<Longrightarrow>
   sum_checked (Money a c) ms = Ok (Money (a + sum_list (map amount ms)) c)"
proof (induction ms arbitrary: a)
  case (Cons m ms)
  have "0 \<le> sum_list (map amount ms)"
    using Cons.prems by (intro sum_list_nonneg) (auto simp: list_all_iff)
  then have r: "in_i128 (a + amount m)"
    using Cons.prems by (simp add: in_i128_def)
  then have "checked_add (Money a c) m = Ok (Money (a + amount m) c)"
    using Cons.prems by simp
  then show ?case
    using Cons.IH [OF _ r] Cons.prems by (simp add: add.assoc del: checked_add_Ok_iff)
qed simp

lemma sum_checked_nonpos:
  "list_all (\<lambda>m. amount m \<le> 0 \<and> currency m = c) ms \<Longrightarrow> in_i128 a \<Longrightarrow>
   in_i128 (a + sum_list (map amount ms)) \<Longrightarrow>
   sum_checked (Money a c) ms = Ok (Money (a + sum_list (map amount ms)) c)"
proof (induction ms arbitrary: a)
  case (Cons m ms)
  have "sum_list (map amount ms) \<le> 0"
    using Cons.prems by (intro sum_list_nonpos) (auto simp: list_all_iff)
  then have r: "in_i128 (a + amount m)"
    using Cons.prems by (simp add: in_i128_def)
  then have "checked_add (Money a c) m = Ok (Money (a + amount m) c)"
    using Cons.prems by simp
  then show ?case
    using Cons.IH [OF _ r] Cons.prems by (simp add: add.assoc del: checked_add_Ok_iff)
qed simp

lemma in_i128_0 [simp]: "in_i128 0"
  by (simp add: in_i128_def i128_min_def i128_max_def)

lemma share_sign:
  fixes p :: int
  assumes "0 < p"
  shows "0 \<le> t \<Longrightarrow> 0 \<le> t div p + of_bool b" "t < 0 \<Longrightarrow> t div p + of_bool b \<le> 0"
  using assms pos_imp_zdiv_neg_iff [OF assms, of t]
  by (auto simp: pos_imp_zdiv_nonneg_iff)

text \<open>
  The shares of \<open>Money::allocate\<close> add back to the allocated amount with the type's own
  checked addition, starting from zero: no intermediate sum overflows, for positive and negative
  amounts alike, and all shares carry the original currency.
\<close>

theorem allocate_sums_back:
  assumes "in_i128 (amount m)" and "allocate m parts = Ok shares"
  shows "sum_checked (Money_zero (currency m)) shares = Ok m \<and> length shares = parts
    \<and> 0 < parts \<and> parts \<le> MAX_ALLOCATION_PARTS"
proof -
  from assms(2) obtain xs where xs: "allocate_minor_units (amount m) parts MAX_ALLOCATION_PARTS = Ok xs"
    and shares: "shares = map (\<lambda>a. Money a (currency m)) xs"
    by (auto simp: allocate_def split: sum.splits)
  note form = xs [unfolded allocate_minor_units_Ok_iff]
  have sum: "sum_list xs = amount m" and len: "length xs = parts"
    using form by (auto simp: sum_of_bool_less min_absorb1 less_imp_le)
  have amounts: "map amount shares = xs" by (simp add: shares comp_def)
  have all: "in_i128 (0 + sum_list (map amount shares))"
    using assms(1) sum by (simp add: amounts)
  have "sum_checked (Money 0 (currency m)) shares = Ok (Money (0 + sum_list (map amount shares)) (currency m))"
  proof (cases "0 \<le> amount m")
    case True
    then have "list_all (\<lambda>m'. 0 \<le> amount m' \<and> currency m' = currency m) shares"
      using form share_sign(1) by (simp add: shares list_all_iff)
    then show ?thesis by (rule sum_checked_nonneg [OF _ in_i128_0 all])
  next
    case False
    then have "list_all (\<lambda>m'. amount m' \<le> 0 \<and> currency m' = currency m) shares"
      using form share_sign(2) by (simp add: shares list_all_iff)
    then show ?thesis by (rule sum_checked_nonpos [OF _ in_i128_0 all])
  qed
  then have "sum_checked (Money 0 (currency m)) shares = Ok m" by (simp add: amounts sum)
  then show ?thesis using form len by (simp add: Money_zero_def shares)
qed

theorem allocate_sums_back_witness:
  "sum_checked (Money_zero brl) [Money 34 brl, Money 33 brl, Money 33 brl] = Ok (Money 100 brl)"
proof -
  have e: "allocate (Money 100 brl) 3 = Ok [Money 34 brl, Money 33 brl, Money 33 brl]" by code_simp
  have "in_i128 (amount (Money 100 brl))" by code_simp
  then show ?thesis using allocate_sums_back [OF _ e] by simp
qed

text \<open>
  C38: Checked arithmetic on well-formed amounts is exact and reversible: a successful sum has the exact
  amount, is commutative, well formed, and subtracting either operand gives the other back; a sum of
  amounts of one currency overflows exactly when it leaves \<open>i128\<close>; negation and
  absolute value fail only at \<open>i128::MIN\<close>, and a successful negation undoes itself.
\<close>

theorem money_arithmetic_exact:
  assumes "wf_money m" and "wf_money n"
  shows "(\<forall>r. checked_add m n = Ok r \<longrightarrow> wf_money r \<and> amount r = amount m + amount n \<and> currency r = currency m
            \<and> checked_add n m = Ok r \<and> checked_sub r n = Ok m \<and> checked_sub r m = Ok n)
    \<and> (checked_add m n = Err Overflow \<longleftrightarrow> currency m = currency n \<and> \<not> in_i128 (amount m + amount n))
    \<and> (Money_neg m = Err Overflow \<longleftrightarrow> amount m = i128_min)
    \<and> (Money_abs m = Err Overflow \<longleftrightarrow> amount m = i128_min)
    \<and> (\<forall>r. Money_neg m = Ok r \<longrightarrow> wf_money r \<and> Money_neg r = Ok m)
    \<and> (\<forall>r. Money_abs m = Ok r \<longrightarrow> wf_money r \<and> \<not> is_negative r \<and> (r = m \<or> Money_neg m = Ok r))"
proof -
  have neg: "\<not> in_i128 (- amount m) \<longleftrightarrow> amount m = i128_min"
    and abs: "\<not> in_i128 \<bar>amount m\<bar> \<longleftrightarrow> amount m = i128_min"
    using assms(1) by (auto simp: wf_money_def in_i128_def i128_min_def i128_max_def)
  have add: "checked_add m n = Err Overflow \<longleftrightarrow> currency m = currency n \<and> \<not> in_i128 (amount m + amount n)"
    by (auto simp: checked_add_def ensure_same_currency_def)
  show ?thesis
    using assms add neg abs unfolding Money_neg_def Money_abs_def is_negative_def wf_money_def
    by (auto simp: Money.expand algebra_simps abs_if)
qed

theorem money_arithmetic_exact_witness:
  "checked_sub (Money 12 usd) (Money 5 usd) = Ok (Money 7 usd)"
proof -
  have m: "wf_money (Money 7 usd)" and n: "wf_money (Money 5 usd)" by code_simp+
  have "checked_add (Money 7 usd) (Money 5 usd) = Ok (Money 12 usd)" by code_simp
  then show ?thesis using money_arithmetic_exact [OF m n] by blast
qed

section \<open>Text of amounts\<close>

lemma of_char_digit_char [simp]: "d < 10 \<Longrightarrow> of_char (digit_char d) = (48 + d :: nat)"
  by (simp add: digit_char_def)

lemma is_ascii_digit_digit_char [simp]: "d < 10 \<Longrightarrow> is_ascii_digit (digit_char d)"
  by (simp add: is_ascii_digit_def less_eq_char_def)

lemma is_ascii_digit_zero: "is_ascii_digit (CHR ''0'')"
  by (simp add: is_ascii_digit_def less_eq_char_def)

lemma dec_string_digits [simp]: "list_all is_ascii_digit (dec_string n)"
  by (induction n rule: dec_string.induct) (subst dec_string.simps, simp)

lemma dec_string_nonempty [simp]: "dec_string n \<noteq> []"
  by (subst dec_string.simps) simp

lemma digits_value_append: "digits_value (s @ [c]) = digits_value s * 10 + (of_char c - 48)"
  by (simp add: digits_value_def)

lemma digits_value_dec_string [simp]: "digits_value (dec_string n) = n"
proof (induction n rule: dec_string.induct)
  case (1 n)
  show ?case
  proof (cases "n < 10")
    case True
    then show ?thesis by (subst dec_string.simps) (simp add: digits_value_def)
  next
    case False
    then show ?thesis using 1 by (subst dec_string.simps) (simp add: digits_value_append)
  qed
qed

lemma digits_value_zeros [simp]: "digits_value (replicate k (CHR ''0'') @ s) = digits_value s"
  by (induction k) (simp_all add: digits_value_def)

lemma digit_not_sign: "list_all is_ascii_digit (c # cs) \<Longrightarrow> c \<noteq> CHR ''-'' \<and> c \<noteq> CHR ''+''"
  by (auto simp: is_ascii_digit_def less_eq_char_def)

lemma parse_dec_string: "parse_i128 (dec_string n) = checked_i128 (int n)"
proof -
  obtain c cs where s: "dec_string n = c # cs" by (cases "dec_string n") simp_all
  have "list_all is_ascii_digit (c # cs)" using dec_string_digits [of n] by (simp add: s)
  then show ?thesis
    using digit_not_sign [of c cs] digits_value_dec_string [of n]
    unfolding parse_i128_def s by (simp add: Let_def)
qed

lemma parse_int_to_string: "parse_i128 (int_to_string i) = checked_i128 i"
proof (cases "i < 0")
  case True
  then show ?thesis by (simp add: int_to_string_def parse_i128_def)
next
  case False
  then show ?thesis using parse_dec_string [of "nat i"] by (simp add: int_to_string_def)
qed

text \<open>
  C29: The string form of an amount in JSON loses nothing: deserialising the serialised amount
  of any \<open>i128\<close> gives it back, two amounts have the same text only when they are equal, and no
  text deserialises outside the \<open>i128\<close> range.
\<close>

theorem amount_string_roundtrip:
  assumes "in_i128 a"
  shows "amount_deserialize (amount_serialize a) = Ok a
    \<and> (\<forall>b. in_i128 b \<and> amount_serialize b = amount_serialize a \<longrightarrow> b = a)
    \<and> (\<forall>raw b. amount_deserialize raw = Ok b \<longrightarrow> in_i128 b)"
proof -
  have rt: "amount_deserialize (amount_serialize b) = Ok b" if "in_i128 b" for b
    using that by (simp add: amount_deserialize_def amount_serialize_def checked_i128_def parse_int_to_string)
  have "in_i128 b" if "amount_deserialize raw = Ok b" for raw b
    using that by (auto simp: amount_deserialize_def parse_i128_def checked_i128_def Let_def
        split: option.splits if_splits prod.splits)
  then show ?thesis using rt assms by (metis Inr_inject)
qed

theorem amount_string_roundtrip_witness:
  "amount_serialize (-350) = ''-350'' \<and> amount_deserialize ''-350'' = Ok (-350)"
proof -
  have e: "amount_serialize (-350) = ''-350''"
    by (simp add: amount_serialize_def int_to_string_def dec_string.simps digit_char_def char_of_def bit_0)
  have "in_i128 (-350)" by code_simp
  then show ?thesis using amount_string_roundtrip [THEN conjunct1] e by metis
qed

text \<open>
  The displayed text of an amount is exact decimal notation: an optional sign present exactly
  for negative amounts, a non-empty whole part, exactly \<open>exponent\<close> fraction digits (and no point
  when the exponent is zero), a space and the currency code; read without the point, the digits
  are the absolute amount in minor units.
\<close>

theorem display_exact:
  "\<exists>whole frac. Money_display m =
      (if amount m < 0 then ''-'' else '''') @ whole
        @ (if exponent (currency m) = 0 then '''' else ''.'' @ frac) @ '' '' @ code (currency m)
    \<and> whole \<noteq> '''' \<and> length frac = exponent (currency m)
    \<and> list_all is_ascii_digit (whole @ frac)
    \<and> int (digits_value (whole @ frac)) = \<bar>amount m\<bar>"
proof (cases "exponent (currency m) = 0")
  case True
  then show ?thesis
    by (intro exI [of _ "dec_string (nat \<bar>amount m\<bar>)"] exI [of _ "''''"]) (simp add: Money_display_def)
next
  case False
  define padded where "padded = pad_left (Suc (exponent (currency m))) (dec_string (nat \<bar>amount m\<bar>))"
  define k where "k = length padded - exponent (currency m)"
  have len: "exponent (currency m) < length padded" by (simp add: padded_def pad_left_def)
  have digits: "list_all is_ascii_digit padded"
    using dec_string_digits is_ascii_digit_zero
    by (auto simp: padded_def pad_left_def list_all_iff)
  have val: "int (digits_value padded) = \<bar>amount m\<bar>" by (simp add: padded_def pad_left_def)
  show ?thesis
    by (rule exI [of _ "take k padded"], rule exI [of _ "drop k padded"])
      (use False len digits val in
        \<open>auto simp: Money_display_def Let_def padded_def [symmetric] k_def simp flip: list_all_append\<close>)
qed

end
