(* ===== verification/Messaging.thy ===== *)
theory Messaging
  imports Prelude
begin

text \<open>
  \<open>crates/pharos-messaging/src/messaging.rs\<close>: broker messages, deliveries, messaging errors and
  their classification, the publisher, consumer and acknowledger traits as dictionaries of
  operations, the default \<open>publish_batch\<close>, and the retry policy with its backoff strategies.
\<close>

section \<open>Messages\<close>

type_synonym bytes = "nat list"

record Message =
  message_id :: uuid
  topic :: string
  key :: "string option"
  headers :: "(string, string) dashmap"
  payload :: bytes
  content_type :: string

definition Message_new :: "uuid \<Rightarrow> string \<Rightarrow> bytes \<Rightarrow> string \<Rightarrow> Message" where
  "Message_new fresh_id tp pl ct =
     \<lparr>message_id = fresh_id, topic = tp, key = None, headers = [], payload = pl, content_type = ct\<rparr>"

definition with_key :: "Message \<Rightarrow> string \<Rightarrow> Message" where
  "with_key m k = m\<lparr>key := Some k\<rparr>"

definition with_header :: "Message \<Rightarrow> string \<Rightarrow> string \<Rightarrow> Message" where
  "with_header m k v = m\<lparr>headers := dm_insert k v (headers m)\<rparr>"

record Delivery =
  d_message :: Message
  d_attempt :: nat

definition Delivery_new :: "Message \<Rightarrow> Delivery" where
  "Delivery_new m = \<lparr>d_message = m, d_attempt = 1\<rparr>"

section \<open>Errors\<close>

text \<open>The boxed source of an error is represented by its displayed text.\<close>

datatype MessagingError =
    Publish string
  | Consume string
  | Ack string
  | Nack string
  | PublishPoisoned string

fun MessagingError_to_string :: "MessagingError \<Rightarrow> string" where
  "MessagingError_to_string (Publish e) = ''publish failed: '' @ e"
| "MessagingError_to_string (Consume e) = ''consume failed: '' @ e"
| "MessagingError_to_string (Ack e) = ''ack failed: '' @ e"
| "MessagingError_to_string (Nack e) = ''nack failed: '' @ e"
| "MessagingError_to_string (PublishPoisoned e) = ''publish rejected (poisoned message): '' @ e"

datatype FailureKind = Transient | Poison

fun failure_kind :: "MessagingError \<Rightarrow> FailureKind" where
  "failure_kind (PublishPoisoned _) = Poison"
| "failure_kind _ = Transient"

section \<open>The messaging traits\<close>

record 'w MessagePublisher =
  publish :: "Message \<Rightarrow> ('w, MessagingError, unit) op"

record 'w MessageConsumer =
  next_delivery :: "string \<Rightarrow> ('w, MessagingError, Delivery option) op"

record 'w MessageAcknowledger =
  ack :: "Delivery \<Rightarrow> ('w, MessagingError, unit) op"
  nack :: "Delivery \<Rightarrow> bool \<Rightarrow> ('w, MessagingError, unit) op"

text \<open>The provided method: publish in order, stop at the first error.\<close>

fun publish_batch :: "'w MessagePublisher \<Rightarrow> Message list \<Rightarrow> ('w, MessagingError, unit) op" where
  "publish_batch P [] w = (Ok (), w)"
| "publish_batch P (m # ms) w =
     (case publish P m w of
        (Inl e, w') \<Rightarrow> (Err e, w')
      | (Inr _, w') \<Rightarrow> publish_batch P ms w')"

section \<open>Retry policy\<close>

datatype RetryDecision = RetryAfter duration | DeadLetter

datatype BackoffStrategy =
    Fixed (fixed_delay: duration)
  | Exponential (base: duration) (multiplier: real) (max_delay: duration) (jitter: bool)

text \<open>
  The delay is computed in \<open>f64\<close> seconds; the model computes it in the reals. It does not show the
  rounding of the last bits, which can lift a delay above a cap of many digits, nor the panic of
  \<open>Duration::from_secs_f64\<close> when the result does not fit a \<open>Duration\<close>, as for a cap of
  \<open>Duration::MAX\<close>, nor infinite growth. \<open>exponent as i32\<close> wraps, \<open>powi\<close> takes the signed exponent, and
  \<open>Duration::from_secs_f64\<close> rounds to nanoseconds.
\<close>

definition as_i32 :: "nat \<Rightarrow> int" where
  "as_i32 n = (int n + 2 ^ 31) mod 2 ^ 32 - 2 ^ 31"

definition f64_powi :: "real \<Rightarrow> int \<Rightarrow> real" where
  "f64_powi x i = (if 0 \<le> i then x ^ nat i else 1 / x ^ nat (- i))"

definition as_secs :: "duration \<Rightarrow> real" where
  "as_secs d = real_of_int d / 10 ^ 9"

definition from_secs :: "real \<Rightarrow> duration" where
  "from_secs s = round (s * 10 ^ 9)"

definition jitter_factor :: "real \<Rightarrow> real" where
  "jitter_factor u = 1 / 2 + 1 / 2 * u"

definition delay_for :: "real \<Rightarrow> BackoffStrategy \<Rightarrow> nat \<Rightarrow> duration" where
  "delay_for u strategy attempt =
     (case strategy of
        Fixed delay \<Rightarrow> delay
      | Exponential b factor mx jit \<Rightarrow>
          (let exponent = attempt - 1;
               growth = f64_powi (max factor 1) (as_i32 exponent);
               raw = as_secs b * growth;
               capped = min raw (as_secs mx);
               scaled = (if jit then capped * jitter_factor u else capped)
           in from_secs (max scaled 0)))"

record RetryPolicy =
  max_attempts :: nat
  backoff :: BackoffStrategy

definition RetryPolicy_new :: "nat \<Rightarrow> duration \<Rightarrow> RetryPolicy" where
  "RetryPolicy_new n delay = \<lparr>max_attempts = n, backoff = Fixed delay\<rparr>"

definition RetryPolicy_exponential :: "nat \<Rightarrow> duration \<Rightarrow> real \<Rightarrow> duration \<Rightarrow> RetryPolicy" where
  "RetryPolicy_exponential n b factor mx =
     \<lparr>max_attempts = n, backoff = Exponential b factor mx True\<rparr>"

definition decide :: "RetryPolicy \<Rightarrow> real \<Rightarrow> nat \<Rightarrow> RetryDecision" where
  "decide p u attempt =
     (if attempt < max_attempts p then RetryAfter (delay_for u (backoff p) attempt) else DeadLetter)"

definition decide_for :: "RetryPolicy \<Rightarrow> real \<Rightarrow> nat \<Rightarrow> FailureKind \<Rightarrow> RetryDecision" where
  "decide_for p u attempt failure =
     (case failure of Poison \<Rightarrow> DeadLetter | Transient \<Rightarrow> decide p u attempt)"

section \<open>Lemmas\<close>

lemma decide_for_DeadLetter_iff:
  "decide_for p u n k = DeadLetter \<longleftrightarrow> k = Poison \<or> max_attempts p \<le> n"
  by (auto simp: decide_for_def decide_def split: FailureKind.splits)

lemma decide_for_RetryAfter_iff:
  "decide_for p u n k = RetryAfter d \<longleftrightarrow>
     k = Transient \<and> n < max_attempts p \<and> d = delay_for u (backoff p) n"
  by (auto simp: decide_for_def decide_def split: FailureKind.splits)

lemma as_i32_small: "n < 2 ^ 31 \<Longrightarrow> as_i32 n = int n"
  by (simp add: as_i32_def)

lemma from_secs_mono: "s \<le> t \<Longrightarrow> from_secs s \<le> from_secs t"
  by (simp add: from_secs_def round_mono)

lemma from_as_secs [simp]: "from_secs (as_secs d) = d"
  by (simp add: from_secs_def as_secs_def)

text \<open>
  In the exact arithmetic of the model the exponential backoff stays within its bounds: for
  non-negative base and cap and a random draw in the unit interval the delay lies between zero and
  the cap; without jitter, and before the exponent wraps, it is at least the base (when the base
  does not exceed the cap) and does not decrease from one attempt to the next.
\<close>

theorem backoff_bounds:
  assumes "0 \<le> b" and "0 \<le> mx" and "0 \<le> u" and "u \<le> 1"
  shows "0 \<le> delay_for u (Exponential b factor mx jit) n \<and> delay_for u (Exponential b factor mx jit) n \<le> mx
    \<and> (\<not> jit \<and> b \<le> mx \<and> n \<le> 2 ^ 31 \<longrightarrow> b \<le> delay_for u (Exponential b factor mx jit) n)
    \<and> (\<not> jit \<and> Suc n \<le> 2 ^ 31 \<longrightarrow>
         delay_for u (Exponential b factor mx jit) n \<le> delay_for u (Exponential b factor mx jit) (Suc n))"
proof -
  define raw where "raw k = as_secs b * f64_powi (max factor 1) (as_i32 (k - 1))" for k
  have nn: "0 \<le> as_secs b" "0 \<le> as_secs mx" using assms by (simp_all add: as_secs_def)
  have pw: "f64_powi (max factor 1) (as_i32 (k - 1)) = max factor 1 ^ (k - 1)" if "k \<le> 2 ^ 31" for k
    using that by (subst as_i32_small) (auto simp: f64_powi_def)
  have "0 \<le> f64_powi (max factor 1) i" for i by (simp add: f64_powi_def)
  then have raw0: "0 \<le> raw k" for k using nn by (simp add: raw_def)
  have unj: "delay_for u (Exponential b factor mx False) k = from_secs (min (raw k) (as_secs mx))" for k
    using max_absorb1 [of 0 "min (raw k) (as_secs mx)"] raw0 [of k] nn
    unfolding delay_for_def BackoffStrategy.case Let_def raw_def [symmetric] by simp
  have le: "delay_for u (Exponential b factor mx jit) n \<le> from_secs (as_secs mx)"
    using nn raw0 [of n] assms(3,4) mult_mono [of "min (raw n) (as_secs mx)" "as_secs mx" "jitter_factor u" 1]
    unfolding delay_for_def BackoffStrategy.case Let_def raw_def [symmetric]
    by (intro from_secs_mono) (auto simp: jitter_factor_def)
  have ge: "0 \<le> delay_for u (Exponential b factor mx jit) n"
    using from_secs_mono [of 0 "max x 0" for x] by (simp add: delay_for_def from_secs_def Let_def)
  have base: "b \<le> delay_for u (Exponential b factor mx False) n" if "b \<le> mx" "n \<le> 2 ^ 31"
  proof -
    have "as_secs b * 1 \<le> raw n"
      unfolding raw_def pw [OF that(2)] by (intro mult_left_mono nn one_le_power) simp
    moreover have "as_secs b \<le> as_secs mx" using that by (simp add: as_secs_def)
    ultimately show ?thesis unfolding unj using from_secs_mono [of "as_secs b"] by simp
  qed
  have mono: "delay_for u (Exponential b factor mx False) n \<le> delay_for u (Exponential b factor mx False) (Suc n)"
    if "Suc n \<le> 2 ^ 31"
  proof -
    have "raw n \<le> raw (Suc n)"
      using that nn unfolding raw_def by (subst (1 2) pw) (auto intro!: mult_left_mono power_increasing)
    then show ?thesis unfolding unj by (intro from_secs_mono) simp
  qed
  show ?thesis using ge le base mono by (cases jit) auto
qed

theorem backoff_bounds_witness:
  "delay_for 0 (Exponential 200 2 30000 True) 3 \<le> 30000"
  using backoff_bounds [of 200 30000 0 2 True 3] by simp

end
