(* ===== verification/Outbox.thy ===== *)
theory Outbox
  imports Messaging "HOL-Library.Product_Lexorder"
begin

text \<open>
  \<open>crates/pharos-messaging/src/outbox.rs\<close>, \<open>dead_letter.rs\<close> and
  \<open>crates/pharos-memory/src/in_memory_outbox.rs\<close>, \<open>in_memory_dead_letter.rs\<close>: the outbox record
  and its lifecycle, the outbox and dead-letter traits as dictionaries, their in-memory
  implementations, the sweep of failed messages to the dead-letter queue, and the wake-up signal
  between a writer and its dispatcher.
\<close>

section \<open>Outbox records\<close>

datatype OutboxStatus = Pending | Published | Failed | DeadLettered

record OutboxMessage =
  om_id :: uuid
  om_message :: Message
  om_status :: OutboxStatus
  om_attempts :: nat
  om_created_at :: instant
  om_updated_at :: instant
  om_next_attempt_at :: instant
  om_last_error :: "string option"

definition OutboxMessage_new :: "instant \<Rightarrow> uuid \<Rightarrow> Message \<Rightarrow> OutboxMessage" where
  "OutboxMessage_new now fresh_id m =
     \<lparr>om_id = fresh_id, om_message = m, om_status = Pending, om_attempts = 0, om_created_at = now,
      om_updated_at = now, om_next_attempt_at = now, om_last_error = None\<rparr>"

definition om_mark_published :: "instant \<Rightarrow> OutboxMessage \<Rightarrow> OutboxMessage" where
  "om_mark_published now m = m\<lparr>om_status := Published, om_updated_at := now, om_last_error := None\<rparr>"

definition om_mark_failed :: "instant \<Rightarrow> string \<Rightarrow> OutboxMessage \<Rightarrow> OutboxMessage" where
  "om_mark_failed now err m = m\<lparr>om_status := Failed, om_updated_at := now, om_last_error := Some err\<rparr>"

definition om_record_attempt :: "instant \<Rightarrow> OutboxMessage \<Rightarrow> OutboxMessage" where
  "om_record_attempt now m = m\<lparr>om_attempts := om_attempts m + 1, om_updated_at := now\<rparr>"

datatype OutboxError = OutboxNotFound uuid | OutboxStorage string

section \<open>The outbox trait\<close>

record 'w OutboxRepository =
  or_insert :: "OutboxMessage \<Rightarrow> ('w, OutboxError, unit) op"
  or_pending :: "nat \<Rightarrow> ('w, OutboxError, OutboxMessage list) op"
  or_record_attempt :: "uuid \<Rightarrow> ('w, OutboxError, unit) op"
  or_schedule_retry :: "uuid \<Rightarrow> duration \<Rightarrow> ('w, OutboxError, unit) op"
  or_mark_published :: "uuid \<Rightarrow> ('w, OutboxError, unit) op"
  or_mark_failed :: "uuid \<Rightarrow> string \<Rightarrow> ('w, OutboxError, unit) op"
  or_failed :: "nat \<Rightarrow> ('w, OutboxError, OutboxMessage list) op"
  or_mark_dead_lettered :: "uuid \<Rightarrow> ('w, OutboxError, unit) op"

text \<open>The provided method \<open>insert_many\<close>: insert in order, stop at the first error.\<close>

fun insert_many :: "'w OutboxRepository \<Rightarrow> OutboxMessage list \<Rightarrow> ('w, OutboxError, unit) op" where
  "insert_many R [] w = (Ok (), w)"
| "insert_many R (m # ms) w =
     (case or_insert R m w of
        (Inl e, w') \<Rightarrow> (Err e, w')
      | (Inr _, w') \<Rightarrow> insert_many R ms w')"

section \<open>Dead letters\<close>

record DeadLetterMessage =
  dl_id :: uuid
  dl_message :: Message
  dl_reason :: string
  dl_attempts :: nat
  dl_at :: instant

definition DeadLetterMessage_new :: "uuid \<Rightarrow> instant \<Rightarrow> Message \<Rightarrow> string \<Rightarrow> nat \<Rightarrow> DeadLetterMessage" where
  "DeadLetterMessage_new fresh_id now m reason n =
     \<lparr>dl_id = fresh_id, dl_message = m, dl_reason = reason, dl_attempts = n, dl_at = now\<rparr>"

datatype DeadLetterError = DeadLetterStorage string

record 'w DeadLetterQueue =
  dlq_dead_letter :: "DeadLetterMessage \<Rightarrow> ('w, DeadLetterError, unit) op"
  dlq_list :: "nat \<Rightarrow> ('w, DeadLetterError, DeadLetterMessage list) op"

type_synonym InMemoryDeadLetterQueue = "DeadLetterMessage list"

definition mem_dead_letter ::
    "DeadLetterMessage \<Rightarrow> (InMemoryDeadLetterQueue, DeadLetterError, unit) op" where
  "mem_dead_letter m q = (Ok (), q @ [m])"

definition mem_dlq_list ::
    "nat \<Rightarrow> (InMemoryDeadLetterQueue, DeadLetterError, DeadLetterMessage list) op" where
  "mem_dlq_list limit q = (Ok (take limit q), q)"

datatype SweepError = SweepOutbox OutboxError | SweepDeadLetter DeadLetterError

text \<open>The loop of \<open>sweep_failed_to_dead_letter\<close>; \<open>swept\<close> is the running count.\<close>

fun sweep_loop ::
    "'w Env \<Rightarrow> 'w OutboxRepository \<Rightarrow> 'w DeadLetterQueue \<Rightarrow> OutboxMessage list \<Rightarrow> nat
     \<Rightarrow> ('w, SweepError, nat) op" where
  "sweep_loop E R Q [] swept w = (Ok swept, w)"
| "sweep_loop E R Q (m # ms) swept w =
     (let reason = (case om_last_error m of Some e \<Rightarrow> e | None \<Rightarrow> ''publish failed'');
          (fresh_id, w1) = now_v7 E w;
          (now, w2) = utc_now E w1;
          dead = DeadLetterMessage_new fresh_id now (om_message m) reason (om_attempts m)
      in case dlq_dead_letter Q dead w2 of
           (Inl e, w3) \<Rightarrow> (Err (SweepDeadLetter e), w3)
         | (Inr _, w3) \<Rightarrow>
             (case or_mark_dead_lettered R (om_id m) w3 of
                (Inl e, w4) \<Rightarrow> (Err (SweepOutbox e), w4)
              | (Inr _, w4) \<Rightarrow> sweep_loop E R Q ms (swept + 1) w4))"

definition sweep_failed_to_dead_letter ::
    "'w Env \<Rightarrow> 'w OutboxRepository \<Rightarrow> 'w DeadLetterQueue \<Rightarrow> nat \<Rightarrow> ('w, SweepError, nat) op" where
  "sweep_failed_to_dead_letter E R Q limit w =
     (case or_failed R limit w of
        (Inl e, w1) \<Rightarrow> (Err (SweepOutbox e), w1)
      | (Inr failed, w1) \<Rightarrow> sweep_loop E R Q failed 0 w1)"

section \<open>The in-memory outbox\<close>

record InMemoryOutboxRepository =
  ob_store :: "(uuid, OutboxMessage) dashmap"
  ob_claim_lease :: duration

definition DEFAULT_CLAIM_LEASE :: duration where
  "DEFAULT_CLAIM_LEASE = 30 * 10 ^ 9"

definition ob_default :: InMemoryOutboxRepository where
  "ob_default = \<lparr>ob_store = [], ob_claim_lease = DEFAULT_CLAIM_LEASE\<rparr>"

definition with_claim_lease ::
    "(duration \<Rightarrow> string + duration) \<Rightarrow> InMemoryOutboxRepository \<Rightarrow> duration \<Rightarrow> InMemoryOutboxRepository" where
  "with_claim_lease conv s lease = (case conv lease of Inl _ \<Rightarrow> s | Inr d \<Rightarrow> s\<lparr>ob_claim_lease := d\<rparr>)"

definition ob_len :: "InMemoryOutboxRepository \<Rightarrow> nat" where
  "ob_len s = length (ob_store s)"

definition ob_is_empty :: "InMemoryOutboxRepository \<Rightarrow> bool" where
  "ob_is_empty s \<longleftrightarrow> ob_store s = []"

definition ob_get :: "InMemoryOutboxRepository \<Rightarrow> uuid \<Rightarrow> OutboxMessage option" where
  "ob_get s i = dm_get (ob_store s) i"

definition ob_put :: "uuid \<Rightarrow> OutboxMessage \<Rightarrow> InMemoryOutboxRepository \<Rightarrow> InMemoryOutboxRepository" where
  "ob_put i m s = s\<lparr>ob_store := dm_insert i m (ob_store s)\<rparr>"

definition ob_insert :: "OutboxMessage \<Rightarrow> (InMemoryOutboxRepository, OutboxError, unit) op" where
  "ob_insert m s = (Ok (), ob_put (om_id m) m s)"

text \<open>\<open>get_mut\<close> followed by an update of the locked entry.\<close>

definition ob_modify ::
    "uuid \<Rightarrow> (OutboxMessage \<Rightarrow> OutboxMessage) \<Rightarrow> (InMemoryOutboxRepository, OutboxError, unit) op" where
  "ob_modify i f s = (case ob_get s i of
       None \<Rightarrow> (Err (OutboxNotFound i), s)
     | Some m \<Rightarrow> (Ok (), ob_put i (f m) s))"

definition ob_due :: "instant \<Rightarrow> OutboxMessage \<Rightarrow> bool" where
  "ob_due now m \<longleftrightarrow> om_status m = Pending \<and> om_next_attempt_at m \<le> now"

text \<open>\<open>pending\<close>, pass 1: the due records in order of creation, at most \<open>limit\<close>.\<close>

definition ob_candidates :: "instant \<Rightarrow> nat \<Rightarrow> InMemoryOutboxRepository \<Rightarrow> uuid list" where
  "ob_candidates now limit s =
     map fst (take limit (sort_key (\<lambda>(i, created_at). (created_at, i))
       (map (\<lambda>m. (om_id m, om_created_at m)) (filter (ob_due now) (dm_values (ob_store s))))))"

text \<open>\<open>pending\<close>, pass 2: lock one record, check again that it is due, and lease it.\<close>

definition ob_claim_one ::
    "instant \<Rightarrow> uuid \<Rightarrow> InMemoryOutboxRepository \<Rightarrow> OutboxMessage option \<times> InMemoryOutboxRepository" where
  "ob_claim_one now i s = (case ob_get s i of
       None \<Rightarrow> (None, s)
     | Some m \<Rightarrow>
         if ob_due now m
         then (let m' = m\<lparr>om_next_attempt_at := now + ob_claim_lease s\<rparr> in (Some m', ob_put i m' s))
         else (None, s))"

fun ob_claim_all ::
    "instant \<Rightarrow> uuid list \<Rightarrow> InMemoryOutboxRepository \<Rightarrow> OutboxMessage list \<times> InMemoryOutboxRepository" where
  "ob_claim_all now [] s = ([], s)"
| "ob_claim_all now (i # ids) s =
     (let (c, s1) = ob_claim_one now i s;
          (cs, s2) = ob_claim_all now ids s1
      in ((case c of None \<Rightarrow> cs | Some m \<Rightarrow> m # cs), s2))"

definition ob_pending ::
    "instant \<Rightarrow> nat \<Rightarrow> (InMemoryOutboxRepository, OutboxError, OutboxMessage list) op" where
  "ob_pending now limit s =
     (let (claimed, s') = ob_claim_all now (ob_candidates now limit s) s in (Ok claimed, s'))"

definition ob_schedule_retry ::
    "(duration \<Rightarrow> string + duration) \<Rightarrow> instant \<Rightarrow> instant \<Rightarrow> uuid \<Rightarrow> duration
     \<Rightarrow> (InMemoryOutboxRepository, OutboxError, unit) op" where
  "ob_schedule_retry conv now now2 i delay s = (case ob_get s i of
       None \<Rightarrow> (Err (OutboxNotFound i), s)
     | Some m \<Rightarrow> (case conv delay of
           Inl e \<Rightarrow> (Err (OutboxStorage e), s)
         | Inr d \<Rightarrow> (Ok (), ob_put i (m\<lparr>om_next_attempt_at := now + d, om_updated_at := now2\<rparr>) s)))"

definition ob_record_attempt :: "instant \<Rightarrow> uuid \<Rightarrow> (InMemoryOutboxRepository, OutboxError, unit) op" where
  "ob_record_attempt now i = ob_modify i (om_record_attempt now)"

definition ob_mark_published :: "instant \<Rightarrow> uuid \<Rightarrow> (InMemoryOutboxRepository, OutboxError, unit) op" where
  "ob_mark_published now i = ob_modify i (om_mark_published now)"

definition ob_mark_failed ::
    "instant \<Rightarrow> uuid \<Rightarrow> string \<Rightarrow> (InMemoryOutboxRepository, OutboxError, unit) op" where
  "ob_mark_failed now i err = ob_modify i (om_mark_failed now err)"

definition ob_failed :: "nat \<Rightarrow> (InMemoryOutboxRepository, OutboxError, OutboxMessage list) op" where
  "ob_failed limit s =
     (Ok (take limit (sort_key (\<lambda>m. (om_created_at m, om_id m))
        (filter (\<lambda>m. om_status m = Failed) (dm_values (ob_store s))))), s)"

definition ob_mark_dead_lettered ::
    "instant \<Rightarrow> uuid \<Rightarrow> (InMemoryOutboxRepository, OutboxError, unit) op" where
  "ob_mark_dead_lettered now i =
     ob_modify i (\<lambda>m. m\<lparr>om_status := DeadLettered, om_updated_at := now\<rparr>)"

section \<open>Invariant of the in-memory outbox\<close>

definition ob_inv :: "InMemoryOutboxRepository \<Rightarrow> bool" where
  "ob_inv s \<longleftrightarrow> dm_wf (ob_store s) \<and> (\<forall>i m. ob_get s i = Some m \<longrightarrow> om_id m = i)"

lemma ob_get_put [simp]: "ob_get (ob_put i m s) j = (if j = i then Some m else ob_get s j)"
  by (simp add: ob_get_def ob_put_def)

lemma ob_claim_lease_put [simp]: "ob_claim_lease (ob_put i m s) = ob_claim_lease s"
  by (simp add: ob_put_def)

lemma ob_inv_put [simp]: "ob_inv s \<Longrightarrow> om_id m = i \<Longrightarrow> ob_inv (ob_put i m s)"
  by (auto simp: ob_inv_def) (simp add: ob_put_def)

lemma ob_inv_id: "ob_inv s \<Longrightarrow> ob_get s i = Some m \<Longrightarrow> om_id m = i"
  by (simp add: ob_inv_def)

lemma ob_inv_default: "ob_inv ob_default"
  by (simp add: ob_inv_def ob_default_def ob_get_def)

lemma om_updates_id [simp]:
  "om_id (om_mark_published now m) = om_id m" "om_id (om_mark_failed now e m) = om_id m"
  "om_id (om_record_attempt now m) = om_id m"
  by (simp_all add: om_mark_published_def om_mark_failed_def om_record_attempt_def)

lemma om_updates_status [simp, status_simps]:
  "om_status (om_mark_published now m) = Published" "om_status (om_mark_failed now e m) = Failed"
  "om_status (om_record_attempt now m) = om_status m"
  by (simp_all add: om_mark_published_def om_mark_failed_def om_record_attempt_def)

lemma ob_modify_inv:
  "ob_inv s \<Longrightarrow> (\<And>m. om_id (f m) = om_id m) \<Longrightarrow> ob_inv (snd (ob_modify i f s))"
  by (auto simp: ob_modify_def ob_inv_id split: option.splits)

lemma ob_values:
  "ob_inv s \<Longrightarrow> m \<in> set (dm_values (ob_store s)) \<longleftrightarrow> ob_get s (om_id m) = Some m"
  unfolding ob_inv_def ob_get_def by (auto simp: dm_values_get)

lemma ob_values_distinct: "ob_inv s \<Longrightarrow> distinct (map om_id (dm_values (ob_store s)))"
proof -
  assume inv: "ob_inv s"
  have "map om_id (dm_values (ob_store s)) = map fst (ob_store s)"
    using inv by (auto simp: dm_values_def ob_inv_def ob_get_def dm_get_def dm_wf_def)
  then show ?thesis using inv by (simp add: ob_inv_def dm_wf_def)
qed

section \<open>Claiming\<close>

abbreviation ob_due_ids :: "instant \<Rightarrow> InMemoryOutboxRepository \<Rightarrow> uuid set" where
  "ob_due_ids now s \<equiv> {i. \<exists>m. ob_get s i = Some m \<and> ob_due now m}"

abbreviation ob_leased :: "instant \<Rightarrow> InMemoryOutboxRepository \<Rightarrow> OutboxMessage \<Rightarrow> OutboxMessage" where
  "ob_leased now s m \<equiv> m\<lparr>om_next_attempt_at := now + ob_claim_lease s\<rparr>"

definition ob_sorted_due :: "instant \<Rightarrow> InMemoryOutboxRepository \<Rightarrow> OutboxMessage list" where
  "ob_sorted_due now s =
     sort_key (\<lambda>m. (om_created_at m, om_id m)) (filter (ob_due now) (dm_values (ob_store s)))"

lemma insort_key_map:
  "(\<And>x. f (g x) = h x) \<Longrightarrow> insort_key f (g a) (map g xs) = map g (insort_key h a xs)"
  by (induction xs) auto

lemma sort_key_map: "(\<And>x. f (g x) = h x) \<Longrightarrow> sort_key f (map g xs) = map g (sort_key h xs)"
  by (induction xs) (auto simp: insort_key_map)

lemma ob_candidates_sorted_due: "ob_candidates now limit s = map om_id (take limit (ob_sorted_due now s))"
  unfolding ob_candidates_def ob_sorted_due_def
  by (subst sort_key_map [where h = "\<lambda>m. (om_created_at m, om_id m)"]) (simp_all add: take_map)

lemma ob_sorted_due_props:
  assumes "ob_inv s"
  shows "set (ob_sorted_due now s) = {m. ob_get s (om_id m) = Some m \<and> ob_due now m}"
    and "distinct (map om_id (ob_sorted_due now s))"
    and "sorted (map (\<lambda>m. (om_created_at m, om_id m)) (ob_sorted_due now s))"
proof -
  show "set (ob_sorted_due now s) = {m. ob_get s (om_id m) = Some m \<and> ob_due now m}"
    using assms by (auto simp: ob_sorted_due_def ob_values)
  have "distinct (map om_id (filter (ob_due now) (dm_values (ob_store s))))"
    by (rule distinct_map_filter [OF ob_values_distinct [OF assms]])
  moreover have "mset (map om_id (ob_sorted_due now s)) = mset (map om_id (filter (ob_due now) (dm_values (ob_store s))))"
    by (simp add: ob_sorted_due_def)
  ultimately show "distinct (map om_id (ob_sorted_due now s))"
    using mset_eq_imp_distinct_iff by blast
  show "sorted (map (\<lambda>m. (om_created_at m, om_id m)) (ob_sorted_due now s))"
    by (simp add: ob_sorted_due_def)
qed

lemma ob_claim_all_due:
  assumes "ob_inv s" and "distinct (map om_id ms)"
    and "\<forall>m \<in> set ms. ob_get s (om_id m) = Some m \<and> ob_due now m"
  shows "fst (ob_claim_all now (map om_id ms) s) = map (ob_leased now s) ms
    \<and> ob_inv (snd (ob_claim_all now (map om_id ms) s))
    \<and> ob_claim_lease (snd (ob_claim_all now (map om_id ms) s)) = ob_claim_lease s
    \<and> (\<forall>i. ob_get (snd (ob_claim_all now (map om_id ms) s)) i =
          (if i \<in> om_id ` set ms then map_option (ob_leased now s) (ob_get s i) else ob_get s i))"
  using assms
proof (induction ms arbitrary: s)
  case (Cons m ms)
  let ?s1 = "ob_put (om_id m) (ob_leased now s m) s"
  have c: "ob_claim_one now (om_id m) s = (Some (ob_leased now s m), ?s1)"
    using Cons.prems by (simp add: ob_claim_one_def Let_def)
  have inv: "ob_inv ?s1" using Cons.prems by simp
  have "\<forall>m' \<in> set ms. ob_get ?s1 (om_id m') = Some m' \<and> ob_due now m'"
    using Cons.prems(3) distinct_map_neq [OF Cons.prems(2)] by simp
  note IH = Cons.IH [OF inv _ this]
  obtain cs s2 where r: "ob_claim_all now (map om_id ms) ?s1 = (cs, s2)" by fastforce
  have e: "ob_claim_all now (map om_id (m # ms)) s = (ob_leased now s m # cs, s2)"
    by (simp add: c r)
  show ?case
    unfolding e using IH Cons.prems(2,3) by (simp add: r)
qed simp

lemma sorted_take_drop:
  "sorted (map f xs) \<Longrightarrow> x \<in> set (take n xs) \<Longrightarrow> y \<in> set (drop n xs) \<Longrightarrow> f x \<le> f y"
proof -
  assume "sorted (map f xs)" and xy: "x \<in> set (take n xs)" "y \<in> set (drop n xs)"
  then have "sorted (map f (take n xs) @ map f (drop n xs))" by (simp flip: map_append)
  then show "f x \<le> f y" using xy by (auto simp: sorted_append)
qed

text \<open>
  C27: \<open>pending\<close> claims exactly the first \<open>limit\<close> due records in order of creation (record id
  breaking ties): it returns them sorted, no record twice, each with its lease set; every due record
  it leaves behind is younger than every one it returns; it changes nothing else in the store, and
  the store's invariant holds afterwards.
\<close>

theorem ob_pending_claims:
  assumes "ob_inv s" and "ob_pending now limit s = (Ok ms, s')"
  shows "distinct (map om_id ms) \<and> sorted (map (\<lambda>m. (om_created_at m, om_id m)) ms)
    \<and> length ms = min limit (card (ob_due_ids now s)) \<and> om_id ` set ms \<subseteq> ob_due_ids now s
    \<and> (\<forall>m \<in> set ms. ob_get s' (om_id m) = Some m \<and> om_next_attempt_at m = now + ob_claim_lease s
          \<and> (\<exists>m0. ob_get s (om_id m) = Some m0 \<and> m = ob_leased now s m0))
    \<and> (\<forall>i. i \<notin> om_id ` set ms \<longrightarrow> ob_get s' i = ob_get s i)
    \<and> (\<forall>i m0 m. ob_get s i = Some m0 \<and> ob_due now m0 \<and> i \<notin> om_id ` set ms \<and> m \<in> set ms
          \<longrightarrow> (om_created_at m, om_id m) \<le> (om_created_at m0, i))
    \<and> ob_inv s'"
proof -
  define due where "due = ob_sorted_due now s"
  note D = ob_sorted_due_props [OF assms(1), of now, folded due_def]
  let ?c = "take limit due"
  have dist: "distinct (map om_id ?c)" using D(2) by (metis distinct_take take_map)
  have sub: "\<forall>m \<in> set ?c. ob_get s (om_id m) = Some m \<and> ob_due now m"
    using D(1) by (auto dest: in_set_takeD)
  note A = ob_claim_all_due [OF assms(1) dist sub]
  have ms: "ms = map (ob_leased now s) ?c" and s': "s' = snd (ob_claim_all now (map om_id ?c) s)"
    using assms(2) A by (auto simp: ob_pending_def ob_candidates_sorted_due due_def Let_def split: prod.splits)
  have ids: "om_id ` set ms = om_id ` set ?c" by (auto simp: ms image_iff)
  have "ob_due_ids now s = om_id ` set due"
    using assms(1) D(1) by (auto simp: image_iff ob_inv_def)
  then have card: "card (ob_due_ids now s) = length due"
    using D(2) distinct_card [OF D(2)] by simp
  have sorted: "sorted (map (\<lambda>m. (om_created_at m, om_id m)) ?c)"
    using D(3) by (metis sorted_wrt_take take_map)
  have young: "(om_created_at m, om_id m) \<le> (om_created_at m0, i)"
    if "ob_get s i = Some m0" "ob_due now m0" "i \<notin> om_id ` set ms" "m \<in> set ms" for i m0 m
  proof -
    have i: "om_id m0 = i" using assms(1) that(1) by (rule ob_inv_id)
    with that D(1) have "m0 \<in> set due" by simp
    moreover have "m0 \<notin> set ?c" using that(3) i ids by auto
    ultimately have "m0 \<in> set (drop limit due)" by (metis Un_iff append_take_drop_id set_append)
    moreover from that(4) ms obtain m1 where "m1 \<in> set ?c" "m = ob_leased now s m1" by auto
    ultimately show ?thesis using sorted_take_drop [OF D(3), of m1 limit m0] i by simp
  qed
  have props: "distinct (map om_id ms)" "sorted (map (\<lambda>m. (om_created_at m, om_id m)) ms)"
    "length ms = min limit (card (ob_due_ids now s))" "om_id ` set ms \<subseteq> ob_due_ids now s"
    using dist sorted card sub by (auto simp: ms comp_def)
  have rows: "\<forall>m \<in> set ms. ob_get s' (om_id m) = Some m \<and> om_next_attempt_at m = now + ob_claim_lease s
      \<and> (\<exists>m0. ob_get s (om_id m) = Some m0 \<and> m = ob_leased now s m0)"
    using A sub unfolding s' by (auto simp: ms)
  show ?thesis using props rows young A ids unfolding s' by (metis (no_types, lifting))
qed

lemma ob_pending_eq:
  "ob_pending now limit s = (Ok (fst (ob_claim_all now (ob_candidates now limit s) s)),
     snd (ob_claim_all now (ob_candidates now limit s) s))"
  by (simp add: ob_pending_def split: prod.splits)

theorem ob_pending_claims_witness:
  "\<exists>ms s'. ob_pending 7 1 (ob_put 2 (OutboxMessage_new 5 2 (Message_new 9 ''t'' [] ''c''))
       (ob_put 1 (OutboxMessage_new 3 1 (Message_new 8 ''t'' [] ''c'')) ob_default)) = (Ok ms, s')
     \<and> map om_id ms = [1] \<and> distinct (map om_id ms)"
proof -
  let ?s = "ob_put 2 (OutboxMessage_new 5 2 (Message_new 9 ''t'' [] ''c''))
       (ob_put 1 (OutboxMessage_new 3 1 (Message_new 8 ''t'' [] ''c'')) ob_default)"
  have inv: "ob_inv ?s" by (intro ob_inv_put ob_inv_default) (simp_all add: OutboxMessage_new_def)
  let ?r = "ob_claim_all 7 (ob_candidates 7 1 ?s) ?s"
  have e: "ob_pending 7 1 ?s = (Ok (fst ?r), snd ?r)" by (rule ob_pending_eq)
  have "map om_id (fst ?r) = [1]" by code_simp
  with e ob_pending_claims [OF inv e, THEN conjunct1] show ?thesis by (intro exI conjI)
qed

section \<open>Concurrent claims\<close>

text \<open>
  Several dispatchers run the second pass of \<open>pending\<close> at the same time; each locked step is
  atomic, so an execution is a sequence of steps \<open>(caller, reading of the clock, record)\<close> in some
  order. \<open>run_claims\<close> lists the steps that obtained the record.
\<close>

fun run_claims ::
    "(nat \<times> instant \<times> uuid) list \<Rightarrow> InMemoryOutboxRepository \<Rightarrow> (nat \<times> instant \<times> uuid) list" where
  "run_claims [] s = []"
| "run_claims ((c, now, i) # ts) s =
     (case ob_claim_one now i s of
        (None, s') \<Rightarrow> run_claims ts s'
      | (Some _, s') \<Rightarrow> (c, now, i) # run_claims ts s')"

lemma ob_claim_one_cases:
  "ob_claim_one now i s = (None, s) \<or>
   (\<exists>m. ob_get s i = Some m \<and> ob_due now m
      \<and> ob_claim_one now i s = (Some (ob_leased now s m), ob_put i (ob_leased now s m) s))"
  by (auto simp: ob_claim_one_def Let_def split: option.splits)

lemma run_claims_after:
  assumes "(c, t, i) \<in> set (run_claims ts s)" and "ob_get s i = Some m" and "0 \<le> ob_claim_lease s"
  shows "om_next_attempt_at m \<le> t"
  using assms
proof (induction ts arbitrary: s m)
  case (Cons x ts)
  obtain c' now j where x: "x = (c', now, j)" by (cases x)
  show ?case using ob_claim_one_cases [of now j s]
  proof (elim disjE exE conjE)
    assume "ob_claim_one now j s = (None, s)"
    then show ?thesis using Cons by (simp add: x)
  next
    fix m' assume g: "ob_get s j = Some m'" "ob_due now m'"
      and e: "ob_claim_one now j s = (Some (ob_leased now s m'), ob_put j (ob_leased now s m') s)"
    let ?s1 = "ob_put j (ob_leased now s m') s"
    show ?thesis
    proof (cases "i = j")
      case True
      then have m: "m = m'" using g Cons.prems(2) by simp
      have "t = now \<or> (c, t, i) \<in> set (run_claims ts ?s1)"
        using Cons.prems(1) e by (auto simp: x)
      then show ?thesis
        using Cons.IH [of ?s1 "ob_leased now s m'"] True g(2) Cons.prems(3) by (auto simp: m ob_due_def)
    next
      case False
      then show ?thesis using Cons.IH [of ?s1 m] Cons.prems e by (simp add: x)
    qed
  qed
qed simp

lemma run_claims_spaced:
  "0 \<le> ob_claim_lease s \<Longrightarrow>
   sorted_wrt (\<lambda>(_, t, i) (_, t', i'). i = i' \<longrightarrow> t + ob_claim_lease s \<le> t') (run_claims ts s)"
proof (induction ts arbitrary: s)
  case (Cons x ts)
  obtain c now j where x: "x = (c, now, j)" by (cases x)
  show ?case using ob_claim_one_cases [of now j s]
  proof (elim disjE exE conjE)
    assume "ob_claim_one now j s = (None, s)"
    then show ?thesis using Cons by (simp add: x)
  next
    fix m assume e: "ob_claim_one now j s = (Some (ob_leased now s m), ob_put j (ob_leased now s m) s)"
    let ?s1 = "ob_put j (ob_leased now s m) s"
    have "now + ob_claim_lease s \<le> t" if "(c', t, j) \<in> set (run_claims ts ?s1)" for c' t
      using run_claims_after [OF that, of "ob_leased now s m"] Cons.prems by simp
    then show ?thesis using Cons.IH [of ?s1] Cons.prems by (auto simp: x e)
  qed
qed simp

lemma run_claims_subset: "set (run_claims ts s) \<subseteq> set ts"
proof (induction ts arbitrary: s)
  case (Cons x ts)
  obtain c now j where x: "x = (c, now, j)" by (cases x)
  show ?case using Cons by (auto simp: x split: prod.splits option.splits)
qed simp

lemma sorted_wrt_pair:
  "sorted_wrt P xs \<Longrightarrow> x \<in> set xs \<Longrightarrow> y \<in> set xs \<Longrightarrow> x = y \<or> P x y \<or> P y x"
  by (induction xs) auto

text \<open>
  C8: Two dispatchers never both receive a record: whatever candidate lists two concurrent
  \<open>pending\<close> calls computed (in any state, even the same list), and however the atomic steps of their
  claiming passes interleave, the records they obtain are disjoint, as long as the two clock
  readings are less than the lease apart.
\<close>

theorem concurrent_claims_disjoint:
  assumes "ts \<in> shuffles (map (\<lambda>i. (0, now1, i)) ids1) (map (\<lambda>i. (1, now2, i)) ids2)"
    and "\<bar>now1 - now2\<bar> < ob_claim_lease s"
  shows "{i. \<exists>t. (0, t, i) \<in> set (run_claims ts s)} \<inter> {i. \<exists>t. (1, t, i) \<in> set (run_claims ts s)} = {}"
proof -
  have lease: "0 \<le> ob_claim_lease s" using assms(2) by simp
  note sub = run_claims_subset
  have "set ts = (\<lambda>i. (0, now1, i)) ` set ids1 \<union> (\<lambda>i. (1, now2, i)) ` set ids2"
    using set_shuffles [OF assms(1)] by simp
  then have times: "(0, t, i) \<in> set (run_claims ts s) \<Longrightarrow> t = now1"
      "(1, t, i) \<in> set (run_claims ts s) \<Longrightarrow> t = now2" for t i
    using sub [of ts s] by auto
  show ?thesis
    using sorted_wrt_pair [OF run_claims_spaced [OF lease, of ts]] assms(2) times by fastforce
qed

text \<open>Two passes over the same two due records, each getting one of them.\<close>

definition two_due :: InMemoryOutboxRepository where
  "two_due = ob_put 2 (OutboxMessage_new 0 2 (Message_new 2 ''orders'' [] ''json'')) (ob_put 1 (OutboxMessage_new 0 1 (Message_new 1 ''orders'' [] ''json'')) ob_default)"

lemma two_due_run: "run_claims [(0, 7, 1), (1, 8, 1), (1, 8, 2), (0, 7, 2)] two_due = [(0, 7, 1), (1, 8, 2)]"
  by code_simp

theorem concurrent_claims_disjoint_witness:
  "run_claims [(0, 7, 1), (1, 8, 1), (1, 8, 2), (0, 7, 2)] two_due = [(0, 7, 1), (1, 8, 2)]
   \<and> {i. \<exists>t. (0, t, i) \<in> set (run_claims [(0, 7, 1), (1, 8, 1), (1, 8, 2), (0, 7, 2)] two_due)}
     \<inter> {i. \<exists>t. (1, t, i) \<in> set (run_claims [(0, 7, 1), (1, 8, 1), (1, 8, 2), (0, 7, 2)] two_due)} = {}"
proof
  show "{i. \<exists>t. (0, t, i) \<in> set (run_claims [(0, 7, 1), (1, 8, 1), (1, 8, 2), (0, 7, 2)] two_due)}
     \<inter> {i. \<exists>t. (1, t, i) \<in> set (run_claims [(0, 7, 1), (1, 8, 1), (1, 8, 2), (0, 7, 2)] two_due)} = {}"
    by (rule concurrent_claims_disjoint [of _ 7 "[1, 2]" 8 "[1, 2]"])
      (simp_all add: two_due_def ob_default_def DEFAULT_CLAIM_LEASE_def)
qed (rule two_due_run)

section \<open>The wake-up signal\<close>

text \<open>
  \<open>OutboxSignal\<close>: \<open>sg_waiting\<close> callers wait in \<open>notified\<close>; \<open>notify\<close> wakes one of them or leaves one permit.
  The answer of \<open>notify\<close> is whether a caller was woken, that of \<open>notified\<close> whether it returned at once.
\<close>

record OutboxSignal =
  sg_permit :: bool
  sg_waiting :: nat

definition signal_new :: OutboxSignal where
  "signal_new = \<lparr>sg_permit = False, sg_waiting = 0\<rparr>"

definition signal_notify :: "OutboxSignal \<Rightarrow> bool \<times> OutboxSignal" where
  "signal_notify s = (if 0 < sg_waiting s then (True, s\<lparr>sg_waiting := sg_waiting s - 1\<rparr>) else (False, s\<lparr>sg_permit := True\<rparr>))"

definition signal_notified :: "OutboxSignal \<Rightarrow> bool \<times> OutboxSignal" where
  "signal_notified s = (if sg_permit s then (True, s\<lparr>sg_permit := False\<rparr>) else (False, s\<lparr>sg_waiting := sg_waiting s + 1\<rparr>))"

inductive signal_reached :: "OutboxSignal \<Rightarrow> bool" where
  reached_new: "signal_reached signal_new"
| reached_notify: "signal_reached s \<Longrightarrow> signal_reached (snd (signal_notify s))"
| reached_notified: "signal_reached s \<Longrightarrow> signal_reached (snd (signal_notified s))"

lemma signal_inv: "signal_reached s \<Longrightarrow> sg_permit s \<Longrightarrow> sg_waiting s = 0"
  by (induction rule: signal_reached.induct) (auto simp: signal_new_def signal_notify_def signal_notified_def split: if_splits)

text \<open>
  No wake-up is lost: a commit that notifies either wakes a waiting dispatcher or lets the next one that
  waits return at once; nobody ever waits while a permit is left, and several notifications without a
  waiter leave a single permit.
\<close>

theorem signal_not_lost:
  assumes "signal_reached s" and "signal_notify s = (woken, s')"
  shows "(if woken then sg_waiting s = Suc (sg_waiting s') else fst (signal_notified s'))
    \<and> (sg_permit s' \<longrightarrow> sg_waiting s' = 0)
    \<and> (\<not> woken \<longrightarrow> snd (signal_notify s') = s' \<and> \<not> fst (signal_notified (snd (signal_notified s'))))"
proof -
  have "signal_reached s'" using assms reached_notify [of s] by simp
  from signal_inv [OF this] assms(2) signal_inv [OF assms(1)] show ?thesis
    by (auto simp: signal_notify_def signal_notified_def split: if_splits)
qed

end
