(* ===== verification/Outbox_Contract.thy ===== *)
theory Outbox_Contract
  imports Outbox
begin

text \<open>
  What a client of an outbox repository (the dispatcher, the dead-letter sweep) may rely on, as a
  locale over the trait's dictionary, and the correctness of
  \<open>sweep_failed_to_dead_letter\<close> for every repository and queue that keep their contracts.
\<close>

section \<open>The contract of an outbox repository\<close>

text \<open>
  An operation on one record either fails and changes no record, or updates exactly that record
  (which exists) as the relation says.
\<close>

definition row_update ::
    "(OutboxMessage \<Rightarrow> OutboxMessage \<Rightarrow> bool) \<Rightarrow> uuid \<Rightarrow> 'e + 'a
     \<Rightarrow> (uuid \<rightharpoonup> OutboxMessage) \<Rightarrow> (uuid \<rightharpoonup> OutboxMessage) \<Rightarrow> bool" where
  "row_update rel i r rows rows' \<longleftrightarrow> (case r of
       Inl _ \<Rightarrow> rows' = rows
     | Inr _ \<Rightarrow> \<exists>x y. rows i = Some x \<and> rel x y \<and> rows' = rows(i \<mapsto> y))"

lemma row_update_cases:
  assumes "row_update rel i r rows rows'" and "rows i = Some x"
  obtains y where "rows' = rows(i \<mapsto> y)" and "y = x \<and> \<not> is_ok r \<or> is_ok r \<and> rel x y"
  using assms by (cases r) (auto simp: row_update_def fun_upd_idem)

definition rel_retry :: "OutboxMessage \<Rightarrow> OutboxMessage \<Rightarrow> bool" where
  "rel_retry x y \<longleftrightarrow> (\<exists>t now. y = x\<lparr>om_next_attempt_at := t, om_updated_at := now\<rparr>)"

lemma rel_retry_update [simp]:
  "rel_retry x (x\<lparr>om_next_attempt_at := t, om_updated_at := now\<rparr>)"
  by (auto simp: rel_retry_def)

definition rel_dead_lettered :: "OutboxMessage \<Rightarrow> OutboxMessage \<Rightarrow> bool" where
  "rel_dead_lettered x y \<longleftrightarrow> (\<exists>now. y = x\<lparr>om_status := DeadLettered, om_updated_at := now\<rparr>)"

text \<open>What a claim returns, and what it does to the records.\<close>

definition claim_update ::
    "nat \<Rightarrow> OutboxMessage list \<Rightarrow> (uuid \<rightharpoonup> OutboxMessage) \<Rightarrow> (uuid \<rightharpoonup> OutboxMessage) \<Rightarrow> bool" where
  "claim_update limit ms rows rows' \<longleftrightarrow>
     distinct (map om_id ms) \<and> length ms \<le> limit
     \<and> (\<forall>m \<in> set ms. om_status m = Pending \<and> rows' (om_id m) = Some m
          \<and> (\<exists>m0 t. rows (om_id m) = Some m0 \<and> m = m0\<lparr>om_next_attempt_at := t\<rparr>))
     \<and> (\<forall>i. i \<notin> om_id ` set ms \<longrightarrow> rows' i = rows i)"

locale outbox_repository =
  fixes R :: "'w OutboxRepository"
    and rows :: "'w \<Rightarrow> uuid \<rightharpoonup> OutboxMessage"
    and inv :: "'w \<Rightarrow> bool"
  assumes insert_law: "inv w \<Longrightarrow> or_insert R m w = (r, w') \<Longrightarrow>
      inv w' \<and> rows w' = (if is_ok r then (rows w)(om_id m \<mapsto> m) else rows w)"
    and record_law: "inv w \<Longrightarrow> or_record_attempt R i w = (r, w') \<Longrightarrow>
      inv w' \<and> row_update (\<lambda>x y. \<exists>now. y = om_record_attempt now x) i r (rows w) (rows w')"
    and retry_law: "inv w \<Longrightarrow> or_schedule_retry R i d w = (r, w') \<Longrightarrow>
      inv w' \<and> row_update rel_retry i r (rows w) (rows w')"
    and published_law: "inv w \<Longrightarrow> or_mark_published R i w = (r, w') \<Longrightarrow>
      inv w' \<and> row_update (\<lambda>x y. \<exists>now. y = om_mark_published now x) i r (rows w) (rows w')"
    and failed_law: "inv w \<Longrightarrow> or_mark_failed R i err w = (r, w') \<Longrightarrow>
      inv w' \<and> row_update (\<lambda>x y. \<exists>now. y = om_mark_failed now err x) i r (rows w) (rows w')"
    and dead_law: "inv w \<Longrightarrow> or_mark_dead_lettered R i w = (r, w') \<Longrightarrow>
      inv w' \<and> row_update rel_dead_lettered i r (rows w) (rows w')"
    and list_failed_law: "inv w \<Longrightarrow> or_failed R n w = (rs, w') \<Longrightarrow>
      inv w' \<and> rows w' = rows w \<and> (\<forall>ms. rs = Ok ms \<longrightarrow> length ms \<le> n \<and> distinct (map om_id ms)
        \<and> (\<forall>m \<in> set ms. rows w (om_id m) = Some m \<and> om_status m = Failed))"
    and pending_law: "inv w \<Longrightarrow> or_pending R n w = (rs, w') \<Longrightarrow>
      inv w' \<and> (case rs of Inl _ \<Rightarrow> rows w' = rows w | Inr ms \<Rightarrow> claim_update n ms (rows w) (rows w'))"

section \<open>The sweep of failed records\<close>

text \<open>The dead letter made from a record, up to its identifier and time.\<close>

definition letter_of :: "OutboxMessage \<Rightarrow> DeadLetterMessage \<Rightarrow> bool" where
  "letter_of m d \<longleftrightarrow> dl_message d = om_message m \<and> dl_attempts d = om_attempts m
     \<and> dl_reason d = (case om_last_error m of Some e \<Rightarrow> e | None \<Rightarrow> ''publish failed'')"

text \<open>Exactly the records \<open>ms\<close> became dead-lettered.\<close>

definition swept_rows ::
    "OutboxMessage list \<Rightarrow> (uuid \<rightharpoonup> OutboxMessage) \<Rightarrow> (uuid \<rightharpoonup> OutboxMessage) \<Rightarrow> bool" where
  "swept_rows ms rows rows' \<longleftrightarrow>
     (\<forall>m \<in> set ms. \<exists>y. rows' (om_id m) = Some y \<and> rel_dead_lettered m y)
     \<and> (\<forall>i. i \<notin> om_id ` set ms \<longrightarrow> rows' i = rows i)"

locale sweep_context = outbox_repository R rows inv
  for R :: "'w OutboxRepository" and rows :: "'w \<Rightarrow> uuid \<rightharpoonup> OutboxMessage" and inv :: "'w \<Rightarrow> bool" +
  fixes E :: "'w Env"
    and Q :: "'w DeadLetterQueue"
    and parked :: "'w \<Rightarrow> DeadLetterMessage list"
  assumes park_law: "inv w \<Longrightarrow> dlq_dead_letter Q m w = (rd, w') \<Longrightarrow>
      inv w' \<and> rows w' = rows w \<and> parked w' = (if is_ok rd then parked w @ [m] else parked w)"
    and mark_parked: "inv w \<Longrightarrow> or_mark_dead_lettered R i w = (r, w') \<Longrightarrow> parked w' = parked w"
    and list_parked: "inv w \<Longrightarrow> or_failed R n w = (rs, w') \<Longrightarrow> parked w' = parked w"
    and clock_frame: "inv w \<Longrightarrow> utc_now E w = (t, w') \<Longrightarrow> inv w' \<and> rows w' = rows w \<and> parked w' = parked w"
    and ids_frame: "inv w \<Longrightarrow> now_v7 E w = (i, w') \<Longrightarrow> inv w' \<and> rows w' = rows w \<and> parked w' = parked w"
begin

lemma sweep_loop_spec:
  assumes "inv w" and "distinct (map om_id ms)" and "\<forall>m \<in> set ms. rows w (om_id m) = Some m"
    and "sweep_loop E R Q ms k w = (res, w')"
  shows "inv w' \<and> (\<exists>n ds. n \<le> length ds \<and> length ds \<le> Suc n \<and> length ds \<le> length ms
    \<and> swept_rows (take n ms) (rows w) (rows w')
    \<and> parked w' = parked w @ ds \<and> list_all2 letter_of (take (length ds) ms) ds
    \<and> (case res of Inl _ \<Rightarrow> n < length ms | Inr c \<Rightarrow> n = length ms \<and> c = k + length ms))"
  using assms
proof (induction ms arbitrary: k w)
  case Nil
  then show ?case by (intro conjI exI [of _ 0] exI [of _ "[]"]) (auto simp: swept_rows_def)
next
  case (Cons m ms)
  obtain i w1 where e1: "now_v7 E w = (i, w1)" by fastforce
  obtain t w2 where e2: "utc_now E w1 = (t, w2)" by fastforce
  define d where "d = DeadLetterMessage_new i t (om_message m)
      (case om_last_error m of Some e \<Rightarrow> e | None \<Rightarrow> ''publish failed'') (om_attempts m)"
  obtain rd w3 where e3: "dlq_dead_letter Q d w2 = (rd, w3)" by fastforce
  obtain r w4 where e4: "or_mark_dead_lettered R (om_id m) w3 = (r, w4)" by fastforce
  have d: "letter_of m d" by (simp add: letter_of_def d_def DeadLetterMessage_new_def)
  note f1 = ids_frame [OF Cons.prems(1) e1]
  note f2 = clock_frame [OF conjunct1 [OF f1] e2]
  note f3 = park_law [OF conjunct1 [OF f2] e3]
  note f4 = dead_law [OF conjunct1 [OF f3] e4] and f4' = mark_parked [OF conjunct1 [OF f3] e4]
  have unf: "sweep_loop E R Q (m # ms) k w = (case rd of
       Inl e \<Rightarrow> (Err (SweepDeadLetter e), w3)
     | Inr _ \<Rightarrow> (case r of Inl e \<Rightarrow> (Err (SweepOutbox e), w4) | Inr _ \<Rightarrow> sweep_loop E R Q ms (k + 1) w4))"
    by (simp add: e1 e2 d_def [symmetric] e3 e4 split: sum.splits)
  show ?case
  proof (cases rd)
    case (Inl e)
    then show ?thesis
      using unf Cons.prems(4) f1 f2 f3
      by (intro conjI exI [of _ 0] exI [of _ "[]"]) (auto simp: swept_rows_def)
  next
    case rd: (Inr x)
    show ?thesis
    proof (cases r)
      case (Inl e)
      then show ?thesis
        using rd unf Cons.prems(4) f1 f2 f3 f4 f4' d
        by (intro conjI exI [of _ 0] exI [of _ "[d]"]) (auto simp: swept_rows_def row_update_def)
    next
      case (Inr y)
      then obtain m' where m': "rel_dead_lettered m m'" "rows w4 = (rows w)(om_id m \<mapsto> m')"
        using f1 f2 f3 f4 Cons.prems(3) by (auto simp: row_update_def)
      have "\<forall>x \<in> set ms. rows w4 (om_id x) = Some x"
        using Cons.prems(3) distinct_map_neq [OF Cons.prems(2)] unfolding m'(2) by simp
      note IH = Cons.IH [OF conjunct1 [OF f4] _ this, of "k + 1"]
      have "sweep_loop E R Q ms (k + 1) w4 = (res, w')" using unf rd Inr Cons.prems(4) by simp
      with IH Cons.prems(2) obtain n ds where I: "inv w'" "n \<le> length ds" "length ds \<le> Suc n"
        "length ds \<le> length ms" "swept_rows (take n ms) (rows w4) (rows w')"
        "parked w' = parked w4 @ ds" "list_all2 letter_of (take (length ds) ms) ds"
        "case res of Inl _ \<Rightarrow> n < length ms | Inr c \<Rightarrow> n = length ms \<and> c = k + 1 + length ms"
        by auto
      have m_new: "om_id m \<notin> om_id ` set (take n ms)"
        using Cons.prems(2) by (auto dest: in_set_takeD)
      then have "swept_rows (take (Suc n) (m # ms)) (rows w) (rows w')"
        using I(5) m' by (auto simp: swept_rows_def)
      moreover have "parked w' = parked w @ (d # ds)"
        using I(6) f1 f2 f3 f4' rd by simp
      ultimately show ?thesis
        using I d by (intro conjI exI [of _ "Suc n"] exI [of _ "d # ds"]) (auto split: sum.splits)
    qed
  qed
qed

end

end
