(* ===== verification/Dispatcher.thy ===== *)
theory Dispatcher
  imports Outbox_Contract
begin

text \<open>
  \<open>crates/pharos-messaging/src/outbox_dispatcher.rs\<close>: the dispatcher that claims pending outbox
  messages, partitions them into one lane per routing key, and publishes lane by lane with
  head-of-line blocking. \<open>dispatch_pending\<close> is the run with one lane at a time (the default
  concurrency); \<open>lane_step\<close> cuts a lane at its await points, so that an execution with any
  concurrency is an interleaving of the steps of its lanes.
\<close>

section \<open>Configuration and results\<close>

record DispatchConfig =
  batch_size :: nat
  retry :: RetryPolicy
  concurrency :: nat

definition DispatchConfig_default :: DispatchConfig where
  "DispatchConfig_default =
     \<lparr>batch_size = 100,
      retry = \<lparr>max_attempts = 5, backoff = Exponential (200 * 10 ^ 6) 2 (30 * 10 ^ 9) True\<rparr>,
      concurrency = 1\<rparr>"

definition DispatchConfig_new :: "nat \<Rightarrow> RetryPolicy \<Rightarrow> DispatchConfig" where
  "DispatchConfig_new n p = DispatchConfig_default\<lparr>batch_size := n, retry := p\<rparr>"

definition with_batch_size :: "DispatchConfig \<Rightarrow> nat \<Rightarrow> DispatchConfig" where
  "with_batch_size c n = c\<lparr>batch_size := n\<rparr>"

definition with_retry :: "DispatchConfig \<Rightarrow> RetryPolicy \<Rightarrow> DispatchConfig" where
  "with_retry c p = c\<lparr>retry := p\<rparr>"

definition with_concurrency :: "DispatchConfig \<Rightarrow> nat \<Rightarrow> DispatchConfig" where
  "with_concurrency c n = c\<lparr>concurrency := n\<rparr>"

datatype OutboxDispatchError = DispatchOutbox OutboxError | DispatchMessaging MessagingError

record DispatchResult =
  published :: nat
  errors :: "OutboxDispatchError list"

definition dispatch_is_ok :: "DispatchResult \<Rightarrow> bool" where
  "dispatch_is_ok r \<longleftrightarrow> errors r = []"

definition failure_count :: "DispatchResult \<Rightarrow> nat" where
  "failure_count r = length (errors r)"

section \<open>Lanes\<close>

text \<open>The partitioning loop: \<open>lanes\<close> and \<open>lane_by_key\<close> are its two local variables.\<close>

fun lanes_loop ::
    "OutboxMessage list \<Rightarrow> OutboxMessage list list \<Rightarrow> (string, nat) dashmap \<Rightarrow> OutboxMessage list list" where
  "lanes_loop [] lanes lane_by_key = lanes"
| "lanes_loop (m # ms) lanes lane_by_key =
     (case key (om_message m) of
        Some k \<Rightarrow>
          (case dm_get lane_by_key k of
             Some index \<Rightarrow> lanes_loop ms (lanes[index := lanes ! index @ [m]]) lane_by_key
           | None \<Rightarrow> lanes_loop ms (lanes @ [[m]]) (dm_insert k (length lanes) lane_by_key))
      | None \<Rightarrow> lanes_loop ms (lanes @ [[m]]) lane_by_key)"

definition partition_lanes :: "OutboxMessage list \<Rightarrow> OutboxMessage list list" where
  "partition_lanes ms = lanes_loop ms [] []"

section \<open>Dispatching\<close>

definition to_errors :: "OutboxError + unit \<Rightarrow> OutboxDispatchError list" where
  "to_errors r = (case r of Inl e \<Rightarrow> [DispatchOutbox e] | Inr _ \<Rightarrow> [])"

definition dispatch_one ::
    "'w Env \<Rightarrow> 'w OutboxRepository \<Rightarrow> 'w MessagePublisher \<Rightarrow> DispatchConfig \<Rightarrow> OutboxMessage
     \<Rightarrow> 'w \<Rightarrow> (nat \<times> OutboxDispatchError list \<times> bool) \<times> 'w" where
  "dispatch_one E R P cfg om w =
     (let attempt = om_attempts om + 1
      in case or_record_attempt R (om_id om) w of
           (Inl e, w1) \<Rightarrow> ((0, [DispatchOutbox e], False), w1)
         | (Inr _, w1) \<Rightarrow>
             (case publish P (om_message om) w1 of
                (Inr _, w2) \<Rightarrow>
                  (case or_mark_published R (om_id om) w2 of
                     (Inr _, w3) \<Rightarrow> ((1, [], True), w3)
                   | (Inl e, w3) \<Rightarrow> ((0, [DispatchOutbox e], True), w3))
              | (Inl e, w2) \<Rightarrow>
                  (let (u, w3) = random_f64 E w2;
                       (r, w4) = (case decide_for (retry cfg) u attempt (failure_kind e) of
                          DeadLetter \<Rightarrow> or_mark_failed R (om_id om) (MessagingError_to_string e) w3
                        | RetryAfter delay \<Rightarrow> or_schedule_retry R (om_id om) delay w3)
                   in ((0, to_errors r @ [DispatchMessaging e], False), w4))))"

text \<open>One lane: messages in claim order, stopping after the first that was not delivered.\<close>

fun run_lane ::
    "'w Env \<Rightarrow> 'w OutboxRepository \<Rightarrow> 'w MessagePublisher \<Rightarrow> DispatchConfig \<Rightarrow> OutboxMessage list
     \<Rightarrow> 'w \<Rightarrow> (nat \<times> OutboxDispatchError list) \<times> 'w" where
  "run_lane E R P cfg [] w = ((0, []), w)"
| "run_lane E R P cfg (m # ms) w =
     (let ((p, e, delivered), w1) = dispatch_one E R P cfg m w
      in if \<not> delivered then ((p, e), w1)
         else (let ((p', e'), w2) = run_lane E R P cfg ms w1 in ((p + p', e @ e'), w2)))"

fun run_lanes ::
    "'w Env \<Rightarrow> 'w OutboxRepository \<Rightarrow> 'w MessagePublisher \<Rightarrow> DispatchConfig \<Rightarrow> OutboxMessage list list
     \<Rightarrow> 'w \<Rightarrow> DispatchResult \<times> 'w" where
  "run_lanes E R P cfg [] w = (\<lparr>published = 0, errors = []\<rparr>, w)"
| "run_lanes E R P cfg (lane # lanes) w =
     (let ((p, e), w1) = run_lane E R P cfg lane w;
          (res, w2) = run_lanes E R P cfg lanes w1
      in (\<lparr>published = p + published res, errors = e @ errors res\<rparr>, w2))"

definition dispatch_pending ::
    "'w Env \<Rightarrow> 'w OutboxRepository \<Rightarrow> 'w MessagePublisher \<Rightarrow> DispatchConfig \<Rightarrow> nat
     \<Rightarrow> 'w \<Rightarrow> DispatchResult \<times> 'w" where
  "dispatch_pending E R P cfg limit w =
     (case or_pending R limit w of
        (Inl e, w1) \<Rightarrow> (\<lparr>published = 0, errors = [DispatchOutbox e]\<rparr>, w1)
      | (Inr pending, w1) \<Rightarrow> run_lanes E R P cfg (partition_lanes pending) w1)"

definition dispatch_batch ::
    "'w Env \<Rightarrow> 'w OutboxRepository \<Rightarrow> 'w MessagePublisher \<Rightarrow> DispatchConfig
     \<Rightarrow> 'w \<Rightarrow> DispatchResult \<times> 'w" where
  "dispatch_batch E R P cfg w = dispatch_pending E R P cfg (batch_size cfg) w"

section \<open>Lanes cut at their await points\<close>

datatype lane_pc =
    AtRecord
  | AtPublish OutboxMessage
  | AtMarkPublished OutboxMessage
  | AtSettleFailure OutboxMessage MessagingError
  | LaneDone

record lane_state =
  ln_pc :: lane_pc
  ln_rest :: "OutboxMessage list"
  ln_published :: nat
  ln_errors :: "OutboxDispatchError list"

definition lane_start :: "OutboxMessage list \<Rightarrow> lane_state" where
  "lane_start ms = \<lparr>ln_pc = (if ms = [] then LaneDone else AtRecord), ln_rest = ms, ln_published = 0, ln_errors = []\<rparr>"

text \<open>The state of a lane after it has delivered a message.\<close>

definition lane_continue :: "lane_state \<Rightarrow> lane_state" where
  "lane_continue lane = lane\<lparr>ln_pc := (if ln_rest lane = [] then LaneDone else AtRecord)\<rparr>"

definition lane_step ::
    "'w Env \<Rightarrow> 'w OutboxRepository \<Rightarrow> 'w MessagePublisher \<Rightarrow> DispatchConfig \<Rightarrow> lane_state
     \<Rightarrow> 'w \<Rightarrow> lane_state \<times> 'w" where
  "lane_step E R P cfg lane w =
     (case ln_pc lane of
        LaneDone \<Rightarrow> (lane, w)
      | AtRecord \<Rightarrow>
          (case ln_rest lane of
             [] \<Rightarrow> (lane\<lparr>ln_pc := LaneDone\<rparr>, w)
           | om # rest \<Rightarrow>
               (case or_record_attempt R (om_id om) w of
                  (Inl e, w') \<Rightarrow> (lane\<lparr>ln_pc := LaneDone, ln_rest := rest, ln_errors := ln_errors lane @ [DispatchOutbox e]\<rparr>, w')
                | (Inr _, w') \<Rightarrow> (lane\<lparr>ln_pc := AtPublish om, ln_rest := rest\<rparr>, w')))
      | AtPublish om \<Rightarrow>
          (case publish P (om_message om) w of
             (Inr _, w') \<Rightarrow> (lane\<lparr>ln_pc := AtMarkPublished om\<rparr>, w')
           | (Inl e, w') \<Rightarrow> (lane\<lparr>ln_pc := AtSettleFailure om e\<rparr>, w'))
      | AtMarkPublished om \<Rightarrow>
          (case or_mark_published R (om_id om) w of
             (Inr _, w') \<Rightarrow> (lane_continue (lane\<lparr>ln_published := ln_published lane + 1\<rparr>), w')
           | (Inl e, w') \<Rightarrow> (lane_continue (lane\<lparr>ln_errors := ln_errors lane @ [DispatchOutbox e]\<rparr>), w'))
      | AtSettleFailure om e \<Rightarrow>
          (let (u, w1) = random_f64 E w;
               (r, w2) = (case decide_for (retry cfg) u (om_attempts om + 1) (failure_kind e) of
                  DeadLetter \<Rightarrow> or_mark_failed R (om_id om) (MessagingError_to_string e) w1
                | RetryAfter delay \<Rightarrow> or_schedule_retry R (om_id om) delay w1)
           in (lane\<lparr>ln_pc := LaneDone, ln_errors := ln_errors lane @ to_errors r @ [DispatchMessaging e]\<rparr>, w2)))"

text \<open>
  An execution of the lanes of a batch with concurrency \<open>n\<close>: any lane that is running, or that may
  be started because fewer than \<open>n\<close> are running, takes the next step.
\<close>

definition lane_running :: "OutboxMessage list \<Rightarrow> lane_state \<Rightarrow> bool" where
  "lane_running ms lane \<longleftrightarrow> ln_pc lane \<noteq> LaneDone \<and> lane \<noteq> lane_start ms"

definition may_step :: "nat \<Rightarrow> OutboxMessage list list \<Rightarrow> lane_state list \<Rightarrow> nat \<Rightarrow> bool" where
  "may_step n lanes lns i \<longleftrightarrow>
     i < length lns \<and> ln_pc (lns ! i) \<noteq> LaneDone
     \<and> (lane_running (lanes ! i) (lns ! i)
        \<or> length (filter (\<lambda>j. lane_running (lanes ! j) (lns ! j)) [0..<length lns]) < max n 1)"

inductive dispatch_steps ::
    "'w Env \<Rightarrow> 'w OutboxRepository \<Rightarrow> 'w MessagePublisher \<Rightarrow> DispatchConfig \<Rightarrow> OutboxMessage list list
     \<Rightarrow> lane_state list \<times> 'w \<Rightarrow> lane_state list \<times> 'w \<Rightarrow> bool"
  for E R P cfg lanes where
  steps_refl: "dispatch_steps E R P cfg lanes c c"
| steps_step:
    "dispatch_steps E R P cfg lanes c (lns, w) \<Longrightarrow> may_step (concurrency cfg) lanes lns i \<Longrightarrow>
     lane_step E R P cfg (lns ! i) w = (lane', w') \<Longrightarrow>
     dispatch_steps E R P cfg lanes c (lns[i := lane'], w')"

section \<open>The lanes of a batch\<close>

abbreviation om_key :: "OutboxMessage \<Rightarrow> string option" where
  "om_key m \<equiv> key (om_message m)"

definition with_key_of :: "string \<Rightarrow> OutboxMessage list \<Rightarrow> OutboxMessage list" where
  "with_key_of k ms = filter (\<lambda>m. om_key m = Some k) ms"

definition lanes_inv ::
    "OutboxMessage list \<Rightarrow> OutboxMessage list list \<Rightarrow> (string, nat) dashmap \<Rightarrow> bool" where
  "lanes_inv seen lanes by_key \<longleftrightarrow>
     mset (concat lanes) = mset seen
     \<and> (\<forall>k i. dm_get by_key k = Some i \<longrightarrow> i < length lanes \<and> lanes ! i = with_key_of k seen \<and> with_key_of k seen \<noteq> [])
     \<and> (\<forall>k. dm_get by_key k = None \<longrightarrow> with_key_of k seen = [])
     \<and> (\<forall>i < length lanes. (\<exists>k. dm_get by_key k = Some i) \<or> (\<exists>m. lanes ! i = [m] \<and> om_key m = None))"

lemma with_key_of_append [simp]:
  "with_key_of k (xs @ ys) = with_key_of k xs @ with_key_of k ys"
  by (simp add: with_key_of_def)

lemma with_key_of_single [simp]: "with_key_of k [m] = (if om_key m = Some k then [m] else [])"
  by (simp add: with_key_of_def)

lemma with_key_of_Nil [simp]: "with_key_of k [] = []"
  by (simp add: with_key_of_def)

lemma with_key_of_key: "m \<in> set (with_key_of k ms) \<Longrightarrow> om_key m = Some k"
  by (simp add: with_key_of_def)

lemma lanes_inv_new_lane:
  assumes "lanes_inv seen lanes by_key" and "om_key m = None"
  shows "lanes_inv (seen @ [m]) (lanes @ [[m]]) by_key"
  using assms unfolding lanes_inv_def by (auto simp: nth_append less_Suc_eq)

lemma lanes_inv_new_key:
  assumes "lanes_inv seen lanes by_key" and "om_key m = Some k" and "dm_get by_key k = None"
  shows "lanes_inv (seen @ [m]) (lanes @ [[m]]) (dm_insert k (length lanes) by_key)"
proof -
  note I = assms(1)[unfolded lanes_inv_def]
  have old: "\<exists>k'. dm_get (dm_insert k (length lanes) by_key) k' = Some i"
    if "dm_get by_key k' = Some i" for k' i
    using that assms(3) by (intro exI [of _ k']) auto
  show ?thesis
    unfolding lanes_inv_def
  proof (intro conjI)
    show "\<forall>i < length (lanes @ [[m]]). (\<exists>k'. dm_get (dm_insert k (length lanes) by_key) k' = Some i)
        \<or> (\<exists>m'. (lanes @ [[m]]) ! i = [m'] \<and> om_key m' = None)"
    proof (intro allI impI)
      fix i assume i: "i < length (lanes @ [[m]])"
      show "(\<exists>k'. dm_get (dm_insert k (length lanes) by_key) k' = Some i)
        \<or> (\<exists>m'. (lanes @ [[m]]) ! i = [m'] \<and> om_key m' = None)"
      proof (cases "i = length lanes")
        case False
        then have "i < length lanes" using i by simp
        then show ?thesis using I old by (metis nth_append)
      qed auto
    qed
  qed (use I assms(2,3) in \<open>auto simp: nth_append less_Suc_eq\<close>)
qed

lemma mset_concat_update:
  "i < length xss \<Longrightarrow> mset (concat (xss[i := xss ! i @ ys])) = mset (concat xss) + mset ys"
proof (induction xss arbitrary: i)
  case (Cons xs xss)
  then show ?case by (cases i) auto
qed simp

lemma lanes_inv_old_key:
  assumes "lanes_inv seen lanes by_key" and "om_key m = Some k" and "dm_get by_key k = Some i"
  shows "lanes_inv (seen @ [m]) (lanes[i := lanes ! i @ [m]]) by_key"
proof -
  note I = assms(1)[unfolded lanes_inv_def]
  have i: "i < length lanes" "lanes ! i = with_key_of k seen" using I assms(3) by auto
  have inj: "k' = k" if "dm_get by_key k' = Some i" for k'
    using I that assms(3) with_key_of_key [of "hd (lanes ! i)"] by (metis hd_in_set option.inject)
  have at: "i' < length lanes \<and> (lanes[i := lanes ! i @ [m]]) ! i' = with_key_of k' (seen @ [m])
      \<and> with_key_of k' (seen @ [m]) \<noteq> []"
    if "dm_get by_key k' = Some i'" for k' i'
  proof (cases "i' = i")
    case True
    then show ?thesis using that inj assms(2) i by auto
  next
    case False
    then have "k' \<noteq> k" using that assms(3) by auto
    then show ?thesis using False I that assms(2) by auto
  qed
  have rest: "(\<exists>k'. dm_get by_key k' = Some i')
      \<or> (\<exists>m'. (lanes[i := lanes ! i @ [m]]) ! i' = [m'] \<and> om_key m' = None)"
    if "i' < length lanes" for i'
    using I that assms(3) by (cases "i' = i") auto
  show ?thesis
    unfolding lanes_inv_def
    using at rest I assms(2,3) mset_concat_update [OF i(1), of "[m]"] by auto
qed

lemma lanes_loop_inv:
  "lanes_inv seen lanes by_key \<Longrightarrow> \<exists>by_key'. lanes_inv (seen @ ms) (lanes_loop ms lanes by_key) by_key'"
proof (induction ms arbitrary: seen lanes by_key)
  case (Cons m ms)
  show ?case
  proof (cases "om_key m")
    case None
    then show ?thesis using Cons.IH [OF lanes_inv_new_lane [OF Cons.prems None]] by simp
  next
    case (Some k)
    show ?thesis
    proof (cases "dm_get by_key k")
      case None
      then show ?thesis using Cons.IH [OF lanes_inv_new_key [OF Cons.prems Some None]] Some by simp
    next
      case (Some i)
      then show ?thesis
        using Cons.IH [OF lanes_inv_old_key [OF Cons.prems \<open>om_key m = Some k\<close> Some]] \<open>om_key m = Some k\<close>
        by simp
    qed
  qed
qed auto

lemma partition_lanes_inv: "\<exists>by_key. lanes_inv ms (partition_lanes ms) by_key"
  unfolding partition_lanes_def using lanes_loop_inv [of "[]" "[]" "[]" ms] by (simp add: lanes_inv_def)

lemma lanes_inv_lane_of:
  assumes I: "lanes_inv ms lanes by_key" and "i < length lanes" "m \<in> set (lanes ! i)" "om_key m = Some k"
  shows "dm_get by_key k = Some i"
proof -
  from I assms(2) consider (keyed) k' where "dm_get by_key k' = Some i"
    | (single) m' where "lanes ! i = [m']" "om_key m' = None"
    unfolding lanes_inv_def by blast
  then show ?thesis
  proof cases
    case keyed
    then have "lanes ! i = with_key_of k' ms" using I unfolding lanes_inv_def by blast
    then have "om_key m = Some k'" using assms(3) with_key_of_key by simp
    then show ?thesis using keyed assms(4) by simp
  qed (use assms in simp)
qed

text \<open>
  The lanes of a batch are a partition of it by routing key: no message is lost or duplicated,
  each lane is either a single message without a key or all the messages of one key in claim
  order, and no key occurs in two lanes.
\<close>

theorem partition_lanes_by_key:
  "mset (concat (partition_lanes ms)) = mset ms
   \<and> (\<forall>i < length (partition_lanes ms).
        (\<exists>k. partition_lanes ms ! i = with_key_of k ms \<and> with_key_of k ms \<noteq> [])
        \<or> (\<exists>m. partition_lanes ms ! i = [m] \<and> om_key m = None))
   \<and> (\<forall>i < length (partition_lanes ms). \<forall>j < length (partition_lanes ms).
        \<forall>m m' k. m \<in> set (partition_lanes ms ! i) \<and> m' \<in> set (partition_lanes ms ! j)
          \<and> om_key m = Some k \<and> om_key m' = Some k \<longrightarrow> i = j)"
proof -
  obtain by_key where I: "lanes_inv ms (partition_lanes ms) by_key" using partition_lanes_inv by blast
  note lane_of = lanes_inv_lane_of [OF I]
  show ?thesis
  proof (intro conjI)
    show "\<forall>i < length (partition_lanes ms). \<forall>j < length (partition_lanes ms).
        \<forall>m m' k. m \<in> set (partition_lanes ms ! i) \<and> m' \<in> set (partition_lanes ms ! j)
          \<and> om_key m = Some k \<and> om_key m' = Some k \<longrightarrow> i = j"
      by (intro allI impI, elim conjE) (drule (2) lane_of, drule (2) lane_of, simp)
  qed (use I in \<open>unfold lanes_inv_def, metis+\<close>)
qed

definition sample_row :: "uuid \<Rightarrow> string option \<Rightarrow> OutboxMessage" where
  "sample_row i k = OutboxMessage_new 0 i ((Message_new i ''orders'' [] ''json'')\<lparr>key := k\<rparr>)"

theorem partition_lanes_by_key_witness:
  "partition_lanes [sample_row 1 (Some ''a''), sample_row 2 None, sample_row 3 (Some ''a'')] =
     [[sample_row 1 (Some ''a''), sample_row 3 (Some ''a'')], [sample_row 2 None]]
   \<and> mset (concat (partition_lanes [sample_row 1 (Some ''a''), sample_row 2 None, sample_row 3 (Some ''a'')]))
     = {# sample_row 1 (Some ''a''), sample_row 2 None, sample_row 3 (Some ''a'') #}"
proof
  show "partition_lanes [sample_row 1 (Some ''a''), sample_row 2 None, sample_row 3 (Some ''a'')] =
     [[sample_row 1 (Some ''a''), sample_row 3 (Some ''a'')], [sample_row 2 None]]"
    by (simp add: partition_lanes_def sample_row_def OutboxMessage_new_def)
qed (use partition_lanes_by_key [THEN conjunct1] in simp)

section \<open>What one attempt does\<close>

text \<open>
  The record after an attempt: the message is the same, the attempt is counted (unless counting it
  failed, in which case nothing was sent), and the status says what happened.
\<close>

definition attempted :: "DispatchConfig \<Rightarrow> OutboxMessage \<Rightarrow> nat \<times> OutboxDispatchError list \<times> bool \<Rightarrow> OutboxMessage \<Rightarrow> bool" where
  "attempted cfg om out y \<longleftrightarrow> (case out of (p, errs, delivered) \<Rightarrow>
     om_id y = om_id om \<and> om_message y = om_message om \<and> om_created_at y = om_created_at om
     \<and> (om_attempts y = om_attempts om + 1 \<or> y = om \<and> \<not> delivered)
     \<and> (om_status y = Published \<longleftrightarrow> p = 1)
     \<and> (om_status y = Pending \<or> om_status y = Published \<or> om_status y = Failed)
     \<and> (if p = 1 then delivered \<and> errs = [] else p = 0 \<and> errs \<noteq> [])
     \<and> (om_status y = Failed \<longrightarrow> \<not> delivered \<and> (\<exists>e. DispatchMessaging e \<in> set errs
           \<and> (failure_kind e = Poison \<or> max_attempts (retry cfg) \<le> om_attempts y)))
     \<and> (\<forall>e. DispatchMessaging e \<in> set errs \<and> failure_kind e = Transient
           \<and> om_attempts om + 1 < max_attempts (retry cfg) \<longrightarrow> om_status y = Pending))"

locale dispatch_context = outbox_repository R rows inv
  for R :: "'w OutboxRepository" and rows :: "'w \<Rightarrow> uuid \<rightharpoonup> OutboxMessage" and inv :: "'w \<Rightarrow> bool" +
  fixes E :: "'w Env"
    and P :: "'w MessagePublisher"
    and sent :: "'w \<Rightarrow> Message list"
  assumes publish_law: "inv w \<Longrightarrow> publish P m w = (rp, w') \<Longrightarrow>
      inv w' \<and> rows w' = rows w \<and> sent w' = (if is_ok rp then sent w @ [m] else sent w)"
    and random_frame: "inv w \<Longrightarrow> random_f64 E w = (u, w') \<Longrightarrow> inv w' \<and> rows w' = rows w \<and> sent w' = sent w"
    and record_sent: "inv w \<Longrightarrow> or_record_attempt R i w = (r, w') \<Longrightarrow> sent w' = sent w"
    and retry_sent: "inv w \<Longrightarrow> or_schedule_retry R i d w = (r, w') \<Longrightarrow> sent w' = sent w"
    and published_sent: "inv w \<Longrightarrow> or_mark_published R i w = (r, w') \<Longrightarrow> sent w' = sent w"
    and failed_sent: "inv w \<Longrightarrow> or_mark_failed R i err w = (r, w') \<Longrightarrow> sent w' = sent w"
    and pending_sent: "inv w \<Longrightarrow> or_pending R n w = (rs, w') \<Longrightarrow> sent w' = sent w"
begin

lemma settle_failure:
  assumes "inv w" and "rows w (om_id om) = Some x"
    and "(case decide_for (retry cfg) u n k of
            DeadLetter \<Rightarrow> or_mark_failed R (om_id om) err w
          | RetryAfter delay \<Rightarrow> or_schedule_retry R (om_id om) delay w) = (r, w')"
  shows "inv w' \<and> sent w' = sent w \<and> (\<exists>y. rows w' = (rows w)(om_id om \<mapsto> y)
     \<and> om_id y = om_id x \<and> om_message y = om_message x \<and> om_created_at y = om_created_at x
     \<and> om_attempts y = om_attempts x
     \<and> (om_status y = om_status x \<or> om_status y = Failed \<and> (k = Poison \<or> max_attempts (retry cfg) \<le> n)))"
proof (cases "decide_for (retry cfg) u n k")
  case DeadLetter
  then have e: "or_mark_failed R (om_id om) err w = (r, w')" using assms(3) by simp
  have "k = Poison \<or> max_attempts (retry cfg) \<le> n" using DeadLetter by (simp add: decide_for_DeadLetter_iff)
  moreover obtain y where "rows w' = (rows w)(om_id om \<mapsto> y)" "y = x \<or> (\<exists>now. y = om_mark_failed now err x)"
    using row_update_cases [OF conjunct2 [OF failed_law [OF assms(1) e]] assms(2)] by blast
  ultimately show ?thesis
    using failed_law [OF assms(1) e] failed_sent [OF assms(1) e]
    by (intro conjI exI [of _ y]) (auto simp: om_mark_failed_def)
next
  case (RetryAfter d)
  then have e: "or_schedule_retry R (om_id om) d w = (r, w')" using assms(3) by simp
  obtain y where "rows w' = (rows w)(om_id om \<mapsto> y)" "y = x \<or> rel_retry x y"
    using row_update_cases [OF conjunct2 [OF retry_law [OF assms(1) e]] assms(2)] by blast
  then show ?thesis
    using retry_law [OF assms(1) e] retry_sent [OF assms(1) e]
    by (intro conjI exI [of _ y]) (auto simp: rel_retry_def)
qed

lemma dispatch_one_spec:
  assumes "inv w" and "rows w (om_id om) = Some om" and "om_status om = Pending"
    and "dispatch_one E R P cfg om w = ((p, errs, delivered), w')"
  shows "inv w' \<and> sent w' = sent w @ (if delivered then [om_message om] else [])
    \<and> (\<exists>y. rows w' = (rows w)(om_id om \<mapsto> y) \<and> attempted cfg om (p, errs, delivered) y)"
proof -
  obtain r1 w1 where e1: "or_record_attempt R (om_id om) w = (r1, w1)" by fastforce
  note f1 = record_law [OF assms(1) e1] record_sent [OF assms(1) e1]
  show ?thesis
  proof (cases r1)
    case (Inl e)
    then have "rows w1 = rows w" using f1 by (simp add: row_update_def)
    then show ?thesis
      using assms Inl f1 e1 fun_upd_triv [of "rows w" "om_id om"]
      by (auto simp: dispatch_one_def attempted_def intro!: exI [of _ om])
  next
    case r1: (Inr _)
    then obtain t where rows1: "rows w1 = (rows w)(om_id om \<mapsto> om_record_attempt t om)"
      using f1 assms(2) by (auto simp: row_update_def)
    obtain r2 w2 where e2: "publish P (om_message om) w1 = (r2, w2)" by fastforce
    note f2 = publish_law [OF conjunct1 [OF f1(1)] e2]
    show ?thesis
    proof (cases r2)
      case r2: (Inr _)
      obtain r3 w3 where e3: "or_mark_published R (om_id om) w2 = (r3, w3)" by fastforce
      note f3 = published_law [OF conjunct1 [OF f2] e3] published_sent [OF conjunct1 [OF f2] e3]
      show ?thesis
        using assms(2-4) r1 r2 e1 e2 e3 f1 f2 f3 rows1
        by (cases r3) (auto simp: dispatch_one_def attempted_def row_update_def om_mark_published_def om_record_attempt_def)
    next
      case r2: (Inl e)
      obtain u w3 where e3: "random_f64 E w2 = (u, w3)" by fastforce
      note f3 = random_frame [OF conjunct1 [OF f2] e3]
      obtain r4 w4 where e4: "(case decide_for (retry cfg) u (om_attempts om + 1) (failure_kind e) of
            DeadLetter \<Rightarrow> or_mark_failed R (om_id om) (MessagingError_to_string e) w3
          | RetryAfter delay \<Rightarrow> or_schedule_retry R (om_id om) delay w3) = (r4, w4)" by fastforce
      have row3: "rows w3 (om_id om) = Some (om_record_attempt t om)" using f2 f3 rows1 by simp
      have out: "p = 0" "errs = to_errors r4 @ [DispatchMessaging e]" "\<not> delivered" "w' = w4"
        using assms(4) r1 r2 e1 e2 e3 e4 by (auto simp: dispatch_one_def Let_def)
      show ?thesis
        using settle_failure [OF conjunct1 [OF f3] row3 e4] out f1 f2 f3 rows1 r2 assms(3)
        by (auto simp: attempted_def om_record_attempt_def to_errors_def split: sum.splits)
    qed
  qed
qed

end

section \<open>The sequential run is one of the schedules\<close>

lemma lane_start_simps [simp]:
  "ln_pc (lane_start ms) = (if ms = [] then LaneDone else AtRecord)" "ln_rest (lane_start ms) = ms"
  "ln_published (lane_start ms) = 0" "ln_errors (lane_start ms) = []"
  by (simp_all add: lane_start_def)

lemma may_step_alone:
  assumes "i < length lns" and "ln_pc (lns ! i) \<noteq> LaneDone"
    and "\<forall>j < length lns. j \<noteq> i \<longrightarrow> \<not> lane_running (lanes ! j) (lns ! j)"
  shows "may_step n lanes lns i"
proof (cases "lane_running (lanes ! i) (lns ! i)")
  case False
  then have "filter (\<lambda>j. lane_running (lanes ! j) (lns ! j)) [0..<length lns] = []"
    using assms(3) by (auto simp: filter_empty_conv)
  then show ?thesis using assms by (simp add: may_step_def less_max_iff_disj)
qed (use assms in \<open>simp add: may_step_def\<close>)

lemma steps_step_alone:
  assumes "dispatch_steps E R P cfg lanes c (lns, w)" and "i < length lns" and "ln_pc (lns ! i) \<noteq> LaneDone"
    and "\<forall>j < length lns. j \<noteq> i \<longrightarrow> \<not> lane_running (lanes ! j) (lns ! j)"
  shows "dispatch_steps E R P cfg lanes c
    (lns[i := fst (lane_step E R P cfg (lns ! i) w)], snd (lane_step E R P cfg (lns ! i) w))"
  using steps_step [OF assms(1) may_step_alone [OF assms(2-4)]] by simp

text \<open>The lane states in which lane \<open>i\<close> has the state \<open>l\<close> and no other lane runs.\<close>

definition alone :: "OutboxMessage list list \<Rightarrow> lane_state list \<Rightarrow> nat \<Rightarrow> lane_state \<Rightarrow> bool" where
  "alone lanes lns i l \<longleftrightarrow> i < length lns \<and> lns ! i = l
     \<and> (\<forall>j < length lns. j \<noteq> i \<longrightarrow> \<not> lane_running (lanes ! j) (lns ! j))"

lemma alone_update: "alone lanes lns i l \<Longrightarrow> alone lanes (lns[i := l']) i l'"
  by (simp add: alone_def)

lemma steps_alone:
  assumes "dispatch_steps E R P cfg lanes c (lns, w)" and "alone lanes lns i l" and "ln_pc l \<noteq> LaneDone"
    and "lane_step E R P cfg l w = (l', w')"
  shows "dispatch_steps E R P cfg lanes c (lns[i := l'], w') \<and> alone lanes (lns[i := l']) i l'"
  using steps_step_alone [OF assms(1), of i] assms(2-4) alone_update [OF assms(2)] by (simp add: alone_def)

lemma one_message_steps:
  assumes "dispatch_steps E R P cfg lanes c (lns, w)" and "alone lanes lns i l"
    and "ln_pc l = AtRecord" and "ln_rest l = m # ms"
    and "dispatch_one E R P cfg m w = ((p, e, delivered), w')"
  shows "\<exists>l'. dispatch_steps E R P cfg lanes c (lns[i := l'], w') \<and> ln_rest l' = ms
    \<and> ln_pc l' = (if delivered \<and> ms \<noteq> [] then AtRecord else LaneDone)
    \<and> ln_published l' = ln_published l + p \<and> ln_errors l' = ln_errors l @ e"
proof -
  obtain r1 w1 where e1: "or_record_attempt R (om_id m) w = (r1, w1)" by fastforce
  have lst: "lns[i := x, i := y] = lns[i := y]" for x y :: lane_state by simp
  show ?thesis
  proof (cases r1)
    case (Inl err)
    then show ?thesis
      using steps_alone [OF assms(1,2)] assms(3-5) e1
      by (auto simp: lane_step_def dispatch_one_def)
  next
    case r1: (Inr _)
    let ?l1 = "l\<lparr>ln_pc := AtPublish m, ln_rest := ms\<rparr>"
    have s1: "lane_step E R P cfg l w = (?l1, w1)" using assms(3,4) e1 r1 by (simp add: lane_step_def)
    note a1 = steps_alone [OF assms(1,2) _ s1, unfolded assms(3), simplified]
    obtain r2 w2 where e2: "publish P (om_message m) w1 = (r2, w2)" by fastforce
    show ?thesis
    proof (cases r2)
      case r2: (Inr _)
      let ?l2 = "l\<lparr>ln_pc := AtMarkPublished m, ln_rest := ms\<rparr>"
      have s2: "lane_step E R P cfg ?l1 w1 = (?l2, w2)" using e2 r2 by (simp add: lane_step_def)
      note a2 = steps_alone [OF conjunct1 [OF a1] conjunct2 [OF a1] _ s2, simplified lst, simplified]
      obtain r3 w3 where e3: "or_mark_published R (om_id m) w2 = (r3, w3)" by fastforce
      show ?thesis
        using steps_alone [OF conjunct1 [OF a2] conjunct2 [OF a2]] assms(5) e1 e2 e3 r1 r2
        by (cases r3) (auto simp: lane_step_def lane_continue_def dispatch_one_def)
    next
      case r2: (Inl err)
      let ?l2 = "l\<lparr>ln_pc := AtSettleFailure m err, ln_rest := ms\<rparr>"
      have s2: "lane_step E R P cfg ?l1 w1 = (?l2, w2)" using e2 r2 by (simp add: lane_step_def)
      note a2 = steps_alone [OF conjunct1 [OF a1] conjunct2 [OF a1] _ s2, simplified lst, simplified]
      show ?thesis
        using steps_alone [OF conjunct1 [OF a2] conjunct2 [OF a2]] assms(5) e1 e2 r1 r2
        by (auto simp: lane_step_def dispatch_one_def Let_def split: prod.splits)
    qed
  qed
qed

lemma lane_steps:
  assumes "dispatch_steps E R P cfg lanes c (lns, w)" and "alone lanes lns i l"
    and "ln_pc l = (if ms = [] then LaneDone else AtRecord)" and "ln_rest l = ms"
    and "run_lane E R P cfg ms w = ((p, e), w')"
  shows "\<exists>l'. dispatch_steps E R P cfg lanes c (lns[i := l'], w') \<and> ln_pc l' = LaneDone
    \<and> ln_published l' = ln_published l + p \<and> ln_errors l' = ln_errors l @ e"
  using assms
proof (induction ms arbitrary: lns w l p e w')
  case Nil
  then have "lns[i := l] = lns" by (auto simp: alone_def)
  then show ?case using Nil by (intro exI [of _ l]) auto
next
  case (Cons m ms)
  obtain p1 e1 d w1 where one: "dispatch_one E R P cfg m w = ((p1, e1, d), w1)" by (metis prod.exhaust)
  obtain l1 where l1: "dispatch_steps E R P cfg lanes c (lns[i := l1], w1)" "ln_rest l1 = ms"
    "ln_pc l1 = (if d \<and> ms \<noteq> [] then AtRecord else LaneDone)"
    "ln_published l1 = ln_published l + p1" "ln_errors l1 = ln_errors l @ e1"
    using one_message_steps [OF Cons.prems(1,2) _ Cons.prems(4) one] Cons.prems(3) by auto
  show ?case
  proof (cases d)
    case False
    then show ?thesis using l1 Cons.prems(5) one by (intro exI [of _ l1]) auto
  next
    case True
    obtain p2 e2 w2 where rest: "run_lane E R P cfg ms w1 = ((p2, e2), w2)" by (metis prod.exhaust)
    have "ln_pc l1 = (if ms = [] then LaneDone else AtRecord)" using l1(3) True by simp
    from Cons.IH [OF l1(1) alone_update [OF Cons.prems(2)] this l1(2) rest]
    show ?thesis using l1 Cons.prems(5) one rest True by auto
  qed
qed

lemma run_lanes_steps:
  assumes "lanes = pre @ post" and "length done = length pre" and "\<forall>l \<in> set done. ln_pc l = LaneDone"
    and "dispatch_steps E R P cfg lanes c (done @ map lane_start post, w)"
    and "run_lanes E R P cfg post w = (res, w')"
  shows "\<exists>done'. length done' = length post \<and> (\<forall>l \<in> set done'. ln_pc l = LaneDone)
    \<and> dispatch_steps E R P cfg lanes c (done @ done', w')
    \<and> published res = sum_list (map ln_published done') \<and> errors res = concat (map ln_errors done')"
  using assms
proof (induction post arbitrary: pre "done" w res w')
  case Nil
  then show ?case by (intro exI [of _ "[]"]) auto
next
  case (Cons lane post)
  obtain p e w1 where one: "run_lane E R P cfg lane w = ((p, e), w1)" by (metis prod.exhaust)
  obtain res2 w2 where rest: "run_lanes E R P cfg post w1 = (res2, w2)" by fastforce
  let ?lns = "done @ lane_start lane # map lane_start post"
  have "\<not> lane_running (lanes ! j) (?lns ! j)" if "j < length ?lns" "j \<noteq> length done" for j
  proof (cases "j < length done")
    case True
    then show ?thesis using Cons.prems(3) by (simp add: nth_append lane_running_def)
  next
    case False
    with that(2) obtain q where q: "j = Suc (length done + q)"
      by (metis less_iff_Suc_add linorder_neqE_nat)
    then have "q < length post" using that(1) by simp
    then show ?thesis using q using Cons.prems(1,2) by (simp add: nth_append lane_running_def)
  qed
  then have al: "alone lanes ?lns (length done) (lane_start lane)" by (simp add: alone_def)
  have st: "dispatch_steps E R P cfg lanes c (?lns, w)" using Cons.prems(4) by simp
  have upd: "?lns[length done := l'] = done @ l' # map lane_start post" for l' by simp
  obtain l' where l': "dispatch_steps E R P cfg lanes c (done @ l' # map lane_start post, w1)" "ln_pc l' = LaneDone"
      "ln_published l' = p" "ln_errors l' = e"
    using lane_steps [OF st al _ _ one, unfolded upd] by auto
  have "\<exists>done'. length done' = length post \<and> (\<forall>l \<in> set done'. ln_pc l = LaneDone)
    \<and> dispatch_steps E R P cfg lanes c ((done @ [l']) @ done', w2)
    \<and> published res2 = sum_list (map ln_published done') \<and> errors res2 = concat (map ln_errors done')"
    using Cons.prems(1-3) l' rest by (intro Cons.IH [of "pre @ [lane]" "done @ [l']" w1]) auto
  then obtain done' where "length done' = length post" "\<forall>l \<in> set done'. ln_pc l = LaneDone"
    "dispatch_steps E R P cfg lanes c ((done @ [l']) @ done', w2)"
    "published res2 = sum_list (map ln_published done')" "errors res2 = concat (map ln_errors done')" by blast
  then show ?case
    using l' Cons.prems(5) one rest by (intro exI [of _ "l' # done'"]) auto
qed

lemma run_is_schedule:
  assumes "run_lanes E R P cfg lanes w = (res, w')"
  shows "\<exists>lns. dispatch_steps E R P cfg lanes (map lane_start lanes, w) (lns, w')
    \<and> length lns = length lanes \<and> (\<forall>l \<in> set lns. ln_pc l = LaneDone)
    \<and> published res = sum_list (map ln_published lns) \<and> errors res = concat (map ln_errors lns)"
proof -
  have "dispatch_steps E R P cfg lanes (map lane_start lanes, w) ([] @ map lane_start lanes, w)"
    by (simp add: steps_refl)
  from run_lanes_steps [OF _ _ _ this assms, of "[]"] show ?thesis by auto
qed

section \<open>Per-key order under every schedule\<close>

text \<open>Where a lane stands when the first \<open>n\<close> of its messages have been delivered.\<close>

definition lane_at :: "OutboxMessage list \<Rightarrow> nat \<Rightarrow> lane_state \<Rightarrow> bool" where
  "lane_at ms n l \<longleftrightarrow> n \<le> length ms \<and> (case ln_pc l of
       AtRecord \<Rightarrow> ln_rest l = drop n ms
     | AtPublish om \<Rightarrow> drop n ms = om # ln_rest l
     | AtMarkPublished om \<Rightarrow> ln_rest l = drop n ms
     | AtSettleFailure om e \<Rightarrow> True
     | LaneDone \<Rightarrow> True)"

definition msgs_with_key :: "string \<Rightarrow> Message list \<Rightarrow> Message list" where
  "msgs_with_key k ms = filter (\<lambda>m. key m = Some k) ms"

definition lane_has :: "string \<Rightarrow> OutboxMessage list \<Rightarrow> bool" where
  "lane_has k ms \<longleftrightarrow> (\<exists>m \<in> set ms. om_key m = Some k)"

text \<open>The lanes separate the keys: a lane holds one key only, and no key is in two lanes.\<close>

definition lanes_separate :: "OutboxMessage list list \<Rightarrow> bool" where
  "lanes_separate lanes \<longleftrightarrow>
     (\<forall>i < length lanes. \<forall>k. lane_has k (lanes ! i) \<longrightarrow> (\<forall>m \<in> set (lanes ! i). om_key m = Some k))
     \<and> (\<forall>i < length lanes. \<forall>j < length lanes. \<forall>k. lane_has k (lanes ! i) \<and> lane_has k (lanes ! j) \<longrightarrow> i = j)"

definition delivered_in_order ::
    "OutboxMessage list list \<Rightarrow> nat list \<Rightarrow> Message list \<Rightarrow> bool" where
  "delivered_in_order lanes ns new \<longleftrightarrow> length ns = length lanes \<and>
     (\<forall>k. (\<forall>i < length lanes. lane_has k (lanes ! i) \<longrightarrow>
              msgs_with_key k new = map om_message (take (ns ! i) (lanes ! i)))
        \<and> ((\<forall>i < length lanes. \<not> lane_has k (lanes ! i)) \<longrightarrow> msgs_with_key k new = []))"

lemma msgs_with_key_append [simp]:
  "msgs_with_key k (xs @ ys) = msgs_with_key k xs @ msgs_with_key k ys"
  by (simp add: msgs_with_key_def)

lemma msgs_with_key_lane:
  "(\<forall>m \<in> set ms. om_key m = Some k) \<Longrightarrow> msgs_with_key k (map om_message ms) = map om_message ms"
  by (auto simp: msgs_with_key_def filter_id_conv)

lemma msgs_with_key_other: "\<not> lane_has k ms \<Longrightarrow> msgs_with_key k (map om_message ms) = []"
  by (auto simp: msgs_with_key_def lane_has_def filter_empty_conv)

lemma delivered_in_order_step:
  assumes "lanes_separate lanes" and "delivered_in_order lanes ns new" and "i < length lanes"
  shows "delivered_in_order lanes (ns[i := ns ! i + d])
    (new @ map om_message (take d (drop (ns ! i) (lanes ! i))))"
proof -
  let ?part = "take d (drop (ns ! i) (lanes ! i))"
  have len: "length ns = length lanes" using assms(2) by (simp add: delivered_in_order_def)
  have sub: "set ?part \<subseteq> set (lanes ! i)" by (meson in_set_dropD in_set_takeD subsetI)
  have same: "msgs_with_key k (map om_message ?part) = map om_message ?part" if "lane_has k (lanes ! i)" for k
    using that assms(1,3) sub by (intro msgs_with_key_lane) (auto simp: lanes_separate_def)
  have other: "msgs_with_key k (map om_message ?part) = []" if "\<not> lane_has k (lanes ! i)" for k
    using that sub by (intro msgs_with_key_other) (auto simp: lane_has_def)
  have "msgs_with_key k (new @ map om_message ?part) = map om_message (take (ns[i := ns ! i + d] ! j) (lanes ! j))"
    if "j < length lanes" "lane_has k (lanes ! j)" for k j
  proof (cases "j = i")
    case True
    then show ?thesis using that same assms(2) len by (simp add: delivered_in_order_def take_add)
  next
    case False
    then have "\<not> lane_has k (lanes ! i)" using that assms(1,3) unfolding lanes_separate_def by blast
    then show ?thesis using that False other assms(2) by (simp add: delivered_in_order_def)
  qed
  moreover have "msgs_with_key k (new @ map om_message ?part) = []"
    if "\<forall>j < length lanes. \<not> lane_has k (lanes ! j)" for k
    using that other assms(2,3) by (simp add: delivered_in_order_def)
  ultimately show ?thesis by (simp add: delivered_in_order_def len)
qed

lemma partition_lanes_separate: "lanes_separate (partition_lanes ms)"
proof -
  obtain by_key where I: "lanes_inv ms (partition_lanes ms) by_key" using partition_lanes_inv by blast
  note lane_of = lanes_inv_lane_of [OF I]
  have "om_key m' = Some k" if "i < length (partition_lanes ms)" "m \<in> set (partition_lanes ms ! i)"
    "om_key m = Some k" "m' \<in> set (partition_lanes ms ! i)" for i m m' k
    using lane_of [OF that(1-3)] I that(4) with_key_of_key unfolding lanes_inv_def by metis
  moreover have "i = j" if "i < length (partition_lanes ms)" "j < length (partition_lanes ms)"
    "lane_has k (partition_lanes ms ! i)" "lane_has k (partition_lanes ms ! j)" for i j k
    using that lane_of unfolding lane_has_def by (metis option.inject)
  ultimately show ?thesis unfolding lanes_separate_def lane_has_def by blast
qed

lemma partition_lanes_lane:
  assumes "lane_has k (partition_lanes ms ! i)" and "i < length (partition_lanes ms)"
  shows "partition_lanes ms ! i = with_key_of k ms"
proof -
  obtain by_key where I: "lanes_inv ms (partition_lanes ms) by_key" using partition_lanes_inv by blast
  then have "dm_get by_key k = Some i" using lanes_inv_lane_of assms by (auto simp: lane_has_def)
  then show ?thesis using I by (simp add: lanes_inv_def)
qed

lemma partition_lanes_mset: "mset (concat (partition_lanes ms)) = mset ms"
  using partition_lanes_inv [of ms] by (auto simp: lanes_inv_def)

lemma partition_lanes_order:
  assumes "delivered_in_order (partition_lanes ms) ns new"
  shows "prefix (msgs_with_key k new) (map om_message (with_key_of k ms))"
proof (cases "\<exists>i < length (partition_lanes ms). lane_has k (partition_lanes ms ! i)")
  case True
  then obtain i where "i < length (partition_lanes ms)" "lane_has k (partition_lanes ms ! i)" by blast
  then have "msgs_with_key k new = map om_message (take (ns ! i) (with_key_of k ms))"
    using assms partition_lanes_lane by (auto simp: delivered_in_order_def)
  then show ?thesis by (simp add: map_mono_prefix take_is_prefix)
next
  case False
  then have "msgs_with_key k new = []" using assms by (auto simp: delivered_in_order_def)
  then show ?thesis by simp
qed

context dispatch_context
begin

lemma settle_frame:
  assumes "inv w" and "(case decision of
      DeadLetter \<Rightarrow> or_mark_failed R i err w
    | RetryAfter delay \<Rightarrow> or_schedule_retry R i delay w) = (r, w')"
  shows "inv w' \<and> sent w' = sent w"
proof (cases decision)
  case (RetryAfter d)
  with assms(2) have e: "or_schedule_retry R i d w = (r, w')" by simp
  show ?thesis using retry_law [OF assms(1) e] retry_sent [OF assms(1) e] by simp
next
  case DeadLetter
  with assms(2) have e: "or_mark_failed R i err w = (r, w')" by simp
  show ?thesis using failed_law [OF assms(1) e] failed_sent [OF assms(1) e] by simp
qed

lemma lane_step_delivers:
  assumes "inv w" and "lane_at ms n l" and "lane_step E R P cfg l w = (l', w')"
  shows "inv w' \<and> (\<exists>d. sent w' = sent w @ map om_message (take d (drop n ms)) \<and> lane_at ms (n + d) l')"
proof (cases "ln_pc l")
  case AtRecord
  show ?thesis
  proof (cases "ln_rest l")
    case Nil
    then show ?thesis using assms AtRecord
      by (auto simp: lane_step_def lane_at_def intro!: exI [of _ 0])
  next
    case (Cons om rest)
    obtain r w1 where e: "or_record_attempt R (om_id om) w = (r, w1)" by fastforce
    have at: "drop n ms = om # rest" "n \<le> length ms"
      using assms(2) AtRecord Cons by (auto simp: lane_at_def)
    show ?thesis
      using assms(3) AtRecord Cons e record_law [OF assms(1) e] record_sent [OF assms(1) e]
      by (cases r) (auto simp: lane_step_def lane_at_def at intro!: exI [of _ 0])
  qed
next
  case (AtPublish om)
  obtain r w1 where e: "publish P (om_message om) w = (r, w1)" by fastforce
  have at: "drop n ms = om # ln_rest l" "n < length ms"
    using assms(2) AtPublish by (auto simp: lane_at_def) (metis drop_all linorder_not_le list.distinct(1))
  have after: "drop (Suc n) ms = ln_rest l" using at(1) by (metis drop_Suc list.sel(3) tl_drop)
  show ?thesis
  proof (cases r)
    case (Inl x)
    then show ?thesis using assms AtPublish e publish_law [OF assms(1) e]
      by (auto simp: lane_step_def lane_at_def intro!: exI [of _ 0])
  next
    case (Inr x)
    then show ?thesis using assms AtPublish e publish_law [OF assms(1) e] at after
      by (auto simp: lane_step_def lane_at_def intro!: exI [of _ 1])
  qed
next
  case (AtMarkPublished om)
  obtain r w1 where e: "or_mark_published R (om_id om) w = (r, w1)" by fastforce
  then show ?thesis
    using assms AtMarkPublished published_law [OF assms(1) e] published_sent [OF assms(1) e]
    by (cases r) (auto simp: lane_step_def lane_at_def lane_continue_def intro!: exI [of _ 0])
next
  case (AtSettleFailure om err)
  obtain u w1 where e1: "random_f64 E w = (u, w1)" by fastforce
  note f1 = random_frame [OF assms(1) e1]
  obtain r w2 where e2: "(case decide_for (retry cfg) u (om_attempts om + 1) (failure_kind err) of
      DeadLetter \<Rightarrow> or_mark_failed R (om_id om) (MessagingError_to_string err) w1
    | RetryAfter delay \<Rightarrow> or_schedule_retry R (om_id om) delay w1) = (r, w2)" by fastforce
  have "inv w2 \<and> sent w2 = sent w1" by (rule settle_frame [OF conjunct1 [OF f1] e2])
  then show ?thesis
    using assms AtSettleFailure e1 e2 f1
    by (auto simp: lane_step_def lane_at_def intro!: exI [of _ 0])
next
  case LaneDone
  then show ?thesis using assms by (auto simp: lane_step_def intro!: exI [of _ 0])
qed

lemma steps_deliver_in_order:
  assumes "dispatch_steps E R P cfg lanes (map lane_start lanes, w0) (lns, w)"
    and "inv w0" and "lanes_separate lanes"
  shows "inv w \<and> length lns = length lanes \<and> (\<exists>ns new. sent w = sent w0 @ new
    \<and> delivered_in_order lanes ns new \<and> (\<forall>i < length lanes. lane_at (lanes ! i) (ns ! i) (lns ! i)))"
  using assms(1)
proof (induction "(map lane_start lanes, w0)" "(lns, w)" arbitrary: lns w rule: dispatch_steps.induct)
  case steps_refl
  have "delivered_in_order lanes (replicate (length lanes) 0) []"
    by (auto simp: delivered_in_order_def msgs_with_key_def)
  moreover have "lane_at (lanes ! i) 0 (lane_start (lanes ! i))" for i by (simp add: lane_at_def)
  ultimately show ?case
    using assms(2) by (intro conjI exI [of _ "replicate (length lanes) 0"] exI [of _ "[]"]) auto
next
  case (steps_step lns w i l' w')
  then obtain ns new where I: "inv w" "length lns = length lanes" "sent w = sent w0 @ new"
    "delivered_in_order lanes ns new" "\<forall>i < length lanes. lane_at (lanes ! i) (ns ! i) (lns ! i)"
    by auto
  have i: "i < length lanes" using steps_step I(2) by (simp add: may_step_def)
  obtain d where d: "inv w'" "sent w' = sent w @ map om_message (take d (drop (ns ! i) (lanes ! i)))"
      "lane_at (lanes ! i) (ns ! i + d) l'"
    using lane_step_delivers [OF I(1)] I(5) i steps_step by blast
  have "length ns = length lanes" using I(4) by (simp add: delivered_in_order_def)
  then show ?case
    using I d i delivered_in_order_step [OF assms(3) I(4) i, of d]
    by (intro conjI exI [of _ "ns[i := ns ! i + d]"] exI) (auto simp: nth_list_update)
qed

text \<open>
  Whatever the concurrency and the schedule, the messages of one key reach the publisher in the
  order in which they were claimed, without gaps.
\<close>

lemma schedule_keeps_key_order:
  assumes "dispatch_steps E R P cfg (partition_lanes claimed) (map lane_start (partition_lanes claimed), w0) (lns, w)"
    and "inv w0"
  shows "\<exists>new. sent w = sent w0 @ new
    \<and> (\<forall>k. prefix (msgs_with_key k new) (map om_message (with_key_of k claimed)))"
  using steps_deliver_in_order [OF assms partition_lanes_separate] partition_lanes_order by blast

end

section \<open>Accounting of a run\<close>

definition row_published :: "(uuid \<rightharpoonup> OutboxMessage) \<Rightarrow> OutboxMessage \<Rightarrow> bool" where
  "row_published rows m \<longleftrightarrow> (\<exists>y. rows (om_id m) = Some y \<and> om_status y = Published)"

text \<open>The records of \<open>ms\<close> are as claimed, or as one attempt leaves them; no other record changed.\<close>

definition rows_attempted ::
    "DispatchConfig \<Rightarrow> OutboxMessage list \<Rightarrow> (uuid \<rightharpoonup> OutboxMessage) \<Rightarrow> (uuid \<rightharpoonup> OutboxMessage) \<Rightarrow> bool" where
  "rows_attempted cfg ms rows rows' \<longleftrightarrow>
     (\<forall>m \<in> set ms. \<exists>y. rows' (om_id m) = Some y \<and> (y = m \<or> (\<exists>out. attempted cfg m out y)))
     \<and> (\<forall>i. i \<notin> om_id ` set ms \<longrightarrow> rows' i = rows i)"

definition claimed_rows :: "OutboxMessage list \<Rightarrow> (uuid \<rightharpoonup> OutboxMessage) \<Rightarrow> bool" where
  "claimed_rows ms rows \<longleftrightarrow> distinct (map om_id ms)
     \<and> (\<forall>m \<in> set ms. rows (om_id m) = Some m \<and> om_status m = Pending)"

lemma claimed_rows_append:
  "claimed_rows (xs @ ys) rows \<longleftrightarrow>
     claimed_rows xs rows \<and> claimed_rows ys rows \<and> om_id ` set xs \<inter> om_id ` set ys = {}"
  by (auto simp: claimed_rows_def)

lemma claimed_rows_frame:
  "claimed_rows ms rows \<Longrightarrow> (\<forall>i \<in> om_id ` set ms. rows' i = rows i) \<Longrightarrow> claimed_rows ms rows'"
  by (simp add: claimed_rows_def)

lemma rows_attempted_idle: "claimed_rows ms rows \<Longrightarrow> rows_attempted cfg ms rows rows"
  by (auto simp: rows_attempted_def claimed_rows_def)

lemma rows_attempted_frame:
  assumes "rows_attempted cfg ys rows1 rows2" and "om_id ` set ys \<inter> A = {}" and "i \<in> A"
  shows "rows2 i = rows1 i"
proof -
  have "i \<notin> om_id ` set ys" using assms(2,3) by blast
  then show ?thesis using assms(1) by (simp add: rows_attempted_def)
qed

lemma rows_attempted_join:
  assumes "rows_attempted cfg xs rows rows1" and "rows_attempted cfg ys rows1 rows2"
    and "om_id ` set xs \<inter> om_id ` set ys = {}"
  shows "rows_attempted cfg (xs @ ys) rows rows2"
proof -
  have "rows2 (om_id m) = rows1 (om_id m)" if "m \<in> set xs" for m
    using that assms(3) by (intro rows_attempted_frame [OF assms(2), of "om_id ` set xs"]) auto
  then show ?thesis using assms(1,2) by (auto simp: rows_attempted_def image_Un)
qed

lemma row_published_frame:
  assumes "rows_attempted cfg ys rows1 rows2" and "om_id ` set xs \<inter> om_id ` set ys = {}"
  shows "filter (row_published rows2) xs = filter (row_published rows1) xs"
proof (rule filter_cong [OF refl])
  fix m assume "m \<in> set xs"
  then have "om_id m \<notin> om_id ` set ys" using assms(2) by auto
  then have "rows2 (om_id m) = rows1 (om_id m)" using assms(1) by (simp add: rows_attempted_def)
  then show "row_published rows2 m = row_published rows1 m" by (simp add: row_published_def)
qed

lemma claimed_not_published: "claimed_rows ms rows \<Longrightarrow> filter (row_published rows) ms = []"
  by (auto simp: claimed_rows_def row_published_def filter_empty_conv)

context dispatch_context
begin

lemma dispatch_one_rows:
  assumes "inv w" and "claimed_rows [m] (rows w)" and "dispatch_one E R P cfg m w = ((p, e, d), w')"
  shows "inv w' \<and> rows_attempted cfg [m] (rows w) (rows w') \<and> p = length (filter (row_published (rows w')) [m])
    \<and> (\<not> d \<longrightarrow> e \<noteq> [])"
proof -
  obtain y where y: "inv w'" "rows w' = (rows w)(om_id m \<mapsto> y)" "attempted cfg m (p, e, d) y"
    using dispatch_one_spec [OF assms(1) _ _ assms(3)] assms(2) by (auto simp: claimed_rows_def)
  then show ?thesis
    by (auto simp: rows_attempted_def row_published_def attempted_def split: if_splits)
qed

lemma run_lane_rows:
  assumes "inv w" and "claimed_rows ms (rows w)" and "run_lane E R P cfg ms w = ((p, e), w')"
  shows "inv w' \<and> rows_attempted cfg ms (rows w) (rows w') \<and> p = length (filter (row_published (rows w')) ms)"
  using assms
proof (induction ms arbitrary: w p e w')
  case (Cons m ms)
  obtain p1 e1 d w1 where one: "dispatch_one E R P cfg m w = ((p1, e1, d), w1)" by (metis prod.exhaust)
  have c: "claimed_rows [m] (rows w)" "claimed_rows ms (rows w)" "om_id ` set [m] \<inter> om_id ` set ms = {}"
    using Cons.prems(2) claimed_rows_append [of "[m]" ms] by simp_all
  note s1 = dispatch_one_rows [OF Cons.prems(1) c(1) one]
  have c1: "claimed_rows ms (rows w1)"
    using rows_attempted_frame [OF _ c(3)] s1 by (intro claimed_rows_frame [OF c(2)]) blast
  show ?case
  proof (cases d)
    case False
    then have "p = p1" "w' = w1" using Cons.prems(3) one by auto
    then show ?thesis
      using s1 rows_attempted_join [OF _ rows_attempted_idle [OF c1] c(3)] claimed_not_published [OF c1] by auto
  next
    case True
    obtain p2 e2 w2 where rest: "run_lane E R P cfg ms w1 = ((p2, e2), w2)" by (metis prod.exhaust)
    have "p = p1 + p2" "w' = w2" using Cons.prems(3) one rest True by auto
    moreover note s2 = Cons.IH [OF conjunct1 [OF s1] c1 rest]
    ultimately show ?thesis
      using s1 rows_attempted_join [of cfg "[m]" "rows w" "rows w1" ms "rows w2"]
        row_published_frame [of cfg ms "rows w1" "rows w2" "[m]"] c(3) by (auto split: if_splits)
  qed
qed (simp add: rows_attempted_idle)

lemma run_lanes_rows:
  assumes "inv w" and "claimed_rows (concat lanes) (rows w)" and "run_lanes E R P cfg lanes w = (res, w')"
  shows "inv w' \<and> rows_attempted cfg (concat lanes) (rows w) (rows w')
    \<and> published res = length (filter (row_published (rows w')) (concat lanes))"
  using assms
proof (induction lanes arbitrary: w res w')
  case (Cons ms lanes)
  obtain p e w1 where one: "run_lane E R P cfg ms w = ((p, e), w1)" by (metis prod.exhaust)
  obtain res2 w2 where rest: "run_lanes E R P cfg lanes w1 = (res2, w2)" by fastforce
  have c: "claimed_rows ms (rows w)" "claimed_rows (concat lanes) (rows w)"
    "om_id ` set ms \<inter> om_id ` set (concat lanes) = {}"
    using Cons.prems(2) claimed_rows_append [of ms "concat lanes"] by simp_all
  note s1 = run_lane_rows [OF Cons.prems(1) c(1) one]
  have c1: "claimed_rows (concat lanes) (rows w1)"
    using rows_attempted_frame [OF _ c(3)] s1 by (intro claimed_rows_frame [OF c(2)]) blast
  note s2 = Cons.IH [OF conjunct1 [OF s1] c1 rest]
  show ?case
    using s1 s2 rows_attempted_join [OF _ _ c(3)] row_published_frame [OF _ c(3)] Cons.prems(3) one rest
    by auto
qed (auto simp: rows_attempted_idle)

lemma claim_update_claimed: "claim_update n ms rs rs' \<Longrightarrow> claimed_rows ms rs'"
  by (simp add: claim_update_def claimed_rows_def)

lemma claimed_rows_mset: "mset xs = mset ys \<Longrightarrow> claimed_rows xs rs \<longleftrightarrow> claimed_rows ys rs"
  unfolding claimed_rows_def by (metis mset_eq_imp_distinct_iff mset_eq_setD mset_map)

lemma dispatch_pending_run:
  assumes "inv w" and "dispatch_pending E R P cfg limit w = (res, w')" and "or_pending R limit w = (Ok claimed, w1)"
  shows "claim_update limit claimed (rows w) (rows w1)
    \<and> rows_attempted cfg claimed (rows w1) (rows w')
    \<and> published res = length (filter (row_published (rows w')) claimed)
    \<and> (\<exists>new. sent w' = sent w @ new \<and> (\<forall>k. prefix (msgs_with_key k new) (map om_message (with_key_of k claimed))))"
proof -
  note cl = pending_law [OF assms(1,3)]
  have inv1: "inv w1" and sent1: "sent w1 = sent w" using cl pending_sent [OF assms(1,3)] by auto
  have run: "run_lanes E R P cfg (partition_lanes claimed) w1 = (res, w')"
    using assms(2,3) by (simp add: dispatch_pending_def)
  have "claimed_rows (concat (partition_lanes claimed)) (rows w1)"
    using cl claim_update_claimed by (auto simp: claimed_rows_mset [OF partition_lanes_mset])
  note rr = run_lanes_rows [OF inv1 this run]
  have s: "set (concat (partition_lanes claimed)) = set claimed"
    using partition_lanes_mset by (rule mset_eq_setD)
  have "rows_attempted cfg claimed (rows w1) (rows w')"
    using rr unfolding rows_attempted_def s by simp
  moreover have "length (filter (row_published (rows w')) (concat (partition_lanes claimed)))
      = length (filter (row_published (rows w')) claimed)"
    by (metis mset_filter partition_lanes_mset size_mset)
  moreover obtain lns where "dispatch_steps E R P cfg (partition_lanes claimed)
      (map lane_start (partition_lanes claimed), w1) (lns, w')"
    using run_is_schedule [OF run] by blast
  ultimately show ?thesis
    using rr cl sent1 schedule_keeps_key_order [OF _ inv1] by auto
qed

end

end
