(* ===== verification/Inbox.thy ===== *)
theory Inbox
  imports Outbox
begin

text \<open>
  \<open>crates/pharos-messaging/src/inbox.rs\<close>, \<open>consume.rs\<close> and
  \<open>crates/pharos-memory/src/in_memory_inbox.rs\<close>, \<open>in_memory_messaging.rs\<close>: the inbox record, the
  inbox trait and its in-memory implementation with the stale-processing lease, the in-memory
  broker, and the idempotent consumer with and without a retry budget.
\<close>

section \<open>Inbox records\<close>

datatype InboxStatus = Processing | Completed | InboxFailed

record InboxMessage =
  im_message_id :: uuid
  im_consumer :: string
  im_status :: InboxStatus
  im_received_at :: instant
  im_updated_at :: instant
  im_last_error :: "string option"

definition InboxMessage_processing :: "instant \<Rightarrow> uuid \<Rightarrow> string \<Rightarrow> InboxMessage" where
  "InboxMessage_processing now mid consumer =
     \<lparr>im_message_id = mid, im_consumer = consumer, im_status = Processing, im_received_at = now,
      im_updated_at = now, im_last_error = None\<rparr>"

definition im_mark_completed :: "instant \<Rightarrow> InboxMessage \<Rightarrow> InboxMessage" where
  "im_mark_completed now m = m\<lparr>im_status := Completed, im_updated_at := now, im_last_error := None\<rparr>"

definition im_mark_failed :: "instant \<Rightarrow> string \<Rightarrow> InboxMessage \<Rightarrow> InboxMessage" where
  "im_mark_failed now err m =
     m\<lparr>im_status := InboxFailed, im_updated_at := now, im_last_error := Some err\<rparr>"

datatype IdempotencyDecision =
  StartProcessing | AlreadyProcessing | AlreadyCompleted | RetryPreviousFailure

datatype InboxError = InboxNotFound uuid string | InboxStorage string

record 'w InboxStore =
  begin_processing :: "uuid \<Rightarrow> string \<Rightarrow> ('w, InboxError, IdempotencyDecision) op"
  mark_completed :: "uuid \<Rightarrow> string \<Rightarrow> ('w, InboxError, unit) op"
  inbox_mark_failed :: "uuid \<Rightarrow> string \<Rightarrow> string \<Rightarrow> ('w, InboxError, unit) op"
  inbox_get :: "uuid \<Rightarrow> string \<Rightarrow> ('w, InboxError, InboxMessage option) op"

section \<open>The in-memory inbox\<close>

record InMemoryInboxStore =
  ib_store :: "(uuid \<times> string, InboxMessage) dashmap"
  ib_stale_after :: duration

definition DEFAULT_STALE_AFTER :: duration where
  "DEFAULT_STALE_AFTER = 300 * 10 ^ 9"

definition ib_default :: InMemoryInboxStore where
  "ib_default = \<lparr>ib_store = [], ib_stale_after = DEFAULT_STALE_AFTER\<rparr>"

definition with_stale_after :: "InMemoryInboxStore \<Rightarrow> duration \<Rightarrow> InMemoryInboxStore" where
  "with_stale_after s d = s\<lparr>ib_stale_after := d\<rparr>"

definition ib_lookup :: "InMemoryInboxStore \<Rightarrow> uuid \<Rightarrow> string \<Rightarrow> InboxMessage option" where
  "ib_lookup s mid consumer = dm_get (ib_store s) (mid, consumer)"

definition ib_put :: "uuid \<Rightarrow> string \<Rightarrow> InboxMessage \<Rightarrow> InMemoryInboxStore \<Rightarrow> InMemoryInboxStore" where
  "ib_put mid consumer m s = s\<lparr>ib_store := dm_insert (mid, consumer) m (ib_store s)\<rparr>"

text \<open>\<open>now\<close> and \<open>now2\<close> are the successive readings of the clock.\<close>

definition ib_begin_processing ::
    "(duration \<Rightarrow> string + duration) \<Rightarrow> instant \<Rightarrow> instant \<Rightarrow> uuid \<Rightarrow> string
     \<Rightarrow> (InMemoryInboxStore, InboxError, IdempotencyDecision) op" where
  "ib_begin_processing conv now now2 mid consumer s =
     (case ib_lookup s mid consumer of
        None \<Rightarrow> (Ok StartProcessing, ib_put mid consumer (InboxMessage_processing now mid consumer) s)
      | Some entry \<Rightarrow>
          (case im_status entry of
             Processing \<Rightarrow>
               (case conv (ib_stale_after s) of
                  Inl e \<Rightarrow> (Err (InboxStorage e), s)
                | Inr stale_after \<Rightarrow>
                    if im_updated_at entry > now - stale_after then (Ok AlreadyProcessing, s)
                    else (Ok StartProcessing,
                          ib_put mid consumer (entry\<lparr>im_updated_at := now2, im_last_error := None\<rparr>) s))
           | Completed \<Rightarrow> (Ok AlreadyCompleted, s)
           | InboxFailed \<Rightarrow> (Ok RetryPreviousFailure, s)))"

definition ib_modify ::
    "uuid \<Rightarrow> string \<Rightarrow> (InboxMessage \<Rightarrow> InboxMessage) \<Rightarrow> (InMemoryInboxStore, InboxError, unit) op" where
  "ib_modify mid consumer f s = (case ib_lookup s mid consumer of
       None \<Rightarrow> (Err (InboxNotFound mid consumer), s)
     | Some m \<Rightarrow> (Ok (), ib_put mid consumer (f m) s))"

definition ib_mark_completed ::
    "instant \<Rightarrow> uuid \<Rightarrow> string \<Rightarrow> (InMemoryInboxStore, InboxError, unit) op" where
  "ib_mark_completed now mid consumer = ib_modify mid consumer (im_mark_completed now)"

definition ib_mark_failed ::
    "instant \<Rightarrow> uuid \<Rightarrow> string \<Rightarrow> string \<Rightarrow> (InMemoryInboxStore, InboxError, unit) op" where
  "ib_mark_failed now mid consumer err = ib_modify mid consumer (im_mark_failed now err)"

definition ib_get :: "uuid \<Rightarrow> string \<Rightarrow> (InMemoryInboxStore, InboxError, InboxMessage option) op" where
  "ib_get mid consumer s = (Ok (ib_lookup s mid consumer), s)"

section \<open>The in-memory broker\<close>

record InMemoryMessageBroker =
  br_topics :: "(string, Delivery list) dashmap"
  br_acked :: "(uuid, Delivery) dashmap"
  br_nacked :: "(uuid, Delivery) dashmap"

definition br_default :: InMemoryMessageBroker where
  "br_default = \<lparr>br_topics = [], br_acked = [], br_nacked = []\<rparr>"

text \<open>The queue of a topic; a topic without an entry has an empty queue.\<close>

definition br_queue :: "InMemoryMessageBroker \<Rightarrow> string \<Rightarrow> Delivery list" where
  "br_queue b t = (case dm_get (br_topics b) t of None \<Rightarrow> [] | Some q \<Rightarrow> q)"

definition queued_len :: "InMemoryMessageBroker \<Rightarrow> string \<Rightarrow> nat" where
  "queued_len b t = (case dm_get (br_topics b) t of None \<Rightarrow> 0 | Some q \<Rightarrow> length q)"

definition was_acked :: "InMemoryMessageBroker \<Rightarrow> uuid \<Rightarrow> bool" where
  "was_acked b i \<longleftrightarrow> dm_get (br_acked b) i \<noteq> None"

definition was_nacked :: "InMemoryMessageBroker \<Rightarrow> uuid \<Rightarrow> bool" where
  "was_nacked b i \<longleftrightarrow> dm_get (br_nacked b) i \<noteq> None"

definition br_push :: "Delivery \<Rightarrow> InMemoryMessageBroker \<Rightarrow> InMemoryMessageBroker" where
  "br_push d b =
     b\<lparr>br_topics := dm_insert (topic (d_message d)) (br_queue b (topic (d_message d)) @ [d]) (br_topics b)\<rparr>"

definition br_publish :: "Message \<Rightarrow> (InMemoryMessageBroker, MessagingError, unit) op" where
  "br_publish m b = (Ok (), br_push (Delivery_new m) b)"

definition br_next :: "string \<Rightarrow> (InMemoryMessageBroker, MessagingError, Delivery option) op" where
  "br_next t b = (case dm_get (br_topics b) t of
       None \<Rightarrow> (Ok None, b)
     | Some [] \<Rightarrow> (Ok None, b)
     | Some (d # ds) \<Rightarrow> (Ok (Some d), b\<lparr>br_topics := dm_insert t ds (br_topics b)\<rparr>))"

definition br_ack :: "Delivery \<Rightarrow> (InMemoryMessageBroker, MessagingError, unit) op" where
  "br_ack d b = (Ok (), b\<lparr>br_acked := dm_insert (message_id (d_message d)) d (br_acked b)\<rparr>)"

definition br_nack :: "Delivery \<Rightarrow> bool \<Rightarrow> (InMemoryMessageBroker, MessagingError, unit) op" where
  "br_nack d requeue b =
     (let b1 = b\<lparr>br_nacked := dm_insert (message_id (d_message d)) d (br_nacked b)\<rparr>
      in (Ok (), if requeue then br_push (d\<lparr>d_attempt := d_attempt d + 1\<rparr>) b1 else b1))"

section \<open>The idempotent consumer\<close>

datatype ProcessOutcome = Processed | SkippedDuplicate | StillProcessing | ConsumeDeadLettered

text \<open>The handler's error is represented by its displayed text.\<close>

datatype ProcessError =
    ProcessInbox InboxError
  | ProcessMessaging MessagingError
  | ProcessDeadLetter DeadLetterError string
  | ProcessHandler string

type_synonym 'w handler = "Delivery \<Rightarrow> ('w, string, unit) op"

text \<open>The four parts that the two functions share: duplicate, contention, success.\<close>

definition ack_then ::
    "'w MessageAcknowledger \<Rightarrow> Delivery \<Rightarrow> ProcessOutcome \<Rightarrow> ('w, ProcessError, ProcessOutcome) op" where
  "ack_then A d out w = (case ack A d w of
       (Inl e, w1) \<Rightarrow> (Err (ProcessMessaging e), w1)
     | (Inr _, w1) \<Rightarrow> (Ok out, w1))"

definition nack_then ::
    "'w MessageAcknowledger \<Rightarrow> Delivery \<Rightarrow> bool \<Rightarrow> ProcessError + ProcessOutcome
     \<Rightarrow> ('w, ProcessError, ProcessOutcome) op" where
  "nack_then A d requeue out w = (case nack A d requeue w of
       (Inl e, w1) \<Rightarrow> (Err (ProcessMessaging e), w1)
     | (Inr _, w1) \<Rightarrow> (out, w1))"

definition complete_then_ack ::
    "'w InboxStore \<Rightarrow> 'w MessageAcknowledger \<Rightarrow> string \<Rightarrow> Delivery
     \<Rightarrow> ('w, ProcessError, ProcessOutcome) op" where
  "complete_then_ack S A consumer d w =
     (case mark_completed S (message_id (d_message d)) consumer w of
        (Inl e, w1) \<Rightarrow> (Err (ProcessInbox e), w1)
      | (Inr _, w1) \<Rightarrow> ack_then A d Processed w1)"

definition process_idempotent ::
    "'w InboxStore \<Rightarrow> 'w MessageAcknowledger \<Rightarrow> string \<Rightarrow> Delivery \<Rightarrow> 'w handler
     \<Rightarrow> ('w, ProcessError, ProcessOutcome) op" where
  "process_idempotent S A consumer d handle w =
     (let mid = message_id (d_message d)
      in case begin_processing S mid consumer w of
           (Inl e, w1) \<Rightarrow> (Err (ProcessInbox e), w1)
         | (Inr AlreadyCompleted, w1) \<Rightarrow> ack_then A d SkippedDuplicate w1
         | (Inr AlreadyProcessing, w1) \<Rightarrow> nack_then A d True (Ok StillProcessing) w1
         | (Inr _, w1) \<Rightarrow>
             (case handle d w1 of
                (Inr _, w2) \<Rightarrow> complete_then_ack S A consumer d w2
              | (Inl err, w2) \<Rightarrow>
                  (case inbox_mark_failed S mid consumer err w2 of
                     (Inl e, w3) \<Rightarrow> (Err (ProcessInbox e), w3)
                   | (Inr _, w3) \<Rightarrow> nack_then A d True (Err (ProcessHandler err)) w3)))"

definition process_idempotent_with_retry ::
    "'w Env \<Rightarrow> 'w InboxStore \<Rightarrow> 'w MessageAcknowledger \<Rightarrow> 'w DeadLetterQueue \<Rightarrow> string \<Rightarrow> Delivery
     \<Rightarrow> RetryPolicy \<Rightarrow> 'w handler \<Rightarrow> ('w, ProcessError, ProcessOutcome) op" where
  "process_idempotent_with_retry E S A Q consumer d policy handle w =
     (let mid = message_id (d_message d)
      in case begin_processing S mid consumer w of
           (Inl e, w1) \<Rightarrow> (Err (ProcessInbox e), w1)
         | (Inr AlreadyCompleted, w1) \<Rightarrow> ack_then A d SkippedDuplicate w1
         | (Inr AlreadyProcessing, w1) \<Rightarrow> nack_then A d True (Ok StillProcessing) w1
         | (Inr _, w1) \<Rightarrow>
             (case handle d w1 of
                (Inr _, w2) \<Rightarrow> complete_then_ack S A consumer d w2
              | (Inl err, w2) \<Rightarrow>
                  (case inbox_mark_failed S mid consumer err w2 of
                     (Inl e, w3) \<Rightarrow> (Err (ProcessInbox e), w3)
                   | (Inr _, w3) \<Rightarrow>
                       (let (u, w4) = random_f64 E w3
                        in case decide policy u (d_attempt d) of
                             RetryAfter _ \<Rightarrow> nack_then A d True (Err (ProcessHandler err)) w4
                           | DeadLetter \<Rightarrow>
                               (let (fresh_id, w5) = now_v7 E w4;
                                    (now, w6) = utc_now E w5;
                                    dead = DeadLetterMessage_new fresh_id now (d_message d) err (d_attempt d)
                                in case dlq_dead_letter Q dead w6 of
                                     (Inl e, w7) \<Rightarrow> (Err (ProcessDeadLetter e err), w7)
                                   | (Inr _, w7) \<Rightarrow> nack_then A d False (Err (ProcessHandler err)) w7)))))"

section \<open>Lemmas on the in-memory inbox and broker\<close>

lemma ib_lookup_put [simp]:
  "ib_lookup (ib_put mid c m s) mid' c' = (if mid' = mid \<and> c' = c then Some m else ib_lookup s mid' c')"
  by (simp add: ib_lookup_def ib_put_def)

lemma ib_stale_after_put [simp]: "ib_stale_after (ib_put mid c m s) = ib_stale_after s"
  by (simp add: ib_put_def)

lemma im_status_updates [simp, status_simps]:
  "im_status (im_mark_completed now m) = Completed" "im_status (im_mark_failed now e m) = InboxFailed"
  "im_status (InboxMessage_processing now mid c) = Processing"
  by (simp_all add: im_mark_completed_def im_mark_failed_def InboxMessage_processing_def)

lemma br_queue_push [simp]:
  "br_queue (br_push d b) t = (if t = topic (d_message d) then br_queue b t @ [d] else br_queue b t)"
  by (simp add: br_queue_def br_push_def)

lemma br_acks_push [simp]: "br_acked (br_push d b) = br_acked b" "br_nacked (br_push d b) = br_nacked b"
  by (simp_all add: br_push_def)

lemma queued_len_eq: "queued_len b t = length (br_queue b t)"
  by (simp add: queued_len_def br_queue_def split: option.splits)

lemma br_next_queue:
  "br_next t b = (case br_queue b t of
       [] \<Rightarrow> (Ok None, b)
     | d # ds \<Rightarrow> (Ok (Some d), b\<lparr>br_topics := dm_insert t ds (br_topics b)\<rparr>))"
  by (simp add: br_next_def br_queue_def split: option.splits list.splits)

fun br_publish_all :: "Message list \<Rightarrow> InMemoryMessageBroker \<Rightarrow> InMemoryMessageBroker" where
  "br_publish_all [] b = b"
| "br_publish_all (m # ms) b = br_publish_all ms (snd (br_publish m b))"

fun br_drain :: "nat \<Rightarrow> string \<Rightarrow> InMemoryMessageBroker \<Rightarrow> Delivery list \<times> InMemoryMessageBroker" where
  "br_drain 0 t b = ([], b)"
| "br_drain (Suc n) t b = (case br_next t b of
       (Inr (Some d), b') \<Rightarrow> (let (ds, b'') = br_drain n t b' in (d # ds, b''))
     | (_, b') \<Rightarrow> ([], b'))"

lemma br_queue_publish_all:
  "br_queue (br_publish_all ms b) t = br_queue b t @ map Delivery_new (filter (\<lambda>m. topic m = t) ms)"
  by (induction ms arbitrary: b) (auto simp: br_publish_def Delivery_new_def)

lemma br_queue_next [simp]:
  "br_queue (b\<lparr>br_topics := dm_insert t ds (br_topics b)\<rparr>) t' = (if t' = t then ds else br_queue b t')"
  by (simp add: br_queue_def)

lemma br_drain_queue:
  "fst (br_drain n t b) = take n (br_queue b t)
   \<and> (\<forall>t'. br_queue (snd (br_drain n t b)) t' = (if t' = t then drop n (br_queue b t) else br_queue b t'))"
proof (induction n arbitrary: b)
  case (Suc n)
  show ?case
  proof (cases "br_queue b t")
    case Nil
    then show ?thesis by (simp add: br_next_queue)
  next
    case (Cons d ds)
    then show ?thesis using Suc [of "b\<lparr>br_topics := dm_insert t ds (br_topics b)\<rparr>"]
      by (cases "br_drain n t (b\<lparr>br_topics := dm_insert t ds (br_topics b)\<rparr>)") (simp add: br_next_queue)
  qed
qed simp

text \<open>
  The in-memory broker keeps every topic in first-in first-out order: after publishing any
  messages, consuming a topic yields first what was queued before and then the published messages
  of that topic in publication order, each as a first attempt, and consuming one topic never
  changes another.
\<close>

theorem broker_fifo:
  "fst (br_drain n t (br_publish_all ms b)) =
     take n (br_queue b t @ map Delivery_new (filter (\<lambda>m. topic m = t) ms))
   \<and> (\<forall>t'. br_queue (snd (br_drain n t (br_publish_all ms b))) t' =
        (if t' = t then drop n (br_queue b t @ map Delivery_new (filter (\<lambda>m. topic m = t) ms))
         else br_queue b t' @ map Delivery_new (filter (\<lambda>m. topic m = t') ms)))"
  using br_drain_queue [of n t "br_publish_all ms b"] by (simp add: br_queue_publish_all)

section \<open>Concurrent consumers\<close>

text \<open>
  Several consumers of one group call \<open>begin_processing\<close> for the same message, one atomic step
  each; the list holds the clock readings of the calls in the order in which they take the entry.
\<close>

fun begin_many ::
    "(duration \<Rightarrow> string + duration) \<Rightarrow> uuid \<Rightarrow> string \<Rightarrow> (instant \<times> instant) list \<Rightarrow> InMemoryInboxStore
     \<Rightarrow> (InboxError + IdempotencyDecision) list" where
  "begin_many conv mid c [] s = []"
| "begin_many conv mid c ((now, now2) # ts) s =
     (let (r, s') = ib_begin_processing conv now now2 mid c s in r # begin_many conv mid c ts s')"

lemma begin_many_processing:
  assumes "ib_lookup s mid c = Some m" and "im_status m = Processing" and "conv (ib_stale_after s) = Ok lease"
    and "\<forall>(now, now2) \<in> set ts. now - lease < im_updated_at m"
  shows "begin_many conv mid c ts s = replicate (length ts) (Ok AlreadyProcessing)"
  using assms(4)
proof (induction ts)
  case (Cons x ts)
  then show ?case using assms(1-3) by (cases x) (auto simp: ib_begin_processing_def)
qed simp

text \<open>
  For a message nobody has seen, exactly one of any number of concurrent consumers starts
  processing while its lease lasts and all the others are told that it is being processed; for a
  message whose previous processing failed, there is no such exclusion: every one of them is told
  to retry it, because the record is left in the failed state.
\<close>

theorem begin_processing_exclusion:
  assumes "conv (ib_stale_after s) = Ok lease"
  shows "(ib_lookup s mid c = None \<and> (\<forall>(now, now2) \<in> set ts. now - lease < t0) \<longrightarrow>
        begin_many conv mid c ((t0, t1) # ts) s =
          Ok StartProcessing # replicate (length ts) (Ok AlreadyProcessing))
    \<and> (\<forall>m. ib_lookup s mid c = Some m \<and> im_status m = InboxFailed \<longrightarrow>
        begin_many conv mid c ((t0, t1) # ts) s =
          replicate (Suc (length ts)) (Ok RetryPreviousFailure))"
proof (intro conjI impI allI; elim conjE)
  assume new: "ib_lookup s mid c = None" and t: "\<forall>(now, now2) \<in> set ts. now - lease < t0"
  let ?m = "InboxMessage_processing t0 mid c"
  have "begin_many conv mid c ts (ib_put mid c ?m s) = replicate (length ts) (Ok AlreadyProcessing)"
    using assms t by (intro begin_many_processing [where m = ?m]) (auto simp: InboxMessage_processing_def)
  then show "begin_many conv mid c ((t0, t1) # ts) s =
      Ok StartProcessing # replicate (length ts) (Ok AlreadyProcessing)"
    using new by (simp add: ib_begin_processing_def)
next
  fix m assume m: "ib_lookup s mid c = Some m" "im_status m = InboxFailed"
  have "begin_many conv mid c xs s = replicate (length xs) (Ok RetryPreviousFailure)" for xs
    using m by (induction xs) (auto simp: ib_begin_processing_def)
  from this [of "(t0, t1) # ts"]
  show "begin_many conv mid c ((t0, t1) # ts) s = replicate (Suc (length ts)) (Ok RetryPreviousFailure)"
    by simp
qed

theorem begin_processing_exclusion_witness:
  "begin_many Inr 1 ''billing'' [(0, 0), (5, 5)] ib_default = [Ok StartProcessing, Ok AlreadyProcessing]"
  using begin_processing_exclusion [of Inr ib_default DEFAULT_STALE_AFTER 1 "''billing''" "[(5, 5)]" 0 0]
  by (simp add: ib_default_def DEFAULT_STALE_AFTER_def ib_lookup_def)

end
