(* ===== verification/Memory_World.thy ===== *)
theory Memory_World
  imports Dispatcher Inbox
begin

text \<open>
  The in-memory adapters of \<open>crates/pharos-memory\<close> put together: one world with an outbox, an inbox,
  a dead-letter queue and a broker, the clock, the identifier generator and the random source as
  arbitrary supplies, and a broker link that may refuse a publish according to an arbitrary script.
  The dictionaries of the traits are defined over this world, the contracts of the outbox are
  interpreted on it, and the properties of the dispatcher, the sweep and the consumer are stated
  for it.
\<close>

section \<open>The world\<close>

record World =
  w_outbox :: InMemoryOutboxRepository
  w_inbox :: InMemoryInboxStore
  w_dlq :: InMemoryDeadLetterQueue
  w_broker :: InMemoryMessageBroker
  w_sent :: "Message list"
  w_faults :: "nat \<Rightarrow> MessagingError option"
  w_publishes :: nat
  w_clock :: "nat \<Rightarrow> instant"
  w_tick :: nat
  w_uuids :: "nat \<Rightarrow> uuid"
  w_uuid_tick :: nat
  w_random :: "nat \<Rightarrow> real"
  w_random_tick :: nat

definition mem_now :: "World \<Rightarrow> instant \<times> World" where
  "mem_now w = (w_clock w (w_tick w), w\<lparr>w_tick := w_tick w + 1\<rparr>)"

definition mem_uuid :: "World \<Rightarrow> uuid \<times> World" where
  "mem_uuid w = (w_uuids w (w_uuid_tick w), w\<lparr>w_uuid_tick := w_uuid_tick w + 1\<rparr>)"

definition mem_random :: "World \<Rightarrow> real \<times> World" where
  "mem_random w = (w_random w (w_random_tick w), w\<lparr>w_random_tick := w_random_tick w + 1\<rparr>)"

definition mem_env :: "(duration \<Rightarrow> string + duration) \<Rightarrow> World Env" where
  "mem_env conv = \<lparr>utc_now = mem_now, now_v7 = mem_uuid, random_f64 = mem_random, from_std = conv\<rparr>"

text \<open>Running an operation of one component on its part of the world.\<close>

definition on_outbox :: "(InMemoryOutboxRepository, OutboxError, 'a) op \<Rightarrow> (World, OutboxError, 'a) op" where
  "on_outbox f w = (let (r, s) = f (w_outbox w) in (r, w\<lparr>w_outbox := s\<rparr>))"

definition on_inbox :: "(InMemoryInboxStore, InboxError, 'a) op \<Rightarrow> (World, InboxError, 'a) op" where
  "on_inbox f w = (let (r, s) = f (w_inbox w) in (r, w\<lparr>w_inbox := s\<rparr>))"

definition on_broker :: "(InMemoryMessageBroker, MessagingError, 'a) op \<Rightarrow> (World, MessagingError, 'a) op" where
  "on_broker f w = (let (r, s) = f (w_broker w) in (r, w\<lparr>w_broker := s\<rparr>))"

definition on_dlq :: "(InMemoryDeadLetterQueue, DeadLetterError, 'a) op \<Rightarrow> (World, DeadLetterError, 'a) op" where
  "on_dlq f w = (let (r, s) = f (w_dlq w) in (r, w\<lparr>w_dlq := s\<rparr>))"

definition timed :: "(instant \<Rightarrow> (World, 'e, 'a) op) \<Rightarrow> (World, 'e, 'a) op" where
  "timed f w = (let (t, w1) = mem_now w in f t w1)"

definition mem_outbox :: "(duration \<Rightarrow> string + duration) \<Rightarrow> World OutboxRepository" where
  "mem_outbox conv = \<lparr>
     or_insert = \<lambda>m. on_outbox (ob_insert m),
     or_pending = \<lambda>n. timed (\<lambda>t. on_outbox (ob_pending t n)),
     or_record_attempt = \<lambda>i. timed (\<lambda>t. on_outbox (ob_record_attempt t i)),
     or_schedule_retry = \<lambda>i d. timed (\<lambda>t. timed (\<lambda>t2. on_outbox (ob_schedule_retry conv t t2 i d))),
     or_mark_published = \<lambda>i. timed (\<lambda>t. on_outbox (ob_mark_published t i)),
     or_mark_failed = \<lambda>i e. timed (\<lambda>t. on_outbox (ob_mark_failed t i e)),
     or_failed = \<lambda>n. on_outbox (ob_failed n),
     or_mark_dead_lettered = \<lambda>i. timed (\<lambda>t. on_outbox (ob_mark_dead_lettered t i))\<rparr>"

definition mem_inbox :: "(duration \<Rightarrow> string + duration) \<Rightarrow> World InboxStore" where
  "mem_inbox conv = \<lparr>
     begin_processing = \<lambda>i c. timed (\<lambda>t. timed (\<lambda>t2. on_inbox (ib_begin_processing conv t t2 i c))),
     mark_completed = \<lambda>i c. timed (\<lambda>t. on_inbox (ib_mark_completed t i c)),
     inbox_mark_failed = \<lambda>i c e. timed (\<lambda>t. on_inbox (ib_mark_failed t i c e)),
     inbox_get = \<lambda>i c. on_inbox (ib_get i c)\<rparr>"

definition mem_dlq :: "World DeadLetterQueue" where
  "mem_dlq = \<lparr>dlq_dead_letter = \<lambda>m. on_dlq (mem_dead_letter m), dlq_list = \<lambda>n. on_dlq (mem_dlq_list n)\<rparr>"

text \<open>
  The publisher: the link refuses the publish when the script says so; otherwise the in-memory
  broker takes the message. \<open>w_sent\<close> is the history of accepted messages.
\<close>

definition mem_publish :: "Message \<Rightarrow> (World, MessagingError, unit) op" where
  "mem_publish m w =
     (let w1 = w\<lparr>w_publishes := w_publishes w + 1\<rparr>
      in case w_faults w (w_publishes w) of
           Some e \<Rightarrow> (Err e, w1)
         | None \<Rightarrow> on_broker (br_publish m) (w1\<lparr>w_sent := w_sent w @ [m]\<rparr>))"

definition mem_publisher :: "World MessagePublisher" where
  "mem_publisher = \<lparr>publish = mem_publish\<rparr>"

definition mem_consumer :: "World MessageConsumer" where
  "mem_consumer = \<lparr>next_delivery = \<lambda>t. on_broker (br_next t)\<rparr>"

definition mem_acknowledger :: "World MessageAcknowledger" where
  "mem_acknowledger = \<lparr>ack = \<lambda>d. on_broker (br_ack d), nack = \<lambda>d q. on_broker (br_nack d q)\<rparr>"

abbreviation w_rows :: "World \<Rightarrow> uuid \<rightharpoonup> OutboxMessage" where
  "w_rows w \<equiv> ob_get (w_outbox w)"

definition w_inv :: "World \<Rightarrow> bool" where
  "w_inv w \<longleftrightarrow> ob_inv (w_outbox w)"

definition empty_world :: "(nat \<Rightarrow> MessagingError option) \<Rightarrow> World" where
  "empty_world faults =
     \<lparr>w_outbox = ob_default, w_inbox = ib_default, w_dlq = [], w_broker = br_default, w_sent = [],
      w_faults = faults, w_publishes = 0, w_clock = int, w_tick = 0, w_uuids = id, w_uuid_tick = 0,
      w_random = (\<lambda>_. 0), w_random_tick = 0\<rparr>"

lemmas mem_defs = mem_env_def mem_outbox_def mem_inbox_def mem_dlq_def mem_publisher_def
  mem_consumer_def mem_acknowledger_def mem_publish_def mem_now_def mem_uuid_def mem_random_def
  on_outbox_def on_inbox_def on_broker_def on_dlq_def timed_def

section \<open>The outbox contract on the in-memory outbox\<close>

lemma ob_modify_row_update:
  "ob_modify i f s = (r, s') \<Longrightarrow> (\<And>x. rel x (f x)) \<Longrightarrow> row_update rel i r (ob_get s) (ob_get s')"
  by (auto simp: ob_modify_def row_update_def fun_eq_iff split: option.splits)

lemma ob_pending_claim_update:
  assumes "ob_inv s" and "ob_pending now n s = (r, s')"
  shows "\<exists>ms. r = Ok ms \<and> ob_inv s' \<and> claim_update n ms (ob_get s) (ob_get s')"
proof -
  define due where "due = take n (ob_sorted_due now s)"
  note D = ob_sorted_due_props [OF assms(1), of now]
  have dist: "distinct (map om_id due)" using D(2) unfolding due_def by (metis distinct_take take_map)
  have sub: "\<forall>m \<in> set due. ob_get s (om_id m) = Some m \<and> ob_due now m"
    using D(1) unfolding due_def by (auto dest: in_set_takeD)
  note A = ob_claim_all_due [OF assms(1) dist sub]
  have r: "r = Ok (map (ob_leased now s) due)" and s': "s' = snd (ob_claim_all now (map om_id due) s)"
    using assms(2) A by (auto simp: ob_pending_eq ob_candidates_sorted_due due_def)
  have ids: "om_id ` set (map (ob_leased now s) due) = om_id ` set due" by (auto simp: image_iff)
  have "claim_update n (map (ob_leased now s) due) (ob_get s) (ob_get s')"
    unfolding claim_update_def ids
    using A dist sub by (auto simp: s' due_def comp_def ob_due_def)
  then show ?thesis using r A s' by blast
qed

lemma timed_modify:
  assumes "w_inv w" and "timed (\<lambda>t. on_outbox (ob_modify i (f t))) w = (r, w')"
    and "\<And>t x. om_id (f t x) = om_id x" and "\<And>t x. rel x (f t x)"
  shows "w_inv w' \<and> row_update rel i r (w_rows w) (w_rows w') \<and> w_sent w' = w_sent w \<and> w_dlq w' = w_dlq w"
proof -
  obtain r0 s0 where m: "ob_modify i (f (w_clock w (w_tick w))) (w_outbox w) = (r0, s0)" by fastforce
  then have "ob_inv s0" using ob_modify_inv [of "w_outbox w" "f (w_clock w (w_tick w))" i] assms(1,3)
    by (simp add: w_inv_def)
  then show ?thesis
    using ob_modify_row_update [OF m, of rel] assms(2,4) m by (auto simp: mem_defs w_inv_def)
qed

lemma mem_schedule_retry:
  assumes "w_inv w" and "or_schedule_retry (mem_outbox conv) i d w = (r, w')"
  shows "w_inv w' \<and> row_update rel_retry i r (w_rows w) (w_rows w') \<and> w_sent w' = w_sent w"
  using assms
  by (auto simp: mem_defs w_inv_def ob_schedule_retry_def row_update_def ob_inv_id fun_eq_iff
      split: option.splits sum.splits)

lemma mem_record:
  assumes "w_inv w" and "or_record_attempt (mem_outbox conv) i w = (r, w')"
  shows "w_inv w' \<and> row_update (\<lambda>x y. \<exists>now. y = om_record_attempt now x) i r (w_rows w) (w_rows w')
    \<and> w_sent w' = w_sent w \<and> w_dlq w' = w_dlq w"
  by (rule timed_modify [OF assms(1), where f = om_record_attempt])
    (use assms(2) in \<open>auto simp: mem_outbox_def ob_record_attempt_def\<close>)

lemma mem_published:
  assumes "w_inv w" and "or_mark_published (mem_outbox conv) i w = (r, w')"
  shows "w_inv w' \<and> row_update (\<lambda>x y. \<exists>now. y = om_mark_published now x) i r (w_rows w) (w_rows w')
    \<and> w_sent w' = w_sent w \<and> w_dlq w' = w_dlq w"
  by (rule timed_modify [OF assms(1), where f = om_mark_published])
    (use assms(2) in \<open>auto simp: mem_outbox_def ob_mark_published_def\<close>)

lemma mem_failed:
  assumes "w_inv w" and "or_mark_failed (mem_outbox conv) i err w = (r, w')"
  shows "w_inv w' \<and> row_update (\<lambda>x y. \<exists>now. y = om_mark_failed now err x) i r (w_rows w) (w_rows w')
    \<and> w_sent w' = w_sent w \<and> w_dlq w' = w_dlq w"
  by (rule timed_modify [OF assms(1), where f = "\<lambda>t. om_mark_failed t err"])
    (use assms(2) in \<open>auto simp: mem_outbox_def ob_mark_failed_def\<close>)

lemma mem_dead:
  assumes "w_inv w" and "or_mark_dead_lettered (mem_outbox conv) i w = (r, w')"
  shows "w_inv w' \<and> row_update rel_dead_lettered i r (w_rows w) (w_rows w')
    \<and> w_sent w' = w_sent w \<and> w_dlq w' = w_dlq w"
  by (rule timed_modify [OF assms(1), where f = "\<lambda>t m. m\<lparr>om_status := DeadLettered, om_updated_at := t\<rparr>"])
    (use assms(2) in \<open>auto simp: mem_outbox_def ob_mark_dead_lettered_def rel_dead_lettered_def\<close>)

lemma mem_pending:
  assumes "w_inv w" and "or_pending (mem_outbox conv) n w = (r, w')"
  shows "w_inv w' \<and> (\<exists>ms. r = Ok ms \<and> claim_update n ms (w_rows w) (w_rows w')) \<and> w_sent w' = w_sent w"
proof -
  obtain r0 s0 where m: "ob_pending (w_clock w (w_tick w)) n (w_outbox w) = (r0, s0)" by fastforce
  show ?thesis
    using ob_pending_claim_update [OF _ m] assms m by (auto simp: mem_defs w_inv_def)
qed

lemma mem_failed_list:
  assumes "w_inv w" and "or_failed (mem_outbox conv) n w = (r, w')"
  shows "w' = w \<and> (\<forall>ms. r = Ok ms \<longrightarrow> length ms \<le> n \<and> distinct (map om_id ms)
        \<and> (\<forall>m \<in> set ms. w_rows w (om_id m) = Some m \<and> om_status m = Failed))"
proof -
  let ?fs = "sort_key (\<lambda>m. (om_created_at m, om_id m))
      (filter (\<lambda>m. om_status m = Failed) (dm_values (ob_store (w_outbox w))))"
  have e: "w' = w" "r = Ok (take n ?fs)" using assms(2) by (auto simp: mem_defs ob_failed_def)
  have inv: "ob_inv (w_outbox w)" using assms(1) by (simp add: w_inv_def)
  have "distinct (map om_id (filter (\<lambda>m. om_status m = Failed) (dm_values (ob_store (w_outbox w)))))"
    by (rule distinct_map_filter [OF ob_values_distinct [OF inv]])
  moreover have "mset (map om_id ?fs) =
      mset (map om_id (filter (\<lambda>m. om_status m = Failed) (dm_values (ob_store (w_outbox w)))))" by simp
  ultimately have "distinct (map om_id ?fs)" using mset_eq_imp_distinct_iff by blast
  then have "distinct (map om_id (take n ?fs))" by (metis distinct_take take_map)
  moreover have "\<forall>m \<in> set (take n ?fs). w_rows w (om_id m) = Some m \<and> om_status m = Failed"
    using inv by (auto dest!: in_set_takeD simp: ob_values)
  moreover have "length (take n ?fs) \<le> n" by simp
  ultimately show ?thesis unfolding e sum.inject by blast
qed

interpretation mem: outbox_repository "mem_outbox conv" w_rows w_inv
proof
  fix w w' :: World and m and r :: "OutboxError + unit"
  assume "w_inv w" "or_insert (mem_outbox conv) m w = (r, w')"
  then show "w_inv w' \<and> w_rows w' = (if is_ok r then (w_rows w)(om_id m \<mapsto> m) else w_rows w)"
    by (auto simp: mem_defs ob_insert_def w_inv_def fun_eq_iff)
next
  fix w w' :: World and n and rs
  assume a: "w_inv w" "or_failed (mem_outbox conv) n w = (rs, w')"
  show "w_inv w' \<and> w_rows w' = w_rows w \<and> (\<forall>ms. rs = Ok ms \<longrightarrow> length ms \<le> n \<and> distinct (map om_id ms)
      \<and> (\<forall>m \<in> set ms. w_rows w (om_id m) = Some m \<and> om_status m = Failed))"
    using mem_failed_list [OF a] a(1) by simp
next
  fix w w' :: World and n and rs
  assume a: "w_inv w" "or_pending (mem_outbox conv) n w = (rs, w')"
  show "w_inv w' \<and> (case rs of Inl _ \<Rightarrow> w_rows w' = w_rows w | Inr ms \<Rightarrow> claim_update n ms (w_rows w) (w_rows w'))"
    using mem_pending [OF a] by auto
next
  fix w w' :: World and i and r
  assume a: "w_inv w" "or_record_attempt (mem_outbox conv) i w = (r, w')"
  show "w_inv w' \<and> row_update (\<lambda>x y. \<exists>now. y = om_record_attempt now x) i r (w_rows w) (w_rows w')" using mem_record [OF a] by blast
next
  fix w w' :: World and i d and r
  assume a: "w_inv w" "or_schedule_retry (mem_outbox conv) i d w = (r, w')"
  show "w_inv w' \<and> row_update rel_retry i r (w_rows w) (w_rows w')" using mem_schedule_retry [OF a] by blast
next
  fix w w' :: World and i and r
  assume a: "w_inv w" "or_mark_published (mem_outbox conv) i w = (r, w')"
  show "w_inv w' \<and> row_update (\<lambda>x y. \<exists>now. y = om_mark_published now x) i r (w_rows w) (w_rows w')" using mem_published [OF a] by blast
next
  fix w w' :: World and i err and r
  assume a: "w_inv w" "or_mark_failed (mem_outbox conv) i err w = (r, w')"
  show "w_inv w' \<and> row_update (\<lambda>x y. \<exists>now. y = om_mark_failed now err x) i r (w_rows w) (w_rows w')" using mem_failed [OF a] by blast
next
  fix w w' :: World and i and r
  assume a: "w_inv w" "or_mark_dead_lettered (mem_outbox conv) i w = (r, w')"
  show "w_inv w' \<and> row_update rel_dead_lettered i r (w_rows w) (w_rows w')" using mem_dead [OF a] by blast
qed

lemma mem_publish_law:
  assumes "w_inv w" and "publish mem_publisher m w = (r, w')"
  shows "w_inv w' \<and> w_rows w' = w_rows w \<and> w_sent w' = (if is_ok r then w_sent w @ [m] else w_sent w)"
  using assms by (auto simp: mem_defs w_inv_def br_publish_def Let_def split: option.splits)

interpretation mem_dispatch: dispatch_context "mem_outbox conv" w_rows w_inv "mem_env conv" mem_publisher w_sent
proof
  fix w w' :: World and m and rp
  assume "w_inv w" "publish mem_publisher m w = (rp, w')"
  then show "w_inv w' \<and> w_rows w' = w_rows w \<and> w_sent w' = (if is_ok rp then w_sent w @ [m] else w_sent w)"
    by (rule mem_publish_law)
next
  fix w w' :: World and u
  assume "w_inv w" "random_f64 (mem_env conv) w = (u, w')"
  then show "w_inv w' \<and> w_rows w' = w_rows w \<and> w_sent w' = w_sent w"
    by (auto simp: mem_defs w_inv_def)
qed (drule (1) mem_record mem_schedule_retry mem_published mem_failed mem_pending; blast)+

interpretation mem_sweep: sweep_context "mem_outbox conv" w_rows w_inv "mem_env conv" mem_dlq w_dlq
proof
  fix w w' :: World and m and rd
  assume "w_inv w" "dlq_dead_letter mem_dlq m w = (rd, w')"
  then show "w_inv w' \<and> w_rows w' = w_rows w \<and> w_dlq w' = (if is_ok rd then w_dlq w @ [m] else w_dlq w)"
    by (auto simp: mem_defs w_inv_def mem_dead_letter_def)
next
  fix w w' :: World and n and rs
  assume a: "w_inv w" "or_failed (mem_outbox conv) n w = (rs, w')"
  show "w_dlq w' = w_dlq w" using mem_failed_list [OF a] by simp
next
  fix w w' :: World and t
  assume "w_inv w" "utc_now (mem_env conv) w = (t, w')"
  then show "w_inv w' \<and> w_rows w' = w_rows w \<and> w_dlq w' = w_dlq w" by (auto simp: mem_defs w_inv_def)
next
  fix w w' :: World and i
  assume "w_inv w" "now_v7 (mem_env conv) w = (i, w')"
  then show "w_inv w' \<and> w_rows w' = w_rows w \<and> w_dlq w' = w_dlq w" by (auto simp: mem_defs w_inv_def)
qed (use mem_dead in blast)

section \<open>The dispatcher over the in-memory adapters\<close>

text \<open>
  C1: Per-key order survives concurrency: for every batch, every concurrency setting, every
  interleaving of the lanes at their await points and every pattern of publish failures, at every
  moment of the run the messages of a key that have reached the broker are an initial segment of the
  claimed messages of that key, in claim order.
\<close>

theorem dispatch_keeps_key_order:
  assumes "w_inv w0"
    and "dispatch_steps (mem_env conv) (mem_outbox conv) mem_publisher cfg (partition_lanes claimed)
      (map lane_start (partition_lanes claimed), w0) (lns, w)"
  shows "\<exists>new. w_sent w = w_sent w0 @ new
    \<and> (\<forall>k. prefix (msgs_with_key k new) (map om_message (with_key_of k claimed)))"
  using mem_dispatch.schedule_keeps_key_order [OF assms(2,1)] .























lemma mem_dead_total:
  assumes "w_rows w i \<noteq> None"
  shows "\<exists>w'. or_mark_dead_lettered (mem_outbox conv) i w = (Ok (), w') \<and> (\<forall>j. w_rows w' j = None \<longleftrightarrow> w_rows w j = None)"
  using assms by (auto simp: mem_defs ob_mark_dead_lettered_def ob_modify_def)

lemma mem_sweep_total:
  assumes "\<forall>m \<in> set ms. w_rows w (om_id m) \<noteq> None"
  shows "\<exists>w'. sweep_loop (mem_env conv) (mem_outbox conv) mem_dlq ms k w = (Ok (k + length ms), w')"
  using assms
proof (induction ms arbitrary: k w)
  case (Cons m ms)
  obtain i w1 where e1: "now_v7 (mem_env conv) w = (i, w1)" by fastforce
  obtain t w2 where e2: "utc_now (mem_env conv) w1 = (t, w2)" by fastforce
  have r2: "w_rows w2 = w_rows w" using e1 e2 by (auto simp: mem_defs)
  define d where "d = DeadLetterMessage_new i t (om_message m)
      (case om_last_error m of Some e \<Rightarrow> e | None \<Rightarrow> ''publish failed'') (om_attempts m)"
  obtain w3 where e3: "dlq_dead_letter mem_dlq d w2 = (Ok (), w3)" "w_rows w3 = w_rows w2"
    by (simp add: mem_defs mem_dead_letter_def)
  obtain w4 where e4: "or_mark_dead_lettered (mem_outbox conv) (om_id m) w3 = (Ok (), w4)"
      "\<forall>j. w_rows w4 j = None \<longleftrightarrow> w_rows w3 j = None"
    using mem_dead_total [of w3 "om_id m" conv] Cons.prems e3(2) r2 by auto
  obtain w' where "sweep_loop (mem_env conv) (mem_outbox conv) mem_dlq ms (k + 1) w4 = (Ok (k + 1 + length ms), w')"
    using Cons.IH [of w4 "k + 1"] Cons.prems e3(2) e4(2) r2 by auto
  then show ?case by (simp add: e1 e2 e3 e4 d_def [symmetric])
qed simp

text \<open>
  C12: The sweep parks every failed record once: a sweep over the in-memory adapters always
  succeeds, appends one dead letter per swept record in order (same message, attempts and error),
  marks exactly those records dead-lettered, reports their number, and leaves nothing for a second
  sweep when its limit covered all failed records.
\<close>

theorem sweep_parks_once:
  assumes "w_inv w"
  shows "\<exists>n ms ds w'. sweep_failed_to_dead_letter (mem_env conv) (mem_outbox conv) mem_dlq limit w = (Ok n, w')
    \<and> n = length ms \<and> length ms \<le> limit \<and> distinct (map om_id ms)
    \<and> (\<forall>m \<in> set ms. w_rows w (om_id m) = Some m \<and> om_status m = Failed)
    \<and> swept_rows ms (w_rows w) (w_rows w') \<and> w_dlq w' = w_dlq w @ ds \<and> list_all2 letter_of ms ds
    \<and> (length (filter (\<lambda>m. om_status m = Failed) (dm_values (ob_store (w_outbox w)))) \<le> limit \<longrightarrow>
        (\<forall>i m. w_rows w' i = Some m \<longrightarrow> om_status m \<noteq> Failed))"
proof -
  obtain rs w1 where f: "or_failed (mem_outbox conv) limit w = (rs, w1)" by fastforce
  let ?fs = "sort_key (\<lambda>m. (om_created_at m, om_id m))
      (filter (\<lambda>m. om_status m = Failed) (dm_values (ob_store (w_outbox w))))"
  define ms where "ms = take limit ?fs"
  have rs: "rs = Ok ms" using f by (auto simp: mem_defs ob_failed_def ms_def)
  have L: "w1 = w" "length ms \<le> limit" "distinct (map om_id ms)"
      "\<forall>m \<in> set ms. w_rows w (om_id m) = Some m \<and> om_status m = Failed"
    using mem_failed_list [OF assms f] rs by blast+
  then obtain w' where loop: "sweep_loop (mem_env conv) (mem_outbox conv) mem_dlq ms 0 w = (Ok (length ms), w')"
    using mem_sweep_total [of ms w conv 0] by (metis add_0 option.distinct(1))
  obtain n ds where S: "swept_rows (take n ms) (w_rows w) (w_rows w')" "w_dlq w' = w_dlq w @ ds"
      "list_all2 letter_of (take (length ds) ms) ds" "n = length ms" "n \<le> length ds" "length ds \<le> length ms"
    using mem_sweep.sweep_loop_spec [OF assms L(3) _ loop] L(4) by auto
  have none: "om_status m \<noteq> Failed"
    if all: "length (filter (\<lambda>m. om_status m = Failed) (dm_values (ob_store (w_outbox w)))) \<le> limit"
      and m: "w_rows w' i = Some m" for i m
  proof (cases "i \<in> om_id ` set ms")
    case True
    then obtain x where "x \<in> set ms" "i = om_id x" by blast
    then obtain y where "w_rows w' i = Some y" "rel_dead_lettered x y"
      using S(1,4) by (auto simp: swept_rows_def)
    then show ?thesis using m by (auto simp: rel_dead_lettered_def)
  next
    case False
    then have old: "w_rows w i = Some m" using S(1,4) m by (simp add: swept_rows_def)
    have inv: "ob_inv (w_outbox w)" using assms by (simp add: w_inv_def)
    have "om_id m = i" by (rule ob_inv_id [OF inv old])
    moreover have "ms = ?fs" using all by (simp add: ms_def)
    ultimately show ?thesis using False old ob_values [OF inv, of m] by force
  qed
  have run: "sweep_failed_to_dead_letter (mem_env conv) (mem_outbox conv) mem_dlq limit w = (Ok (length ms), w')"
    using f rs L(1) loop by (simp add: sweep_failed_to_dead_letter_def)
  have fin: "swept_rows ms (w_rows w) (w_rows w')" "list_all2 letter_of ms ds" using S by simp_all
  show ?thesis
    by (rule exI [of _ "length ms"], rule exI [of _ ms], rule exI [of _ ds], rule exI [of _ w'])
      (intro conjI allI impI run refl L(2-4) fin S(2); rule none; assumption)
qed

section \<open>A concrete batch\<close>

definition sample_outbox :: InMemoryOutboxRepository where
  "sample_outbox = ob_put 3 (sample_row 3 (Some ''a'')) (ob_put 2 (sample_row 2 (Some ''b''))
     (ob_put 1 (sample_row 1 (Some ''a'')) ob_default))"

definition sample_world :: "(nat \<Rightarrow> MessagingError option) \<Rightarrow> World" where
  "sample_world faults = (empty_world faults)\<lparr>w_outbox := sample_outbox\<rparr>"

definition sample_run :: "(nat \<Rightarrow> MessagingError option) \<Rightarrow> DispatchResult \<times> World" where
  "sample_run faults = dispatch_pending (mem_env Inr) (mem_outbox Inr) mem_publisher
     DispatchConfig_default 10 (sample_world faults)"

definition first_publish_fails :: "nat \<Rightarrow> MessagingError option" where
  "first_publish_fails n = (if n = 0 then Some (Publish ''down'') else None)"

lemma sample_world_inv: "w_inv (sample_world faults)"
  unfolding w_inv_def sample_world_def sample_outbox_def
  by (simp add: ob_inv_default sample_row_def OutboxMessage_new_def)



definition sample_lanes_run :: "DispatchResult \<times> World" where
  "sample_lanes_run = run_lanes (mem_env Inr) (mem_outbox Inr) mem_publisher DispatchConfig_default
     (partition_lanes [sample_row 1 (Some ''a''), sample_row 3 (Some ''a'')]) (sample_world (\<lambda>_. None))"

theorem dispatch_keeps_key_order_witness:
  "map message_id (w_sent (snd sample_lanes_run)) = [1, 3]
   \<and> (\<exists>new. w_sent (snd sample_lanes_run) = w_sent (sample_world (\<lambda>_. None)) @ new
       \<and> (\<forall>k. prefix (msgs_with_key k new)
             (map om_message (with_key_of k [sample_row 1 (Some ''a''), sample_row 3 (Some ''a'')]))))"
proof
  show "map message_id (w_sent (snd sample_lanes_run)) = [1, 3]" by code_simp
  have e: "run_lanes (mem_env Inr) (mem_outbox Inr) mem_publisher DispatchConfig_default
     (partition_lanes [sample_row 1 (Some ''a''), sample_row 3 (Some ''a'')]) (sample_world (\<lambda>_. None))
     = (fst sample_lanes_run, snd sample_lanes_run)"
    by (simp only: sample_lanes_run_def prod.collapse)
  obtain lns where "dispatch_steps (mem_env Inr) (mem_outbox Inr) mem_publisher DispatchConfig_default
      (partition_lanes [sample_row 1 (Some ''a''), sample_row 3 (Some ''a'')])
      (map lane_start (partition_lanes [sample_row 1 (Some ''a''), sample_row 3 (Some ''a'')]),
       sample_world (\<lambda>_. None)) (lns, snd sample_lanes_run)"
    using run_is_schedule [OF e] by blast
  from dispatch_keeps_key_order [OF sample_world_inv this]
  show "\<exists>new. w_sent (snd sample_lanes_run) = w_sent (sample_world (\<lambda>_. None)) @ new
       \<and> (\<forall>k. prefix (msgs_with_key k new)
             (map om_message (with_key_of k [sample_row 1 (Some ''a''), sample_row 3 (Some ''a'')])))" .
qed

definition failed_world :: World where
  "failed_world = (empty_world (\<lambda>_. None))\<lparr>w_outbox := ob_put 1 (om_mark_failed 5 ''down'' (om_record_attempt 4 (sample_row 1 (Some ''a'')))) sample_outbox\<rparr>"

lemma failed_world_inv: "w_inv failed_world"
  unfolding w_inv_def failed_world_def sample_outbox_def
  by (simp add: ob_inv_default sample_row_def OutboxMessage_new_def om_mark_failed_def om_record_attempt_def)

lemma failed_world_sweep:
  "case sweep_failed_to_dead_letter (mem_env Inr) (mem_outbox Inr) mem_dlq 10 failed_world of
     (r, w') \<Rightarrow> r = Ok 1 \<and> map dl_attempts (w_dlq w') = [1] \<and> map dl_reason (w_dlq w') = [''down'']
       \<and> map (\<lambda>i. map_option om_status (w_rows w' i)) [1, 2, 3] = [Some DeadLettered, Some Pending, Some Pending]"
  by code_simp

theorem sweep_parks_once_witness:
  "\<exists>w' m d. sweep_failed_to_dead_letter (mem_env Inr) (mem_outbox Inr) mem_dlq 10 failed_world = (Ok 1, w')
     \<and> w_rows failed_world (om_id m) = Some m \<and> om_status m = Failed \<and> w_dlq w' = [d] \<and> letter_of m d
     \<and> dl_reason d = ''down'' \<and> map (\<lambda>i. map_option om_status (w_rows w' i)) [1, 2, 3] = [Some DeadLettered, Some Pending, Some Pending]"
proof -
  from sweep_parks_once [OF failed_world_inv, of Inr 10] obtain n ms ds w' where
    s: "sweep_failed_to_dead_letter (mem_env Inr) (mem_outbox Inr) mem_dlq 10 failed_world = (Ok n, w')" "n = length ms"
      "\<forall>m \<in> set ms. w_rows failed_world (om_id m) = Some m \<and> om_status m = Failed"
      "w_dlq w' = w_dlq failed_world @ ds" "list_all2 letter_of ms ds" by blast
  note run = failed_world_sweep [unfolded s(1) prod.case]
  then obtain m where m: "ms = [m]" using s(2) by (auto simp: length_Suc_conv)
  then obtain d where d: "ds = [d]" "letter_of m d" using s(5) by (auto simp: list_all2_Cons1)
  have q: "w_dlq w' = [d]" using s(4) d(1) by (simp add: failed_world_def empty_world_def)
  then have "dl_reason d = ''down''" using run by simp
  then show ?thesis using s m d q run by (intro exI [of _ w'] exI [of _ m] exI [of _ d]) simp
qed

text \<open>
  With the default configuration (one lane at a time) a batch is not published in claim order:
  records 1, 2, 3 claimed in this order with keys a, b, a are published as 1, 3, 2. And not every
  claimed record is attempted: when the publish of record 1 fails, record 3 (same key) is claimed
  and leased but neither published nor counted as attempted, while record 2 is published.
\<close>

theorem default_run_is_lane_order:
  "map om_id (fst (ob_claim_all 0 (ob_candidates 0 10 sample_outbox) sample_outbox)) = [1, 2, 3]
   \<and> map message_id (w_sent (snd (sample_run (\<lambda>_. None)))) = [1, 3, 2]
   \<and> map message_id (w_sent (snd (sample_run first_publish_fails))) = [2]
   \<and> map (\<lambda>i. map_option om_attempts (w_rows (snd (sample_run first_publish_fails)) i)) [1, 2, 3]
       = [Some 1, Some 1, Some 0]
   \<and> map_option om_next_attempt_at (w_rows (snd (sample_run first_publish_fails)) 3) = Some DEFAULT_CLAIM_LEASE"
proof (intro conjI)
qed code_simp+

end
