(* ===== verification/Consumer.thy ===== *)
theory Consumer
  imports Memory_World
begin

text \<open>
  The idempotent consumer of \<open>crates/pharos-messaging/src/consume.rs\<close> over the in-memory inbox,
  broker and dead-letter queue: a message is processed at most once per consumer, a handler that
  keeps failing is given up after the retry budget, and what the documentation of the outcomes
  gets wrong.
\<close>

section \<open>One call\<close>

abbreviation w_status :: "World \<Rightarrow> uuid \<Rightarrow> string \<Rightarrow> InboxStatus option" where
  "w_status w i c \<equiv> map_option im_status (ib_lookup (w_inbox w) i c)"

text \<open>A handler of the application does not write the inbox.\<close>

definition inbox_free :: "World handler \<Rightarrow> bool" where
  "inbox_free h \<longleftrightarrow> (\<forall>d w. w_inbox (snd (h d w)) = w_inbox w)"

abbreviation mem_process ::
    "(duration \<Rightarrow> string + duration) \<Rightarrow> string \<Rightarrow> RetryPolicy \<Rightarrow> World handler \<Rightarrow> Delivery
     \<Rightarrow> (World, ProcessError, ProcessOutcome) op" where
  "mem_process conv c p h d w \<equiv> process_idempotent_with_retry (mem_env conv) (mem_inbox conv)
     mem_acknowledger mem_dlq c d p h w"

abbreviation mem_process_unbounded ::
    "(duration \<Rightarrow> string + duration) \<Rightarrow> string \<Rightarrow> World handler \<Rightarrow> Delivery
     \<Rightarrow> (World, ProcessError, ProcessOutcome) op" where
  "mem_process_unbounded conv c h d w \<equiv>
     process_idempotent (mem_inbox conv) mem_acknowledger c d h w"

lemma mem_begin:
  assumes "begin_processing (mem_inbox conv) i c w = (r, w')"
  shows "w_broker w' = w_broker w \<and> w_dlq w' = w_dlq w
    \<and> (\<forall>j e. (j, e) \<noteq> (i, c) \<longrightarrow> w_status w' j e = w_status w j e)
    \<and> (case w_status w i c of
         None \<Rightarrow> r = Ok StartProcessing \<and> w_status w' i c = Some Processing
       | Some Processing \<Rightarrow> r \<noteq> Ok AlreadyCompleted \<and> r \<noteq> Ok RetryPreviousFailure \<and> w_status w' i c = Some Processing
       | Some Completed \<Rightarrow> r = Ok AlreadyCompleted \<and> w_inbox w' = w_inbox w
       | Some InboxFailed \<Rightarrow> r = Ok RetryPreviousFailure \<and> w_inbox w' = w_inbox w)"
  using assms
  by (auto simp: mem_defs ib_begin_processing_def split: option.splits InboxStatus.splits sum.splits if_splits)

lemma mem_complete:
  "mark_completed (mem_inbox conv) i c w = (r, w') \<Longrightarrow> w_status w i c \<noteq> None \<Longrightarrow>
   r = Ok () \<and> w_status w' i c = Some Completed \<and> w_broker w' = w_broker w
   \<and> (\<forall>j e. (j, e) \<noteq> (i, c) \<longrightarrow> w_status w' j e = w_status w j e)"
  by (auto simp: mem_defs ib_mark_completed_def ib_modify_def)

lemma mem_inbox_fail:
  "inbox_mark_failed (mem_inbox conv) i c err w = (r, w') \<Longrightarrow> w_status w i c \<noteq> None \<Longrightarrow>
   r = Ok () \<and> w_status w' i c = Some InboxFailed \<and> w_broker w' = w_broker w \<and> w_dlq w' = w_dlq w
   \<and> (\<forall>j e. (j, e) \<noteq> (i, c) \<longrightarrow> w_status w' j e = w_status w j e)"
  by (auto simp: mem_defs ib_mark_failed_def ib_modify_def)

lemma mem_ack: "ack mem_acknowledger d w = (Ok (), w\<lparr>w_broker := snd (br_ack d (w_broker w))\<rparr>)"
  by (simp add: mem_defs br_ack_def)

lemma mem_nack: "nack mem_acknowledger d q w = (Ok (), w\<lparr>w_broker := snd (br_nack d q (w_broker w))\<rparr>)"
  by (simp add: mem_defs br_nack_def Let_def)

lemma mem_park: "dlq_dead_letter mem_dlq m w = (Ok (), w\<lparr>w_dlq := w_dlq w @ [m]\<rparr>)"
  by (simp add: mem_defs mem_dead_letter_def)

lemma mem_supplies:
  "random_f64 (mem_env conv) w = (w_random w (w_random_tick w), w\<lparr>w_random_tick := w_random_tick w + 1\<rparr>)"
  "now_v7 (mem_env conv) w = (w_uuids w (w_uuid_tick w), w\<lparr>w_uuid_tick := w_uuid_tick w + 1\<rparr>)"
  "utc_now (mem_env conv) w = (w_clock w (w_tick w), w\<lparr>w_tick := w_tick w + 1\<rparr>)"
  by (simp_all add: mem_defs)

lemmas mem_calls = mem_ack mem_nack mem_park mem_supplies ack_then_def nack_then_def complete_then_ack_def

lemma process_completed:
  assumes "w_status w (message_id (d_message d)) c = Some Completed"
  shows "\<exists>w'. mem_process conv c p h d w = (Ok SkippedDuplicate, w') \<and> w_inbox w' = w_inbox w"
proof -
  obtain r w1 where b: "begin_processing (mem_inbox conv) (message_id (d_message d)) c w = (r, w1)" by fastforce
  then have "r = Ok AlreadyCompleted \<and> w_inbox w1 = w_inbox w" using mem_begin [OF b] assms by simp
  then show ?thesis using b by (simp add: process_idempotent_with_retry_def mem_calls)
qed

lemma begin_may_run:
  assumes "begin_processing (mem_inbox conv) i c w = (Ok dec, w1)"
    and "dec = StartProcessing \<or> dec = RetryPreviousFailure"
  shows "w_status w1 i c \<noteq> None \<and> w_status w i c \<noteq> Some Completed"
  using mem_begin [OF assms(1)] assms(2) by (auto split: option.splits InboxStatus.splits)

text \<open>What remains of a call once the handler has run.\<close>

definition after_handler ::
    "(duration \<Rightarrow> string + duration) \<Rightarrow> string \<Rightarrow> RetryPolicy \<Rightarrow> Delivery \<Rightarrow> string + unit
     \<Rightarrow> (World, ProcessError, ProcessOutcome) op" where
  "after_handler conv c p d rh w =
     process_idempotent_with_retry (mem_env conv)
       ((mem_inbox conv)\<lparr>begin_processing := \<lambda>i c w. (Ok StartProcessing, w)\<rparr>)
       mem_acknowledger mem_dlq c d p (\<lambda>d w. (rh, w)) w"

lemma process_split:
  assumes "begin_processing (mem_inbox conv) (message_id (d_message d)) c w = (Ok dec, w1)"
    and "dec = StartProcessing \<or> dec = RetryPreviousFailure" and "h d w1 = (rh, w2)"
  shows "mem_process conv c p h d w = after_handler conv c p d rh w2"
  using assms
  by (auto simp: process_idempotent_with_retry_def after_handler_def complete_then_ack_def split: sum.splits)

lemma after_handler_ok:
  assumes "w_status w (message_id (d_message d)) c \<noteq> None"
  shows "\<exists>w'. after_handler conv c p d (Ok ()) w = (Ok Processed, w')
    \<and> w_status w' (message_id (d_message d)) c = Some Completed
    \<and> (\<forall>j. j \<noteq> message_id (d_message d) \<longrightarrow> w_status w' j c = w_status w j c)"
proof -
  obtain r w1 where e: "mark_completed (mem_inbox conv) (message_id (d_message d)) c w = (r, w1)" by fastforce
  show ?thesis
    using mem_complete [OF e assms] e
    by (simp add: after_handler_def process_idempotent_with_retry_def mem_calls)
qed

lemma after_handler_fail:
  assumes "w_status w (message_id (d_message d)) c \<noteq> None"
  shows "\<exists>w' b ds. after_handler conv c p d (Err err) w = (Err (ProcessHandler err), w')
    \<and> w_status w' (message_id (d_message d)) c = Some InboxFailed
    \<and> (\<forall>j. j \<noteq> message_id (d_message d) \<longrightarrow> w_status w' j c = w_status w j c)
    \<and> w_broker w' = snd (br_nack d (d_attempt d < max_attempts p) (w_broker w))
    \<and> w_dlq w' = w_dlq w @ ds
    \<and> (if d_attempt d < max_attempts p then ds = []
       else \<exists>x. ds = [x] \<and> dl_message x = d_message d \<and> dl_reason x = err \<and> dl_attempts x = d_attempt d)"
proof -
  obtain r w1 where e: "inbox_mark_failed (mem_inbox conv) (message_id (d_message d)) c err w = (r, w1)" by fastforce
  show ?thesis
    using mem_inbox_fail [OF e assms] e
    by (cases "d_attempt d < max_attempts p")
      (auto simp: after_handler_def process_idempotent_with_retry_def mem_calls decide_def
        DeadLetterMessage_new_def)
qed

lemma process_status:
  assumes "inbox_free h" and "mem_process conv c p h d w = (r, w')"
  shows "(\<forall>j. j \<noteq> message_id (d_message d) \<longrightarrow> w_status w' j c = w_status w j c)
    \<and> (r = Ok Processed \<longrightarrow> w_status w' (message_id (d_message d)) c = Some Completed
          \<and> w_status w (message_id (d_message d)) c \<noteq> Some Completed)"
proof -
  let ?i = "message_id (d_message d)"
  obtain r0 w1 where b: "begin_processing (mem_inbox conv) ?i c w = (r0, w1)" by fastforce
  have frame: "\<forall>j. j \<noteq> ?i \<longrightarrow> w_status w1 j c = w_status w j c" using mem_begin [OF b] by blast
  consider (err) e where "r0 = Err e" | (dup) "r0 = Ok AlreadyCompleted" | (busy) "r0 = Ok AlreadyProcessing"
    | (run) dec where "r0 = Ok dec" "dec = StartProcessing \<or> dec = RetryPreviousFailure"
    by (cases r0) (metis IdempotencyDecision.exhaust)+
  then show ?thesis
  proof cases
    case run
    obtain rh w2 where h: "h d w1 = (rh, w2)" by fastforce
    have inb: "w_inbox w2 = w_inbox w1" using assms(1) h by (metis inbox_free_def snd_conv)
    note m = begin_may_run [OF b [unfolded run(1)] run(2)]
    have e: "after_handler conv c p d rh w2 = (r, w')"
      using process_split [where h = h and d = d, OF b [unfolded run(1)] run(2) h] assms(2) by simp
    show ?thesis
    proof (cases rh)
      case (Inl err)
      then show ?thesis using after_handler_fail [of w2 d c conv p err] m inb e frame by auto
    next
      case (Inr u)
      then show ?thesis using after_handler_ok [of w2 d c conv p] m inb e frame by auto
    qed
  qed (use b frame assms(2) in \<open>auto simp: process_idempotent_with_retry_def mem_calls\<close>)
qed

section \<open>At most once\<close>

fun process_all ::
    "(duration \<Rightarrow> string + duration) \<Rightarrow> string \<Rightarrow> RetryPolicy \<Rightarrow> World handler \<Rightarrow> Delivery list \<Rightarrow> World
     \<Rightarrow> (ProcessError + ProcessOutcome) list \<times> World" where
  "process_all conv c p h [] w = ([], w)"
| "process_all conv c p h (d # ds) w =
     (let (r, w1) = mem_process conv c p h d w; (rs, w2) = process_all conv c p h ds w1 in (r # rs, w2))"

definition processed_count :: "uuid \<Rightarrow> Delivery list \<Rightarrow> (ProcessError + ProcessOutcome) list \<Rightarrow> nat" where
  "processed_count i ds rs =
     length (filter (\<lambda>(d, r). message_id (d_message d) = i \<and> r = Ok Processed) (zip ds rs))"

lemma processed_count_Cons:
  "processed_count i (d # ds) (r # rs) =
     (if message_id (d_message d) = i \<and> r = Ok Processed then 1 else 0) + processed_count i ds rs"
  by (simp add: processed_count_def)

lemma process_all_completed:
  assumes "inbox_free h" and "w_status w i c = Some Completed"
  shows "processed_count i ds (fst (process_all conv c p h ds w)) = 0"
  using assms(2)
proof (induction ds arbitrary: w)
  case (Cons d ds)
  obtain r w1 where e: "mem_process conv c p h d w = (r, w1)" by fastforce
  obtain rs w2 where es: "process_all conv c p h ds w1 = (rs, w2)" by fastforce
  have "w_status w1 i c = Some Completed \<and> (message_id (d_message d) = i \<longrightarrow> r = Ok SkippedDuplicate)"
  proof (cases "message_id (d_message d) = i")
    case True
    then show ?thesis using process_completed [of w d c conv p h] Cons.prems e by auto
  next
    case False
    then show ?thesis using process_status [OF assms(1) e] Cons.prems by auto
  qed
  then show ?case using Cons.IH [of w1] e es by (auto simp: processed_count_Cons)
qed (simp add: processed_count_def)

text \<open>
  C2: A message is processed at most once per consumer: over any sequence of deliveries (any
  redeliveries of any messages, with any handler results in between, from any state of the inbox),
  at most one call for a given message reports it as processed.
\<close>

theorem processed_at_most_once:
  assumes "inbox_free h"
  shows "processed_count i ds (fst (process_all conv c p h ds w)) \<le> 1"
proof (induction ds arbitrary: w)
  case (Cons d ds)
  obtain r w1 where e: "mem_process conv c p h d w = (r, w1)" by fastforce
  obtain rs w2 where es: "process_all conv c p h ds w1 = (rs, w2)" by fastforce
  show ?case
  proof (cases "message_id (d_message d) = i \<and> r = Ok Processed")
    case True
    then have "w_status w1 i c = Some Completed" using process_status [OF assms e] by blast
    from process_all_completed [OF assms this, of ds conv p] show ?thesis
      using True e es by (simp add: processed_count_Cons)
  next
    case False
    then show ?thesis using Cons [of w1] e es by (auto simp: processed_count_Cons)
  qed
qed (simp add: processed_count_def)

theorem processed_at_most_once_witness:
  "processed_count 1 (replicate 2 (Delivery_new (Message_new 1 ''orders'' [] ''json'')))
     (fst (process_all Inr ''billing'' (RetryPolicy_new 3 0) (\<lambda>d w. (Ok (), w))
        (replicate 2 (Delivery_new (Message_new 1 ''orders'' [] ''json''))) (empty_world (\<lambda>_. None)))) \<le> 1"
  by (rule processed_at_most_once) (simp add: inbox_free_def)

section \<open>The retry budget\<close>

text \<open>One turn of a consumer's loop: take the next delivery of the topic and process it.\<close>

definition consume_step ::
    "(Delivery \<Rightarrow> (World, ProcessError, ProcessOutcome) op) \<Rightarrow> string \<Rightarrow> World \<Rightarrow> World" where
  "consume_step proc t w = (case next_delivery mem_consumer t w of
       (Inr (Some d), w1) \<Rightarrow> snd (proc d w1)
     | (_, w1) \<Rightarrow> w1)"

definition failing :: "string \<Rightarrow> World handler" where
  "failing err = (\<lambda>d w. (Err err, w))"

definition retriable :: "World \<Rightarrow> uuid \<Rightarrow> string \<Rightarrow> bool" where
  "retriable w i c \<longleftrightarrow> w_status w i c = None \<or> w_status w i c = Some InboxFailed"

abbreviation w_queue :: "World \<Rightarrow> string \<Rightarrow> Delivery list" where
  "w_queue w t \<equiv> br_queue (w_broker w) t"

lemma br_queue_nack [simp]:
  "br_queue (snd (br_nack d q b)) t =
     (if q \<and> t = topic (d_message d) then br_queue b t @ [d\<lparr>d_attempt := d_attempt d + 1\<rparr>] else br_queue b t)"
proof -
  have "br_queue (b\<lparr>br_nacked := x\<rparr>) t' = br_queue b t'" for x t' by (simp add: br_queue_def)
  then show ?thesis by (simp add: br_nack_def Let_def)
qed

lemma mem_next:
  "next_delivery mem_consumer t w = (case w_queue w t of
       [] \<Rightarrow> (Ok None, w)
     | d # ds \<Rightarrow> (Ok (Some d), w\<lparr>w_broker := (w_broker w)\<lparr>br_topics := dm_insert t ds (br_topics (w_broker w))\<rparr>\<rparr>))"
  by (simp add: mem_defs br_next_queue split: list.splits)

lemma consume_step_empty: "w_queue w t = [] \<Longrightarrow> consume_step proc t w = w"
  by (simp add: consume_step_def mem_next)

lemma begin_retriable:
  assumes "retriable w i c"
  obtains dec w1 where "begin_processing (mem_inbox conv) i c w = (Ok dec, w1)"
    and "dec = StartProcessing \<or> dec = RetryPreviousFailure"
    and "w_broker w1 = w_broker w" and "w_dlq w1 = w_dlq w" and "w_status w1 i c \<noteq> None"
proof -
  obtain r w1 where b: "begin_processing (mem_inbox conv) i c w = (r, w1)" by fastforce
  then obtain dec where r: "r = Ok dec" and dec: "dec = StartProcessing \<or> dec = RetryPreviousFailure"
    using mem_begin [OF b] assms by (auto simp: retriable_def)
  have "w_broker w1 = w_broker w" "w_dlq w1 = w_dlq w" using mem_begin [OF b] by simp_all
  then show ?thesis using that [OF b [unfolded r] dec] begin_may_run [OF b [unfolded r] dec] by simp
qed

lemma consume_failing:
  assumes "w_queue w t = [d]" and "topic (d_message d) = t" and "retriable w (message_id (d_message d)) c"
  shows "\<exists>w' ds. consume_step (mem_process conv c p (failing err)) t w = w'
    \<and> retriable w' (message_id (d_message d)) c \<and> w_dlq w' = w_dlq w @ ds
    \<and> (if d_attempt d < max_attempts p then w_queue w' t = [d\<lparr>d_attempt := d_attempt d + 1\<rparr>] \<and> ds = []
       else w_queue w' t = [] \<and> (\<exists>x. ds = [x] \<and> dl_message x = d_message d \<and> dl_reason x = err
              \<and> dl_attempts x = d_attempt d))"
proof -
  let ?w0 = "w\<lparr>w_broker := (w_broker w)\<lparr>br_topics := dm_insert t [] (br_topics (w_broker w))\<rparr>\<rparr>"
  have "retriable ?w0 (message_id (d_message d)) c" using assms(3) by (simp add: retriable_def)
  then obtain dec w1 where b: "begin_processing (mem_inbox conv) (message_id (d_message d)) c ?w0 = (Ok dec, w1)"
    and dec: "dec = StartProcessing \<or> dec = RetryPreviousFailure"
    and w1: "w_broker w1 = w_broker ?w0" "w_dlq w1 = w_dlq ?w0" "w_status w1 (message_id (d_message d)) c \<noteq> None"
    by (rule begin_retriable)
  have "failing err d w1 = (Err err, w1)" by (simp add: failing_def)
  note e = process_split [where h = "failing err" and d = d, OF b dec this, of p]
  show ?thesis
    using after_handler_fail [OF w1(3), of conv p err] assms(1,2) w1(1,2)
    by (auto simp: consume_step_def mem_next e retriable_def)
qed

text \<open>
  C11: A message whose handler always fails leaves the queue after its budget: starting from
  attempt \<open>a\<close>, after \<open>max_attempts - a + 1\<close> turns of the consumer's loop the queue is empty and exactly
  one dead letter has been added, carrying the message, the handler's error and the attempt count,
  and no further turn changes anything.
\<close>

theorem failing_message_is_parked:
  assumes "w_queue w t = [d]" and "topic (d_message d) = t" and "retriable w (message_id (d_message d)) c"
  shows "\<exists>x. dl_message x = d_message d \<and> dl_reason x = err \<and> dl_attempts x = max (d_attempt d) (max_attempts p)
    \<and> (\<forall>n > max_attempts p - d_attempt d.
         w_queue ((consume_step (mem_process conv c p (failing err)) t ^^ n) w) t = []
         \<and> w_dlq ((consume_step (mem_process conv c p (failing err)) t ^^ n) w) = w_dlq w @ [x])"
  using assms
proof (induction "max_attempts p - d_attempt d" arbitrary: d w)
  case 0
  let ?step = "consume_step (mem_process conv c p (failing err)) t"
  obtain x where x: "w_queue (?step w) t = []" "w_dlq (?step w) = w_dlq w @ [x]" "dl_message x = d_message d"
      "dl_reason x = err" "dl_attempts x = d_attempt d"
    using consume_failing [OF 0(2-4), of conv p err] 0(1) by auto
  have "(?step ^^ n) (?step w) = ?step w" for n
    by (induction n) (simp_all add: consume_step_empty [OF x(1)])
  then have "(?step ^^ n) w = ?step w" if "n > 0" for n
    using that by (cases n) (simp_all add: funpow_Suc_right del: funpow.simps)
  then show ?case using x 0(1) by (intro exI [of _ x]) auto
next
  case (Suc k)
  let ?step = "consume_step (mem_process conv c p (failing err)) t"
  let ?d = "d\<lparr>d_attempt := d_attempt d + 1\<rparr>"
  have q: "w_queue (?step w) t = [?d]" "w_dlq (?step w) = w_dlq w" "retriable (?step w) (message_id (d_message ?d)) c"
    using consume_failing [OF Suc(3-5), of conv p err] Suc(2) by auto
  have "k = max_attempts p - d_attempt ?d" using Suc(2) by simp
  from Suc(1) [OF this q(1) _ q(3)] Suc(4) obtain x where
    x: "dl_message x = d_message d" "dl_reason x = err" "dl_attempts x = max (d_attempt d + 1) (max_attempts p)"
      "\<forall>n > max_attempts p - (d_attempt d + 1). w_queue ((?step ^^ n) (?step w)) t = []
         \<and> w_dlq ((?step ^^ n) (?step w)) = w_dlq w @ [x]"
    using q(2) by auto
  have "w_queue ((?step ^^ n) w) t = [] \<and> w_dlq ((?step ^^ n) w) = w_dlq w @ [x]"
    if "n > max_attempts p - d_attempt d" for n
  proof -
    from that obtain m where m: "n = Suc m" by (cases n) auto
    then have "m > max_attempts p - (d_attempt d + 1)" using that Suc(2) by linarith
    then show ?thesis using x(4) by (simp add: m funpow_Suc_right del: funpow.simps)
  qed
  then show ?case using x Suc(2) by (intro exI [of _ x]) auto
qed

definition sample_delivery :: Delivery where
  "sample_delivery = Delivery_new (Message_new 1 ''orders'' [] ''json'')"

definition queued_world :: World where
  "queued_world = (empty_world (\<lambda>_. None))\<lparr>w_broker := br_push sample_delivery br_default\<rparr>"

lemma queued_world_facts:
  "w_queue queued_world ''orders'' = [sample_delivery]" "topic (d_message sample_delivery) = ''orders''"
  "retriable queued_world (message_id (d_message sample_delivery)) c"
  by (simp_all add: queued_world_def sample_delivery_def Delivery_new_def Message_new_def br_queue_def
      br_push_def br_default_def retriable_def empty_world_def ib_lookup_def ib_default_def)

theorem failing_message_is_parked_witness:
  "\<exists>x. dl_attempts x = 3
    \<and> w_dlq ((consume_step (mem_process Inr ''billing'' (RetryPolicy_new 3 0) (failing ''boom'')) ''orders'' ^^ 3)
         queued_world) = w_dlq queued_world @ [x]"
proof -
  obtain x where x: "dl_attempts x = max (d_attempt sample_delivery) (max_attempts (RetryPolicy_new 3 0))"
    "\<forall>n > max_attempts (RetryPolicy_new 3 0) - d_attempt sample_delivery.
       w_dlq ((consume_step (mem_process Inr ''billing'' (RetryPolicy_new 3 0) (failing ''boom'')) ''orders'' ^^ n)
         queued_world) = w_dlq queued_world @ [x]"
    using failing_message_is_parked [OF queued_world_facts] by metis
  show ?thesis using x(2) [rule_format, of 3] x(1)
    by (intro exI [of _ x] conjI) (simp_all add: sample_delivery_def Delivery_new_def RetryPolicy_new_def)
qed

lemma consume_failing_unbounded:
  assumes "w_queue w t = [d]" and "topic (d_message d) = t" and "retriable w (message_id (d_message d)) c"
  shows "w_queue (consume_step (mem_process_unbounded conv c (failing err)) t w) t = [d\<lparr>d_attempt := d_attempt d + 1\<rparr>]
    \<and> retriable (consume_step (mem_process_unbounded conv c (failing err)) t w) (message_id (d_message d)) c"
proof -
  let ?i = "message_id (d_message d)"
  let ?w0 = "w\<lparr>w_broker := (w_broker w)\<lparr>br_topics := dm_insert t [] (br_topics (w_broker w))\<rparr>\<rparr>"
  have "retriable ?w0 ?i c" using assms(3) by (simp add: retriable_def)
  then obtain dec w1 where b: "begin_processing (mem_inbox conv) ?i c ?w0 = (Ok dec, w1)"
    and dec: "dec = StartProcessing \<or> dec = RetryPreviousFailure"
    and w1: "w_broker w1 = w_broker ?w0" "w_status w1 ?i c \<noteq> None"
    by (rule begin_retriable)
  obtain r w2 where f: "inbox_mark_failed (mem_inbox conv) ?i c err w1 = (r, w2)" by fastforce
  note F = mem_inbox_fail [OF f w1(2)]
  have "mem_process_unbounded conv c (failing err) d ?w0
      = (Err (ProcessHandler err), w2\<lparr>w_broker := snd (br_nack d True (w_broker w2))\<rparr>)"
    using b dec f F by (auto simp: process_idempotent_def failing_def mem_calls)
  then show ?thesis
    using assms(1,2) F w1(1) by (simp add: consume_step_def mem_next retriable_def)
qed

text \<open>
  Without a retry policy there is no bound: after any number of turns of the loop over
  \<open>process_idempotent\<close> with a handler that always fails, the message is still the only one in the
  queue, with its attempt count increased by the number of turns.
\<close>

theorem unbounded_retry_never_ends:
  assumes "w_queue w t = [d]" and "topic (d_message d) = t" and "retriable w (message_id (d_message d)) c"
  shows "w_queue ((consume_step (mem_process_unbounded conv c (failing err)) t ^^ n) w) t
    = [d\<lparr>d_attempt := d_attempt d + n\<rparr>]"
proof -
  let ?step = "consume_step (mem_process_unbounded conv c (failing err)) t"
  have "w_queue ((?step ^^ n) w) t = [d\<lparr>d_attempt := d_attempt d + n\<rparr>]
      \<and> retriable ((?step ^^ n) w) (message_id (d_message d)) c"
  proof (induction n)
    case (Suc n)
    then show ?case
      using consume_failing_unbounded [of "(?step ^^ n) w" t "d\<lparr>d_attempt := d_attempt d + n\<rparr>" c conv err] assms(2)
      by simp
  qed (use assms in simp)
  then show ?thesis ..
qed

theorem unbounded_retry_never_ends_witness:
  "w_queue ((consume_step (mem_process_unbounded Inr ''billing'' (failing ''boom'')) ''orders'' ^^ 1000)
     queued_world) ''orders'' = [sample_delivery\<lparr>d_attempt := 1001\<rparr>]"
  using unbounded_retry_never_ends [OF queued_world_facts, where n = 1000 and err = "''boom''" and conv = Inr]
  by (simp add: sample_delivery_def Delivery_new_def)

section \<open>The outcomes of a call\<close>

text \<open>
  The outcome \<open>DeadLettered\<close> is never returned, by any adapters and handlers: when the budget
  of a failing message is spent, the call parks it, rejects the delivery without requeueing (it does
  not acknowledge it) and returns the handler's error.
\<close>

theorem dead_lettered_outcome_unused:
  "fst (process_idempotent_with_retry E S A Q c d p h w) \<noteq> Ok ConsumeDeadLettered
   \<and> (w_status w' (message_id (d_message d)) c \<noteq> None \<and> max_attempts p \<le> d_attempt d \<longrightarrow>
        (\<exists>w''. after_handler conv c p d (Err err) w' = (Err (ProcessHandler err), w'')
          \<and> was_nacked (w_broker w'') (message_id (d_message d))
          \<and> br_acked (w_broker w'') = br_acked (w_broker w') \<and> br_topics (w_broker w'') = br_topics (w_broker w')))"
proof
  show "fst (process_idempotent_with_retry E S A Q c d p h w) \<noteq> Ok ConsumeDeadLettered"
    by (auto simp: process_idempotent_with_retry_def ack_then_def nack_then_def complete_then_ack_def Let_def
        split: prod.splits sum.splits IdempotencyDecision.splits RetryDecision.splits)
  show "w_status w' (message_id (d_message d)) c \<noteq> None \<and> max_attempts p \<le> d_attempt d \<longrightarrow>
        (\<exists>w''. after_handler conv c p d (Err err) w' = (Err (ProcessHandler err), w'')
          \<and> was_nacked (w_broker w'') (message_id (d_message d))
          \<and> br_acked (w_broker w'') = br_acked (w_broker w') \<and> br_topics (w_broker w'') = br_topics (w_broker w'))"
    using after_handler_fail [of w' d c conv p err] by (auto simp: br_nack_def was_nacked_def Let_def)
qed

definition started_world :: World where
  "started_world = queued_world\<lparr>w_inbox := ib_put 1 ''billing'' (InboxMessage_processing 0 1 ''billing'') ib_default\<rparr>"

theorem dead_lettered_outcome_unused_witness:
  "\<exists>w''. after_handler Inr ''billing'' (RetryPolicy_new 1 0) sample_delivery (Err ''boom'') started_world
      = (Err (ProcessHandler ''boom''), w'') \<and> was_nacked (w_broker w'') 1"
proof -
  have "w_status started_world (message_id (d_message sample_delivery)) ''billing'' \<noteq> None
      \<and> max_attempts (RetryPolicy_new 1 0) \<le> d_attempt sample_delivery" by code_simp
  moreover have "message_id (d_message sample_delivery) = 1" by code_simp
  ultimately show ?thesis
    using dead_lettered_outcome_unused [where w' = started_world and d = sample_delivery and c = "''billing''"
        and p = "RetryPolicy_new 1 0" and err = "''boom''" and conv = Inr, THEN conjunct2] by auto
qed

definition later :: "World \<Rightarrow> World" where
  "later w = w\<lparr>w_clock := (\<lambda>_. 2 * DEFAULT_STALE_AFTER)\<rparr>"

definition budget_two :: RetryPolicy where
  "budget_two = RetryPolicy_new 2 0"

text \<open>
  Contention counts against the retry budget: while another consumer holds the lease of a
  message, a delivery of it is put back with its attempt count increased. With a budget of two, a
  message that was first delivered during such a lease is given up on the first failure of its
  handler after the lease has gone stale.
\<close>

theorem contention_consumes_budget:
  "fst (mem_process Inr ''billing'' budget_two (failing ''boom'') sample_delivery started_world) = Ok StillProcessing
   \<and> map d_attempt (w_queue (consume_step (mem_process Inr ''billing'' budget_two (failing ''boom'')) ''orders''
        started_world) ''orders'') = [2]
   \<and> map dl_attempts (w_dlq (consume_step (mem_process Inr ''billing'' budget_two (failing ''boom'')) ''orders''
        (later (consume_step (mem_process Inr ''billing'' budget_two (failing ''boom'')) ''orders'' started_world)))) = [2]"
proof (intro conjI)
qed code_simp+

end
