(* ===== verification/Versioned.thy ===== *)
theory Versioned
  imports Prelude
begin

text \<open>
  Optimistic concurrency as a contract: a store that accepts a write exactly when the writer's
  version is the stored one (or zero, when nothing is stored), and then stores the next version.
  The in-memory repository, the unit of work and the saga store are interpreted on it.
\<close>

text \<open>A sequence of writers saving one after another, in the order in which they take the entry;
  the result lists the accepted ones.\<close>

fun run_saves :: "('a \<Rightarrow> 's \<Rightarrow> bool \<times> 's) \<Rightarrow> 'a list \<Rightarrow> 's \<Rightarrow> 'a list \<times> 's" where
  "run_saves save [] s = ([], s)"
| "run_saves save (a # as) s =
     (let (ok, s1) = save a s; (accepted, s2) = run_saves save as s1
      in (if ok then a # accepted else accepted, s2))"

locale versioned_store =
  fixes stored :: "'s \<Rightarrow> 'i \<Rightarrow> nat option"
    and save :: "'a \<Rightarrow> 's \<Rightarrow> bool \<times> 's"
    and ident :: "'a \<Rightarrow> 'i"
    and ver :: "'a \<Rightarrow> nat"
  assumes accepts: "fst (save a s) \<longleftrightarrow> ver a = (case stored s (ident a) of None \<Rightarrow> 0 | Some v \<Rightarrow> v)"
    and stores: "fst (save a s) \<Longrightarrow>
      stored (snd (save a s)) i = (if i = ident a then Some (ver a + 1) else stored s i)"
    and rejects: "\<not> fst (save a s) \<Longrightarrow> snd (save a s) = s"
begin

text \<open>The version a writer must have to be accepted.\<close>

definition current :: "'s \<Rightarrow> 'i \<Rightarrow> nat" where
  "current s i = (case stored s i of None \<Rightarrow> 0 | Some v \<Rightarrow> v)"

lemma save_current:
  "current (snd (save a s)) i = (if fst (save a s) \<and> i = ident a then current s i + 1 else current s i)"
  using accepts [of a s] stores [of a s] rejects [of a s] by (auto simp: current_def)

text \<open>Of two writers that read the same version, at most one is accepted.\<close>

lemma race_one_winner:
  assumes "ident b = ident a" and "ver b = ver a" and "fst (save a s)"
  shows "\<not> fst (save b (snd (save a s)))"
  using assms accepts [of b "snd (save a s)"] stores [OF assms(3), of "ident a"] by simp

text \<open>After a lost race, reloading the stored version and saving again is accepted.\<close>

lemma reload_succeeds: "ver b = current s (ident b) \<Longrightarrow> fst (save b s)"
  by (simp add: accepts current_def)

lemma accepted_versions:
  "map ver (filter (\<lambda>a. ident a = i) (fst (run_saves save as s)))
     = [current s i ..< current (snd (run_saves save as s)) i]
   \<and> current s i \<le> current (snd (run_saves save as s)) i"
proof (induction as arbitrary: s)
  case (Cons a as)
  obtain ok s1 where e: "save a s = (ok, s1)" by fastforce
  obtain acc s2 where es: "run_saves save as s1 = (acc, s2)" by fastforce
  note IH = Cons [of s1, unfolded es]
  show ?case
  proof (cases "ok \<and> ident a = i")
    case True
    then have "current s1 i = current s i + 1" "ver a = current s i"
      using save_current [of a s i] accepts [of a s] e by (auto simp: current_def)
    then show ?thesis using IH True by (simp add: e es upt_rec)
  next
    case False
    then have "current s1 i = current s i" using save_current [of a s i] e by auto
    then show ?thesis using IH False by (auto simp: e es)
  qed
qed simp

end

end
