(* ===== verification/Aggregate.thy ===== *)
theory Aggregate
  imports Versioned
begin

text \<open>
  \<open>crates/pharos-core/src/aggregate.rs\<close>, \<open>entity.rs\<close>, \<open>errors.rs\<close>, \<open>classify.rs\<close>, \<open>repository.rs\<close>,
  the implementation that \<open>#[derive(AggregateRoot)]\<close> generates (\<open>crates/pharos-macros/src/lib.rs\<close>) and
  \<open>crates/pharos-memory/src/in_memory_repository.rs\<close>: pending domain events, the aggregate-root
  trait as a dictionary with its contract, error classification, and the in-memory repository
  with optimistic concurrency.
\<close>

section \<open>Pending events\<close>

record 'e AggregateEvents =
  ev_pending :: "'e list"

definition events_default :: "'e AggregateEvents" where
  "events_default = \<lparr>ev_pending = []\<rparr>"

definition raise :: "'e \<Rightarrow> 'e AggregateEvents \<Rightarrow> 'e AggregateEvents" where
  "raise e s = s\<lparr>ev_pending := ev_pending s @ [e]\<rparr>"

definition drain :: "'e AggregateEvents \<Rightarrow> 'e list \<times> 'e AggregateEvents" where
  "drain s = (ev_pending s, s\<lparr>ev_pending := []\<rparr>)"

definition restore :: "'e list \<Rightarrow> 'e AggregateEvents \<Rightarrow> 'e AggregateEvents" where
  "restore es s = (if es = [] then s
     else (let raised_since = ev_pending s in s\<lparr>ev_pending := es @ raised_since\<rparr>))"

section \<open>The aggregate-root trait\<close>

record ('a, 'i, 'e) AggregateRoot =
  ar_id :: "'a \<Rightarrow> 'i"
  pending_events :: "'a \<Rightarrow> 'e list"
  drain_events :: "'a \<Rightarrow> 'e list \<times> 'a"
  restore_events :: "'e list \<Rightarrow> 'a \<Rightarrow> 'a"
  version :: "'a \<Rightarrow> nat"
  set_version :: "nat \<Rightarrow> 'a \<Rightarrow> 'a"

text \<open>
  The contract the trait documents. \<open>state\<close> is everything else an aggregate holds: the operations
  on events and versions leave it alone.
\<close>

locale aggregate_root =
  fixes D :: "('a, 'i, 'e) AggregateRoot"
    and state :: "'a \<Rightarrow> 's"
  assumes drained: "fst (drain_events D a) = pending_events D a" "pending_events D (snd (drain_events D a)) = []"
    and restored: "pending_events D (restore_events D es a) = es @ pending_events D a"
    and versioned: "version D (set_version D n a) = n"
    and drain_frame: "version D (snd (drain_events D a)) = version D a" "ar_id D (snd (drain_events D a)) = ar_id D a"
      "state (snd (drain_events D a)) = state a"
    and restore_frame: "version D (restore_events D es a) = version D a" "ar_id D (restore_events D es a) = ar_id D a"
      "state (restore_events D es a) = state a"
    and version_frame: "pending_events D (set_version D n a) = pending_events D a" "ar_id D (set_version D n a) = ar_id D a"
      "state (set_version D n a) = state a"
    and determined: "ar_id D a = ar_id D b \<Longrightarrow> pending_events D a = pending_events D b \<Longrightarrow>
      version D a = version D b \<Longrightarrow> state a = state b \<Longrightarrow> a = b"
begin

lemmas frames = drained restored versioned drain_frame restore_frame version_frame

text \<open>Restoring what was drained gives the aggregate back, ahead of anything raised since.\<close>

lemma drain_restore: "restore_events D (fst (drain_events D a)) (snd (drain_events D a)) = a"
  by (rule determined) (simp_all add: frames)

lemma set_version_same: "set_version D (version D a) a = a"
  by (rule determined) (simp_all add: frames)

lemma set_version_some: "\<exists>n. a = set_version D n a"
  by (metis set_version_same)

lemma set_version_back: "version D a = n \<Longrightarrow> set_version D n (set_version D m a) = a"
  by (rule determined) (simp_all add: frames)

end

text \<open>What \<open>#[derive(AggregateRoot)]\<close> generates for a struct with id, events and version fields.\<close>

record ('i, 'e, 's) Aggregate =
  agg_id :: 'i
  agg_events :: "'e AggregateEvents"
  agg_version :: nat
  agg_data :: 's

definition derived_aggregate_root :: "(('i, 'e, 's) Aggregate, 'i, 'e) AggregateRoot" where
  "derived_aggregate_root = \<lparr>
     ar_id = agg_id,
     pending_events = (\<lambda>a. ev_pending (agg_events a)),
     drain_events = (\<lambda>a. let (es, s) = drain (agg_events a) in (es, a\<lparr>agg_events := s\<rparr>)),
     restore_events = (\<lambda>es a. a\<lparr>agg_events := restore es (agg_events a)\<rparr>),
     version = agg_version,
     set_version = (\<lambda>n a. a\<lparr>agg_version := n\<rparr>)\<rparr>"

interpretation derived: aggregate_root derived_aggregate_root "agg_data :: ('i, 'e, 's) Aggregate \<Rightarrow> 's"
  by unfold_locales
    (auto simp: derived_aggregate_root_def drain_def restore_def split: prod.splits
      intro!: Aggregate.equality AggregateEvents.equality)

section \<open>Error classification\<close>

datatype ErrorKind = NotFoundKind | ValidationKind | ConflictKind | UnauthorizedKind | ForbiddenKind
  | RateLimitedKind | UnavailableKind | InternalKind

datatype DomainError = NotFound string | Validation string | BusinessRule string | Conflict string

fun DomainError_to_string :: "DomainError \<Rightarrow> string" where
  "DomainError_to_string (NotFound m) = ''not found: '' @ m"
| "DomainError_to_string (Validation m) = ''validation: '' @ m"
| "DomainError_to_string (BusinessRule m) = ''business rule violation: '' @ m"
| "DomainError_to_string (Conflict m) = ''conflict: '' @ m"

fun DomainError_kind :: "DomainError \<Rightarrow> ErrorKind" where
  "DomainError_kind (NotFound _) = NotFoundKind"
| "DomainError_kind (Validation _) = ValidationKind"
| "DomainError_kind (BusinessRule _) = ConflictKind"
| "DomainError_kind (Conflict _) = ConflictKind"

definition DomainError_public_message :: "DomainError \<Rightarrow> string" where
  "DomainError_public_message e = DomainError_to_string e"

text \<open>An adapter's storage error is represented by its displayed text.\<close>

datatype RepositoryError = ConcurrencyConflict (expected: nat) (actual: "nat option") | RepositoryStorage string

definition debug_option_nat :: "nat option \<Rightarrow> string" where
  "debug_option_nat v = (case v of None \<Rightarrow> ''None'' | Some n \<Rightarrow> ''Some('' @ dec_string n @ '')'')"

definition conflict_text :: "nat \<Rightarrow> nat option \<Rightarrow> string" where
  "conflict_text e v = ''optimistic concurrency conflict: expected version '' @ dec_string e
     @ '', found '' @ debug_option_nat v"

fun RepositoryError_to_string :: "RepositoryError \<Rightarrow> string" where
  "RepositoryError_to_string (ConcurrencyConflict e v) = conflict_text e v"
| "RepositoryError_to_string (RepositoryStorage err) = err"

fun RepositoryError_kind :: "RepositoryError \<Rightarrow> ErrorKind" where
  "RepositoryError_kind (ConcurrencyConflict _ _) = ConflictKind"
| "RepositoryError_kind (RepositoryStorage _) = InternalKind"

fun RepositoryError_public_message :: "RepositoryError \<Rightarrow> string" where
  "RepositoryError_public_message (ConcurrencyConflict e v) = RepositoryError_to_string (ConcurrencyConflict e v)"
| "RepositoryError_public_message (RepositoryStorage _) = ''internal storage error''"

section \<open>The repository trait and the in-memory repository\<close>

text \<open>\<open>save\<close> takes the aggregate by mutable reference: it returns the aggregate as it leaves it.\<close>

record ('w, 'a, 'i) Repository =
  find_by_id :: "'i \<Rightarrow> ('w, string, 'a option) op"
  repo_save :: "'a \<Rightarrow> 'w \<Rightarrow> (RepositoryError + unit) \<times> 'a \<times> 'w"
  repo_delete :: "'i \<Rightarrow> ('w, string, unit) op"

definition snapshot_without_pending_events :: "('a, 'i, 'e) AggregateRoot \<Rightarrow> 'a \<Rightarrow> 'a" where
  "snapshot_without_pending_events D a = snd (drain_events D a)"

type_synonym ('i, 'a) InMemoryRepository = "('i, 'a) dashmap"

definition imr_len :: "('i, 'a) InMemoryRepository \<Rightarrow> nat" where
  "imr_len s = length s"

definition imr_is_empty :: "('i, 'a) InMemoryRepository \<Rightarrow> bool" where
  "imr_is_empty s \<longleftrightarrow> s = []"

definition imr_find_by_id :: "'i \<Rightarrow> (('i, 'a) InMemoryRepository, string, 'a option) op" where
  "imr_find_by_id i s = (Ok (dm_get s i), s)"

definition imr_save ::
    "('a, 'i, 'e) AggregateRoot \<Rightarrow> 'a \<Rightarrow> ('i, 'a) InMemoryRepository
     \<Rightarrow> (RepositoryError + unit) \<times> 'a \<times> ('i, 'a) InMemoryRepository" where
  "imr_save D a s =
     (let expected = version D a; new_version = expected + 1
      in case dm_get s (ar_id D a) of
           Some stored \<Rightarrow>
             (let actual = version D stored
              in if actual \<noteq> expected then (Err (ConcurrencyConflict expected (Some actual)), a, s)
                 else (let a' = set_version D new_version a
                       in (Ok (), a', dm_insert (ar_id D a) (snapshot_without_pending_events D a') s)))
         | None \<Rightarrow>
             if expected \<noteq> 0 then (Err (ConcurrencyConflict expected None), a, s)
             else (let a' = set_version D new_version a
                   in (Ok (), a', dm_insert (ar_id D a) (snapshot_without_pending_events D a') s)))"

definition imr_delete :: "'i \<Rightarrow> (('i, 'a) InMemoryRepository, string, unit) op" where
  "imr_delete i s = (Ok (), dm_remove i s)"

definition imr_repository ::
    "('a, 'i, 'e) AggregateRoot \<Rightarrow> (('i, 'a) InMemoryRepository, 'a, 'i) Repository" where
  "imr_repository D = \<lparr>find_by_id = imr_find_by_id, repo_save = imr_save D, repo_delete = imr_delete\<rparr>"

section \<open>Optimistic concurrency of the in-memory repository\<close>

definition imr_stored :: "('a, 'i, 'e) AggregateRoot \<Rightarrow> ('i, 'a) InMemoryRepository \<Rightarrow> 'i \<Rightarrow> nat option" where
  "imr_stored D s i = map_option (version D) (dm_get s i)"

definition imr_try_save ::
    "('a, 'i, 'e) AggregateRoot \<Rightarrow> 'a \<Rightarrow> ('i, 'a) InMemoryRepository \<Rightarrow> bool \<times> ('i, 'a) InMemoryRepository" where
  "imr_try_save D a s = (let (r, a', s') = imr_save D a s in (is_ok r, s'))"

context aggregate_root
begin

lemma imr_save_Ok:
  "imr_save D a s = (Ok (), a', s') \<longleftrightarrow>
     version D a = (case imr_stored D s (ar_id D a) of None \<Rightarrow> 0 | Some v \<Rightarrow> v)
     \<and> a' = set_version D (version D a + 1) a
     \<and> s' = dm_insert (ar_id D a) (snapshot_without_pending_events D a') s"
  by (auto simp: imr_save_def imr_stored_def Let_def split: option.splits)

lemma imr_save_Err:
  "imr_save D a s = (Err e, a', s') \<longleftrightarrow>
     version D a \<noteq> (case imr_stored D s (ar_id D a) of None \<Rightarrow> 0 | Some v \<Rightarrow> v) \<and> a' = a \<and> s' = s
     \<and> e = ConcurrencyConflict (version D a) (imr_stored D s (ar_id D a))"
  by (auto simp: imr_save_def imr_stored_def Let_def split: option.splits)

end

sublocale aggregate_root \<subseteq> imr: versioned_store "imr_stored D" "imr_try_save D" "ar_id D" "version D"
proof
  fix a s i
  obtain r a' s' where e: "imr_save D a s = (r, a', s')" by (metis prod.exhaust)
  have r: "r = Ok () \<or> (\<exists>x. r = Err x)" by (cases r) auto
  show "fst (imr_try_save D a s) \<longleftrightarrow> version D a = (case imr_stored D s (ar_id D a) of None \<Rightarrow> 0 | Some v \<Rightarrow> v)"
    using e r imr_save_Ok imr_save_Err by (auto simp: imr_try_save_def)
  show "fst (imr_try_save D a s) \<Longrightarrow> imr_stored D (snd (imr_try_save D a s)) i =
      (if i = ar_id D a then Some (version D a + 1) else imr_stored D s i)"
    using e r imr_save_Ok by (auto simp: imr_try_save_def imr_stored_def snapshot_without_pending_events_def frames)
  show "\<not> fst (imr_try_save D a s) \<Longrightarrow> snd (imr_try_save D a s) = s"
    using e r imr_save_Err by (auto simp: imr_try_save_def)
qed

section \<open>Properties of the in-memory repository\<close>

abbreviation derived_current :: "('i, ('i, 'e, 's) Aggregate) InMemoryRepository \<Rightarrow> 'i \<Rightarrow> nat" where
  "derived_current s i \<equiv> (case dm_get s i of None \<Rightarrow> 0 | Some a \<Rightarrow> agg_version a)"

lemma derived_sel [simp]:
  "ar_id derived_aggregate_root = agg_id" "version derived_aggregate_root = agg_version"
  "pending_events derived_aggregate_root a = ev_pending (agg_events a)"
  "set_version derived_aggregate_root n a = a\<lparr>agg_version := n\<rparr>"
  "drain_events derived_aggregate_root a = (ev_pending (agg_events a), a\<lparr>agg_events := events_default\<rparr>)"
  by (auto simp: derived_aggregate_root_def drain_def events_default_def intro!: Aggregate.equality AggregateEvents.equality)

lemma derived_current_eq: "derived.imr.current s i = derived_current s i"
  by (simp add: derived.imr.current_def imr_stored_def split: option.splits)

text \<open>
  C17: No update is lost: however any number of writers, each holding whatever version it read,
  save one after another to the in-memory repository, the versions of the accepted writes of an
  aggregate are consecutive, starting with the stored one (zero when there is none) and ending
  just below the version stored at the end; so of several writers that read the same version
  exactly at most one is accepted, and the stored version counts the accepted writes.
\<close>

theorem repository_no_lost_update:
  "map agg_version (filter (\<lambda>a. agg_id a = i) (fst (run_saves (imr_try_save derived_aggregate_root) writers s)))
     = [derived_current s i ..< derived_current (snd (run_saves (imr_try_save derived_aggregate_root) writers s)) i]"
  using derived.imr.accepted_versions [of i writers s] by (simp add: derived_current_eq)

text \<open>
  C33: A save is accepted exactly if the aggregate carries the stored version, zero for one that is not
  stored. After every accepted save, the first as any later one, \<open>find_by_id\<close> returns the saved
  aggregate at the next version without pending events, while the caller's copy keeps its pending
  events, and other aggregates are untouched; a refused save changes neither the store nor the
  caller's copy and reports both versions; a deleted aggregate is gone, and the others are not.
\<close>

theorem repository_save_find:
  "(case imr_save derived_aggregate_root a s of
      (Inr _, a', s') \<Rightarrow> agg_version a = derived_current s (agg_id a)
        \<and> a' = a\<lparr>agg_version := agg_version a + 1\<rparr>
        \<and> imr_find_by_id (agg_id a) s' = (Ok (Some (a'\<lparr>agg_events := events_default\<rparr>)), s')
        \<and> (\<forall>i. i \<noteq> agg_id a \<longrightarrow> fst (imr_find_by_id i s') = fst (imr_find_by_id i s))
    | (Inl e, a', s') \<Rightarrow> a' = a \<and> s' = s \<and> agg_version a \<noteq> derived_current s (agg_id a)
        \<and> e = ConcurrencyConflict (agg_version a) (map_option agg_version (dm_get s (agg_id a))))
   \<and> fst (imr_find_by_id j (snd (imr_delete i s))) = (if j = i then Ok None else fst (imr_find_by_id j s))"
  by (auto simp: imr_save_def imr_find_by_id_def imr_delete_def Let_def snapshot_without_pending_events_def
      split: option.splits)

theorem repository_save_find_witness:
  "imr_find_by_id (1 :: nat) (snd (snd (imr_save derived_aggregate_root
      \<lparr>agg_id = 1, agg_events = \<lparr>ev_pending = [''placed'']\<rparr>, agg_version = 0, agg_data = ()\<rparr> [])))
    = (Ok (Some \<lparr>agg_id = 1, agg_events = events_default, agg_version = 1, agg_data = ()\<rparr>),
       snd (snd (imr_save derived_aggregate_root
         \<lparr>agg_id = 1, agg_events = \<lparr>ev_pending = [''placed'']\<rparr>, agg_version = 0, agg_data = ()\<rparr> [])))"
proof -
  let ?a = "\<lparr>agg_id = 1 :: nat, agg_events = \<lparr>ev_pending = [''placed'']\<rparr>, agg_version = 0, agg_data = ()\<rparr>"
  obtain a' s' where e: "imr_save derived_aggregate_root ?a [] = (Ok (), a', s')"
    by (simp add: imr_save_def Let_def)
  from repository_save_find [of ?a "[]" 1 1] show ?thesis unfolding e by simp
qed

end
