(* ===== verification/Event_Sourcing.thy ===== *)
theory Event_Sourcing
  imports Aggregate
begin

text \<open>
  \<open>crates/pharos-es/src/lib.rs\<close> and \<open>crates/pharos-memory/src/in_memory_event_store.rs\<close>: append-only
  streams, rehydration by replay, the snapshotting repository, and the in-memory stores. The
  snapshots are shown to be transparent under every interleaving of loads, saves and delayed
  snapshot writes.
\<close>

section \<open>Streams and snapshots\<close>

record 'e StoredEvent =
  se_sequence :: nat
  se_event :: 'e
  se_recorded_at :: instant

definition StoredEvent_new :: "instant \<Rightarrow> nat \<Rightarrow> 'e \<Rightarrow> 'e StoredEvent" where
  "StoredEvent_new now sequence ev = \<lparr>se_sequence = sequence, se_event = ev, se_recorded_at = now\<rparr>"

text \<open>\<open>EventSourced\<close> with the \<open>Default\<close> that rehydration starts from.\<close>

record ('a, 'e) EventSourced =
  apply_event :: "'e \<Rightarrow> 'a \<Rightarrow> 'a"
  default_aggregate :: 'a

record ('w, 'i, 'e) EventStore =
  es_load :: "'i \<Rightarrow> ('w, string, 'e StoredEvent list) op"
  es_load_after :: "'i \<Rightarrow> nat \<Rightarrow> ('w, string, 'e StoredEvent list) op"
  es_append :: "'i \<Rightarrow> nat \<Rightarrow> 'e list \<Rightarrow> ('w, RepositoryError, unit) op"
  es_delete_stream :: "'i \<Rightarrow> ('w, string, unit) op"

text \<open>The provided method \<open>load_after\<close>.\<close>

definition default_load_after ::
    "('i \<Rightarrow> ('w, string, 'e StoredEvent list) op) \<Rightarrow> 'i \<Rightarrow> nat \<Rightarrow> ('w, string, 'e StoredEvent list) op" where
  "default_load_after load i after w =
     (case load i w of
        (Inl e, w') \<Rightarrow> (Err e, w')
      | (Inr events, w') \<Rightarrow> (Ok (filter (\<lambda>st. after < se_sequence st) events), w'))"

record 's Snapshot =
  sn_state :: 's
  sn_version :: nat
  sn_taken_at :: instant
  sn_schema_version :: nat

definition Snapshot_new :: "instant \<Rightarrow> 's \<Rightarrow> nat \<Rightarrow> 's Snapshot" where
  "Snapshot_new now st v = \<lparr>sn_state = st, sn_version = v, sn_taken_at = now, sn_schema_version = 0\<rparr>"

definition with_schema_version :: "nat \<Rightarrow> 's Snapshot \<Rightarrow> 's Snapshot" where
  "with_schema_version v sn = sn\<lparr>sn_schema_version := v\<rparr>"

record ('w, 'i, 's) SnapshotStore =
  ss_load :: "'i \<Rightarrow> ('w, string, 's Snapshot option) op"
  ss_save :: "'i \<Rightarrow> 's Snapshot \<Rightarrow> ('w, string, unit) op"

section \<open>The repositories\<close>

text \<open>The replay loop: the aggregate and the sequence of the last event applied.\<close>

fun replay :: "('a, 'e) EventSourced \<Rightarrow> 'e StoredEvent list \<Rightarrow> 'a \<Rightarrow> nat \<Rightarrow> 'a \<times> nat" where
  "replay Ev [] a v = (a, v)"
| "replay Ev (st # sts) a v = replay Ev sts (apply_event Ev (se_event st) a) (se_sequence st)"

definition esr_find_by_id ::
    "('a, 'i, 'e) AggregateRoot \<Rightarrow> ('a, 'e) EventSourced \<Rightarrow> ('w, 'i, 'e) EventStore
     \<Rightarrow> 'i \<Rightarrow> ('w, string, 'a option) op" where
  "esr_find_by_id D Ev St i w =
     (case es_load St i w of
        (Inl e, w') \<Rightarrow> (Err e, w')
      | (Inr events, w') \<Rightarrow>
          if events = [] then (Ok None, w')
          else (let (a, v) = replay Ev events (default_aggregate Ev) 0 in (Ok (Some (set_version D v a)), w')))"

text \<open>The pending events are drained before the append; an error returns the drained aggregate.\<close>

definition esr_save ::
    "('a, 'i, 'e) AggregateRoot \<Rightarrow> ('w, 'i, 'e) EventStore \<Rightarrow> 'a \<Rightarrow> 'w \<Rightarrow> (RepositoryError + unit) \<times> 'a \<times> 'w" where
  "esr_save D St a w =
     (let expected_version = version D a;
          (events, a1) = drain_events D a;
          event_count = length events
      in case es_append St (ar_id D a1) expected_version events w of
           (Inl e, w') \<Rightarrow> (Err e, a1, w')
         | (Inr _, w') \<Rightarrow> (Ok (), set_version D (expected_version + event_count) a1, w'))"

definition esr_delete :: "('w, 'i, 'e) EventStore \<Rightarrow> 'i \<Rightarrow> ('w, string, unit) op" where
  "esr_delete St i w = es_delete_stream St i w"

definition clamp_snapshot_every :: "nat \<Rightarrow> nat" where
  "clamp_snapshot_every every = max every 1"

definition ser_find_by_id ::
    "('a, 'i, 'e) AggregateRoot \<Rightarrow> ('a, 'e) EventSourced \<Rightarrow> ('w, 'i, 'e) EventStore \<Rightarrow> ('w, 'i, 'a) SnapshotStore
     \<Rightarrow> 'i \<Rightarrow> ('w, string, 'a option) op" where
  "ser_find_by_id D Ev St Sn i w =
     (let (snapshot, w1) = (case ss_load Sn i w of (Inl _, w1) \<Rightarrow> (None, w1) | (Inr sn, w1) \<Rightarrow> (sn, w1));
          (a0, v0) = (case snapshot of Some sn \<Rightarrow> (sn_state sn, sn_version sn) | None \<Rightarrow> (default_aggregate Ev, 0))
      in case es_load_after St i v0 w1 of
           (Inl e, w2) \<Rightarrow> (Err e, w2)
         | (Inr events, w2) \<Rightarrow>
             if v0 = 0 \<and> events = [] then (Ok None, w2)
             else (let (a, v) = replay Ev events a0 v0 in (Ok (Some (set_version D v a)), w2)))"

text \<open>Whether the stream grew past a snapshot boundary, and the best-effort refresh.\<close>

definition crosses_boundary :: "nat \<Rightarrow> nat \<Rightarrow> nat \<Rightarrow> bool" where
  "crosses_boundary every old_version new_version \<longleftrightarrow> old_version div every < new_version div every"

definition ser_save ::
    "'w Env \<Rightarrow> ('a, 'i, 'e) AggregateRoot \<Rightarrow> nat \<Rightarrow> ('w, 'i, 'e) EventStore \<Rightarrow> ('w, 'i, 'a) SnapshotStore
     \<Rightarrow> 'a \<Rightarrow> 'w \<Rightarrow> (RepositoryError + unit) \<times> 'a \<times> 'w" where
  "ser_save E D every St Sn a w =
     (let expected_version = version D a
      in case esr_save D St a w of
           (Inl e, a1, w1) \<Rightarrow> (Err e, a1, w1)
         | (Inr _, a1, w1) \<Rightarrow>
             if crosses_boundary every expected_version (version D a1)
             then (let (now, w2) = utc_now E w1
                   in (Ok (), a1, snd (ss_save Sn (ar_id D a1) (Snapshot_new now a1 (version D a1)) w2)))
             else (Ok (), a1, w1))"

definition ser_delete :: "('w, 'i, 'e) EventStore \<Rightarrow> 'i \<Rightarrow> ('w, string, unit) op" where
  "ser_delete St i w = es_delete_stream St i w"

section \<open>The in-memory stores\<close>

type_synonym ('i, 'e) InMemoryEventStore = "('i, 'e StoredEvent list) dashmap"
type_synonym ('i, 's) InMemorySnapshotStore = "('i, 's Snapshot) dashmap"

definition ies_load :: "'i \<Rightarrow> (('i, 'e) InMemoryEventStore, string, 'e StoredEvent list) op" where
  "ies_load i s = (Ok (case dm_get s i of Some stream \<Rightarrow> stream | None \<Rightarrow> []), s)"

text \<open>The push loop; \<open>now k\<close> is the \<open>k\<close>-th reading of the clock.\<close>

fun ies_push :: "(nat \<Rightarrow> instant) \<Rightarrow> nat \<Rightarrow> nat \<Rightarrow> 'e list \<Rightarrow> 'e StoredEvent list \<Rightarrow> 'e StoredEvent list" where
  "ies_push now k sequence [] stream = stream"
| "ies_push now k sequence (ev # evs) stream =
     ies_push now (k + 1) (sequence + 1) evs (stream @ [StoredEvent_new (now k) (sequence + 1) ev])"

definition ies_enumerate :: "(nat \<Rightarrow> instant) \<Rightarrow> 'e list \<Rightarrow> 'e StoredEvent list" where
  "ies_enumerate now events = map (\<lambda>(k, ev). StoredEvent_new (now k) (k + 1) ev) (zip [0..<length events] events)"

definition ies_append ::
    "(nat \<Rightarrow> instant) \<Rightarrow> 'i \<Rightarrow> nat \<Rightarrow> 'e list \<Rightarrow> (('i, 'e) InMemoryEventStore, RepositoryError, unit) op" where
  "ies_append now i expected_version events s =
     (case dm_get s i of
        Some stream \<Rightarrow>
          (let actual = length stream
           in if actual \<noteq> expected_version then (Err (ConcurrencyConflict expected_version (Some actual)), s)
              else (Ok (), dm_insert i (ies_push now 0 actual events stream) s))
      | None \<Rightarrow>
          if expected_version \<noteq> 0 then (Err (ConcurrencyConflict expected_version None), s)
          else (Ok (), dm_insert i (ies_enumerate now events) s))"

definition ies_delete_stream :: "'i \<Rightarrow> (('i, 'e) InMemoryEventStore, string, unit) op" where
  "ies_delete_stream i s = (Ok (), dm_remove i s)"

definition iss_load :: "'i \<Rightarrow> (('i, 's) InMemorySnapshotStore, string, 's Snapshot option) op" where
  "iss_load i s = (Ok (dm_get s i), s)"

definition iss_save :: "'i \<Rightarrow> 's Snapshot \<Rightarrow> (('i, 's) InMemorySnapshotStore, string, unit) op" where
  "iss_save i sn s = (Ok (), dm_insert i sn s)"

text \<open>Both stores with a clock, and their dictionaries.\<close>

record ('i, 'e, 'a) EsWorld =
  ew_streams :: "('i, 'e) InMemoryEventStore"
  ew_snapshots :: "('i, 'a) InMemorySnapshotStore"
  ew_clock :: "nat \<Rightarrow> instant"
  ew_tick :: nat

definition ew_env :: "('i, 'e, 'a) EsWorld Env" where
  "ew_env = \<lparr>utc_now = (\<lambda>w. (ew_clock w (ew_tick w), w\<lparr>ew_tick := ew_tick w + 1\<rparr>)),
     now_v7 = (\<lambda>w. (0, w)), random_f64 = (\<lambda>w. (0, w)), from_std = Inr\<rparr>"

definition ew_load :: "'i \<Rightarrow> (('i, 'e, 'a) EsWorld, string, 'e StoredEvent list) op" where
  "ew_load i w = (fst (ies_load i (ew_streams w)), w)"

definition ew_store :: "(('i, 'e, 'a) EsWorld, 'i, 'e) EventStore" where
  "ew_store = \<lparr>es_load = ew_load, es_load_after = default_load_after ew_load,
     es_append = (\<lambda>i v evs w. let (r, s) = ies_append (\<lambda>k. ew_clock w (ew_tick w + k)) i v evs (ew_streams w)
                             in (r, w\<lparr>ew_streams := s, ew_tick := ew_tick w + length evs\<rparr>)),
     es_delete_stream = (\<lambda>i w. let (r, s) = ies_delete_stream i (ew_streams w) in (r, w\<lparr>ew_streams := s\<rparr>))\<rparr>"

definition ew_snapshot_store :: "(('i, 'e, 'a) EsWorld, 'i, 'a) SnapshotStore" where
  "ew_snapshot_store = \<lparr>ss_load = (\<lambda>i w. let (r, s) = iss_load i (ew_snapshots w) in (r, w\<lparr>ew_snapshots := s\<rparr>)),
     ss_save = (\<lambda>i sn w. let (r, s) = iss_save i sn (ew_snapshots w) in (r, w\<lparr>ew_snapshots := s\<rparr>))\<rparr>"

section \<open>The contract of an event store\<close>

text \<open>
  \<open>stream w i\<close> is the history of stream \<open>i\<close>; sequence numbers count from one. An append is accepted
  exactly at the length of the stream.
\<close>

locale event_store =
  fixes St :: "('w, 'i, 'e) EventStore"
    and stream :: "'w \<Rightarrow> 'i \<Rightarrow> 'e list"
    and inv :: "'w \<Rightarrow> bool"
  assumes load_law: "inv w \<Longrightarrow> es_load St i w = (r, w') \<Longrightarrow> inv w' \<and> stream w' = stream w
      \<and> (\<exists>evs. r = Ok evs \<and> map se_event evs = stream w i \<and> map se_sequence evs = [1..<length (stream w i) + 1])"
    and load_after_law: "inv w \<Longrightarrow> es_load_after St i n w = (r, w') \<Longrightarrow> inv w' \<and> stream w' = stream w
      \<and> (\<exists>evs. r = Ok evs \<and> map se_event evs = drop n (stream w i) \<and> map se_sequence evs = [n + 1..<length (stream w i) + 1])"
    and append_law: "inv w \<Longrightarrow> es_append St i v new w = (ra, w') \<Longrightarrow> inv w' \<and>
      (if v = length (stream w i) then ra = Ok () \<and> stream w' = (stream w)(i := stream w i @ new)
       else (\<exists>x. ra = Err (ConcurrencyConflict v x)) \<and> stream w' = stream w)"

text \<open>The aggregate that a history stands for.\<close>

definition rehydrated :: "('a, 'i, 'e) AggregateRoot \<Rightarrow> ('a, 'e) EventSourced \<Rightarrow> 'e list \<Rightarrow> 'a option" where
  "rehydrated D Ev evs = (if evs = [] then None
     else Some (set_version D (length evs) (fold (apply_event Ev) evs (default_aggregate Ev))))"

lemma replay_fold:
  "replay Ev sts a v = (fold (apply_event Ev) (map se_event sts) a, if sts = [] then v else se_sequence (last sts))"
  by (induction sts arbitrary: a v) auto

lemma replay_from:
  assumes "map se_sequence sts = [n + 1..<m + 1]" and "n \<le> m"
  shows "replay Ev sts a n = (fold (apply_event Ev) (map se_event sts) a, m)"
proof (cases "sts = []")
  case True
  then show ?thesis using assms by (simp split: if_splits)
next
  case False
  then have "n < m" using assms by (metis Suc_eq_plus1 Suc_leI le_neq_implies_less map_is_Nil_conv order_refl upt_conv_Nil)
  then have "se_sequence (last sts) = m" using assms False by (metis Suc_eq_plus1 Suc_leI last_map last_upt less_Suc_eq_le not_less_eq upt_rec diff_Suc_1)
  then show ?thesis using False by (simp add: replay_fold)
qed

context event_store
begin

lemma find_rehydrates:
  assumes "inv w"
  shows "fst (esr_find_by_id D Ev St i w) = Ok (rehydrated D Ev (stream w i))"
proof -
  obtain r w' where e: "es_load St i w = (r, w')" by fastforce
  obtain evs where l: "r = Ok evs" "map se_event evs = stream w i" "map se_sequence evs = [0 + 1..<length (stream w i) + 1]"
    using load_law [OF assms e] by auto
  from l(2) have "evs = [] \<longleftrightarrow> stream w i = []" by (metis map_is_Nil_conv)
  then show ?thesis using l e replay_from [OF l(3), of Ev "default_aggregate Ev"]
    by (simp add: esr_find_by_id_def rehydrated_def)
qed

end

text \<open>
  An event-sourced aggregate: applying an event changes only what the aggregate holds, and depends
  only on it.
\<close>

locale event_sourced = aggregate_root D state
  for D :: "('a, 'i, 'e) AggregateRoot" and state :: "'a \<Rightarrow> 's" +
  fixes Ev :: "('a, 'e) EventSourced"
    and raise_event :: "'e \<Rightarrow> 'a \<Rightarrow> 'a"
  assumes apply_frame: "version D (apply_event Ev e a) = version D a" "pending_events D (apply_event Ev e a) = pending_events D a"
    and apply_content: "ar_id D a = ar_id D b \<Longrightarrow> state a = state b \<Longrightarrow>
      ar_id D (apply_event Ev e a) = ar_id D (apply_event Ev e b) \<and> state (apply_event Ev e a) = state (apply_event Ev e b)"
    and default_law: "version D (default_aggregate Ev) = 0" "pending_events D (default_aggregate Ev) = []"
    and raise_law: "pending_events D (raise_event e a) = pending_events D a @ [e]" "version D (raise_event e a) = version D a"
      "ar_id D (raise_event e a) = ar_id D a" "state (raise_event e a) = state a"
begin

definition same :: "'a \<Rightarrow> 'a \<Rightarrow> bool" where
  "same a b \<longleftrightarrow> ar_id D a = ar_id D b \<and> state a = state b"

lemma same_refl [simp]: "same a a"
  by (simp add: same_def)

lemma same_apply: "same a b \<Longrightarrow> same (apply_event Ev e a) (apply_event Ev e b)"
  using apply_content [of a b e] by (simp add: same_def)

lemma same_fold: "same a b \<Longrightarrow> same (fold (apply_event Ev) evs a) (fold (apply_event Ev) evs b)"
  by (induction evs arbitrary: a b) (simp_all add: same_apply)

lemma fold_frame: "version D (fold (apply_event Ev) evs a) = version D a"
    "pending_events D (fold (apply_event Ev) evs a) = pending_events D a"
  by (induction evs arbitrary: a) (simp_all add: apply_frame)

lemma set_version_same_content: "same a b \<Longrightarrow> pending_events D a = pending_events D b \<Longrightarrow> set_version D n a = set_version D n b"
  by (rule determined) (simp_all add: frames same_def)

text \<open>What an aggregate holds is what its history gives.\<close>

abbreviation history :: "'e list \<Rightarrow> 'a" where
  "history evs \<equiv> fold (apply_event Ev) evs (default_aggregate Ev)"

end

section \<open>Snapshots under interleaving\<close>

text \<open>
  The states reachable by any number of clients: aggregates are created, loaded, changed by
  raising and applying events, and saved; a snapshot that a save has decided to take is written at
  any later moment, possibly more than once or never. The components are the stores, the live
  aggregates and the snapshots on their way.
\<close>

inductive es_reach ::
    "'w Env \<Rightarrow> ('a, 'i, 'e) AggregateRoot \<Rightarrow> ('a, 'e) EventSourced \<Rightarrow> ('e \<Rightarrow> 'a \<Rightarrow> 'a) \<Rightarrow> nat
     \<Rightarrow> ('w, 'i, 'e) EventStore \<Rightarrow> ('w, 'i, 'a) SnapshotStore \<Rightarrow> 'w
     \<Rightarrow> 'w \<Rightarrow> 'a set \<Rightarrow> ('i \<times> 'a Snapshot) set \<Rightarrow> bool"
  for E :: "'w Env" and D :: "('a, 'i, 'e) AggregateRoot" and Ev :: "('a, 'e) EventSourced"
    and raise_event :: "'e \<Rightarrow> 'a \<Rightarrow> 'a" and every :: nat and St :: "('w, 'i, 'e) EventStore"
    and Sn :: "('w, 'i, 'a) SnapshotStore" and w0 :: 'w where
  es_start: "es_reach E D Ev raise_event every St Sn w0 w0 {} {}"
| es_create: "es_reach E D Ev raise_event every St Sn w0 w L F \<Longrightarrow>
    es_reach E D Ev raise_event every St Sn w0 w (insert (default_aggregate Ev) L) F"
| es_find: "es_reach E D Ev raise_event every St Sn w0 w L F \<Longrightarrow>
    ser_find_by_id D Ev St Sn i w = (Ok (Some a), w') \<Longrightarrow>
    es_reach E D Ev raise_event every St Sn w0 w' (insert a L) F"
| es_decide: "es_reach E D Ev raise_event every St Sn w0 w L F \<Longrightarrow> a \<in> L \<Longrightarrow>
    a = default_aggregate Ev \<or> ar_id D (apply_event Ev e a) = ar_id D a \<Longrightarrow>
    es_reach E D Ev raise_event every St Sn w0 w (insert (raise_event e (apply_event Ev e a)) L) F"
| es_save: "es_reach E D Ev raise_event every St Sn w0 w L F \<Longrightarrow> a \<in> L \<Longrightarrow>
    esr_save D St a w = (Ok (), a', w') \<Longrightarrow>
    es_reach E D Ev raise_event every St Sn w0 w' (insert a' L)
      (if crosses_boundary every (version D a) (version D a')
       then insert (ar_id D a', Snapshot_new (fst (utc_now E w')) a' (version D a')) F else F)"
| es_save_failed: "es_reach E D Ev raise_event every St Sn w0 w L F \<Longrightarrow> a \<in> L \<Longrightarrow>
    esr_save D St a w = (Err x, a', w') \<Longrightarrow>
    es_reach E D Ev raise_event every St Sn w0 w' (insert a' L) F"
| es_clock: "es_reach E D Ev raise_event every St Sn w0 w L F \<Longrightarrow>
    es_reach E D Ev raise_event every St Sn w0 (snd (utc_now E w)) L F"
| es_snapshot: "es_reach E D Ev raise_event every St Sn w0 w L F \<Longrightarrow> (i, sn) \<in> F \<Longrightarrow>
    es_reach E D Ev raise_event every St Sn w0 (snd (ss_save Sn i sn w)) L F"

text \<open>The stores together: reading and writing snapshots leaves the streams alone and conversely.\<close>

locale snapshotting = event_store St stream inv + event_sourced D state Ev raise_event
  for St :: "('w, 'i, 'e) EventStore" and stream :: "'w \<Rightarrow> 'i \<Rightarrow> 'e list" and inv :: "'w \<Rightarrow> bool"
    and D :: "('a, 'i, 'e) AggregateRoot" and state :: "'a \<Rightarrow> 's" and Ev :: "('a, 'e) EventSourced"
    and raise_event :: "'e \<Rightarrow> 'a \<Rightarrow> 'a" +
  fixes E :: "'w Env"
    and Sn :: "('w, 'i, 'a) SnapshotStore"
    and snap :: "'w \<Rightarrow> 'i \<Rightarrow> 'a Snapshot option"
  assumes ss_load_law: "inv w \<Longrightarrow> ss_load Sn i w = (r, w') \<Longrightarrow> inv w' \<and> stream w' = stream w \<and> snap w' = snap w
      \<and> ((\<exists>x. r = Err x) \<or> r = Ok (snap w i))"
    and ss_save_law: "inv w \<Longrightarrow> ss_save Sn i sn w = (rs, w') \<Longrightarrow> inv w' \<and> stream w' = stream w
      \<and> (snap w' = (snap w)(i := Some sn) \<or> snap w' = snap w)"
    and clock_law: "inv w \<Longrightarrow> inv (snd (utc_now E w)) \<and> stream (snd (utc_now E w)) = stream w \<and> snap (snd (utc_now E w)) = snap w"
    and append_snap: "inv w \<Longrightarrow> es_append St i v new w = (ra, w') \<Longrightarrow> snap w' = snap w"
    and load_after_snap: "inv w \<Longrightarrow> es_load_after St i n w = (rl, w') \<Longrightarrow> snap w' = snap w"
begin

text \<open>A snapshot is a moment of the history of its stream.\<close>

definition snap_ok :: "'w \<Rightarrow> 'i \<Rightarrow> 'a Snapshot \<Rightarrow> bool" where
  "snap_ok w i sn \<longleftrightarrow> 0 < sn_version sn \<and> sn_version sn \<le> length (stream w i)
     \<and> same (sn_state sn) (history (take (sn_version sn) (stream w i))) \<and> pending_events D (sn_state sn) = []"

text \<open>
  A live aggregate holds the history it was loaded at followed by its pending events, or is behind
  its stream and will never be accepted again.
\<close>

definition tracks :: "'w \<Rightarrow> 'a \<Rightarrow> bool" where
  "tracks w a \<longleftrightarrow> version D a < length (stream w (ar_id D a))
     \<or> version D a = length (stream w (ar_id D a)) \<and> same a (history (stream w (ar_id D a) @ pending_events D a))
     \<or> a = default_aggregate Ev"

definition sound :: "'w \<Rightarrow> 'a set \<Rightarrow> ('i \<times> 'a Snapshot) set \<Rightarrow> bool" where
  "sound w L F \<longleftrightarrow> inv w \<and> (\<forall>i sn. snap w i = Some sn \<longrightarrow> snap_ok w i sn)
     \<and> (\<forall>(i, sn) \<in> F. snap_ok w i sn) \<and> (\<forall>a \<in> L. tracks w a)
     \<and> (\<forall>i. stream w i \<noteq> [] \<longrightarrow> ar_id D (history (stream w i)) = i)"

lemma snap_ok_extend: "snap_ok w i sn \<Longrightarrow> stream w' i = stream w i @ new \<Longrightarrow> snap_ok w' i sn"
  by (auto simp: snap_ok_def)

lemma rehydrated_from_snapshot:
  assumes "snap_ok w i sn"
  shows "set_version D n (fold (apply_event Ev) (drop (sn_version sn) (stream w i)) (sn_state sn))
    = set_version D n (history (stream w i))"
proof (rule set_version_same_content)
  have "history (stream w i) = fold (apply_event Ev) (drop (sn_version sn) (stream w i)) (history (take (sn_version sn) (stream w i)))"
    by (metis append_take_drop_id comp_apply fold_append)
  then show "same (fold (apply_event Ev) (drop (sn_version sn) (stream w i)) (sn_state sn)) (history (stream w i))"
    using assms same_fold by (simp add: snap_ok_def)
  show "pending_events D (fold (apply_event Ev) (drop (sn_version sn) (stream w i)) (sn_state sn))
      = pending_events D (history (stream w i))"
    using assms by (simp add: fold_frame default_law snap_ok_def)
qed

text \<open>Loading through a snapshot, or falling back when the snapshot cannot be read.\<close>

lemma snapshot_find:
  assumes "inv w" and ok: "\<And>sn. snap w i = Some sn \<Longrightarrow> snap_ok w i sn"
    and find: "ser_find_by_id D Ev St Sn i w = (r, w')"
  shows "r = Ok (rehydrated D Ev (stream w i)) \<and> inv w' \<and> stream w' = stream w \<and> snap w' = snap w"
proof -
  obtain rs w1 where e1: "ss_load Sn i w = (rs, w1)" by fastforce
  note l1 = ss_load_law [OF assms(1) e1]
  define sn where "sn = (case rs of Inl _ \<Rightarrow> None | Inr s \<Rightarrow> s)"
  have sn: "sn = None \<or> sn = snap w i" using l1 by (auto simp: sn_def)
  define a0 v0 where "a0 = (case sn of Some s \<Rightarrow> sn_state s | None \<Rightarrow> default_aggregate Ev)"
    and "v0 = (case sn of Some s \<Rightarrow> sn_version s | None \<Rightarrow> 0)"
  obtain rl w2 where e2: "es_load_after St i v0 w1 = (rl, w2)" by fastforce
  have w2: "inv w2" "stream w2 = stream w" "snap w2 = snap w"
    using l1 load_after_law [OF _ e2] load_after_snap [OF _ e2] by auto
  obtain evs where evs: "rl = Ok evs" "map se_event evs = drop v0 (stream w i)"
      "map se_sequence evs = [v0 + 1..<length (stream w i) + 1]"
    using l1 load_after_law [OF _ e2] by auto
  have s: "snap_ok w i s" if "sn = Some s" for s using that sn ok by auto
  have v0: "v0 \<le> length (stream w i) \<and> (v0 = 0 \<longleftrightarrow> sn = None)"
    using s by (cases sn) (auto simp: v0_def snap_ok_def)
  have empty: "evs = [] \<longleftrightarrow> length (stream w i) \<le> v0" using evs(2) by (metis drop_eq_Nil map_is_Nil_conv)
  have all: "set_version D n (fold (apply_event Ev) (drop v0 (stream w i)) a0) = set_version D n (history (stream w i))" for n
    using s rehydrated_from_snapshot [of w i _ n] by (cases sn) (simp_all add: a0_def v0_def)
  have "ser_find_by_id D Ev St Sn i w = (if v0 = 0 \<and> evs = [] then (Ok None, w2)
      else (Ok (Some (set_version D (length (stream w i)) (history (stream w i)))), w2))"
    using e1 e2 evs(1,2) replay_from [OF evs(3) conjunct1 [OF v0], of Ev a0] all [of "length (stream w i)"]
    by (cases rs; cases sn) (auto simp: ser_find_by_id_def sn_def a0_def v0_def split: option.splits)
  then show ?thesis using find w2 empty v0 by (auto simp: rehydrated_def split: if_splits)
qed

lemma saved:
  assumes "inv w" and "esr_save D St a w = (r, a', w')"
  shows "inv w' \<and> snap w' = snap w \<and> ar_id D a' = ar_id D a \<and> state a' = state a \<and> pending_events D a' = []
    \<and> (if version D a = length (stream w (ar_id D a))
       then r = Ok () \<and> stream w' = (stream w)(ar_id D a := stream w (ar_id D a) @ pending_events D a)
         \<and> version D a' = version D a + length (pending_events D a)
       else (\<exists>x. r = Err x) \<and> stream w' = stream w \<and> version D a' = version D a)"
proof -
  obtain evs a1 where d: "drain_events D a = (evs, a1)" by fastforce
  have a1: "evs = pending_events D a" "pending_events D a1 = []" "version D a1 = version D a"
      "ar_id D a1 = ar_id D a" "state a1 = state a"
    using d drained [of a] drain_frame [of a] by auto
  obtain ra w1 where e: "es_append St (ar_id D a) (version D a) (pending_events D a) w = (ra, w1)" by fastforce
  show ?thesis
    using assms(2) d a1 e append_law [OF assms(1) e] append_snap [OF assms(1) e]
    by (auto simp: esr_save_def frames split: if_splits)
qed

lemma tracks_accepted:
  assumes "tracks w a" and "version D a = length (stream w (ar_id D a))"
  shows "same a (history (stream w (ar_id D a) @ pending_events D a))"
  using assms default_law by (auto simp: tracks_def)

lemma tracks_grow:
  assumes "tracks w b" and "stream w' (ar_id D b) = stream w (ar_id D b) @ new"
  shows "tracks w' b"
  using assms by (cases "new = []") (auto simp: tracks_def)

lemma sound_find:
  assumes "sound w L F" and "ser_find_by_id D Ev St Sn i w = (Ok (Some a), w')"
  shows "sound w' (insert a L) F"
proof -
  have f: "Some a = rehydrated D Ev (stream w i)" "inv w'" "stream w' = stream w" "snap w' = snap w"
    using snapshot_find [OF _ _ assms(2)] assms(1) by (auto simp: sound_def)
  then have ne: "stream w i \<noteq> []" and a: "a = set_version D (length (stream w i)) (history (stream w i))"
    by (auto simp: rehydrated_def split: if_splits)
  then have "ar_id D a = i" using assms(1) by (simp add: sound_def frames)
  then have "tracks w' a" using a f(3) by (simp add: tracks_def frames fold_frame default_law same_def)
  moreover have "tracks w' b" if "b \<in> L" for b
    using assms(1) that tracks_grow [of w b w' "[]"] f(3) by (simp add: sound_def)
  ultimately show ?thesis using assms(1) f by (auto simp: sound_def snap_ok_def)
qed

lemma sound_decide:
  assumes "sound w L F" and "a \<in> L" and "a = default_aggregate Ev \<or> ar_id D (apply_event Ev e a) = ar_id D a"
  shows "sound w (insert (raise_event e (apply_event Ev e a)) L) F"
proof -
  let ?b = "raise_event e (apply_event Ev e a)"
  have "tracks w ?b"
  proof (cases "a = default_aggregate Ev")
    case True
    show ?thesis
      by (cases "stream w (ar_id D ?b) = []")
        (simp_all add: tracks_def True raise_law apply_frame default_law same_def)
  next
    case False
    let ?evs = "stream w (ar_id D a) @ pending_events D a"
    have "ar_id D ?b = ar_id D a" using False assms(3) by (simp add: raise_law)
    moreover have "same a (history ?evs) \<Longrightarrow> same ?b (history (?evs @ [e]))"
      using same_apply [of a "history ?evs" e] by (simp add: same_def raise_law)
    moreover have "tracks w a" using assms(1,2) by (simp add: sound_def)
    ultimately show ?thesis using False by (auto simp: tracks_def raise_law apply_frame)
  qed
  then show ?thesis using assms(1) by (simp add: sound_def)
qed

lemma sound_save:
  assumes s: "sound w L F" and "a \<in> L" and save: "esr_save D St a w = (r, a', w')"
  shows "sound w' (insert a' L) F"
    and "r = Ok () \<Longrightarrow> version D a < version D a' \<Longrightarrow> snap_ok w' (ar_id D a') (Snapshot_new now a' (version D a'))"
proof -
  let ?i = "ar_id D a"
  have inv: "inv w" using s by (simp add: sound_def)
  note sv = saved [OF inv save]
  have grow: "\<exists>new. stream w' i = stream w i @ new" for i using sv by (cases "version D a = length (stream w ?i)") auto
  have L: "tracks w' b" if "b \<in> L" for b using s that grow [of "ar_id D b"] tracks_grow by (auto simp: sound_def)
  have sn: "snap_ok w i x \<Longrightarrow> snap_ok w' i x" for i x using grow [of i] snap_ok_extend by blast
  have acc: "same a' (history (stream w' ?i))" "version D a' = length (stream w' ?i)" if "version D a = length (stream w ?i)"
  proof -
    have "tracks w a" using s assms(2) by (simp add: sound_def)
    from tracks_accepted [OF this that] show "same a' (history (stream w' ?i))"
      using sv that by (simp add: same_def)
    show "version D a' = length (stream w' ?i)" using sv that by simp
  qed
  have a': "tracks w' a'"
    using acc sv L [OF assms(2)] default_law by (cases "version D a = length (stream w ?i)") (auto simp: tracks_def)
  have ids: "stream w' i \<noteq> [] \<Longrightarrow> ar_id D (history (stream w' i)) = i" for i
    using s sv acc by (cases "i = ?i"; cases "version D a = length (stream w ?i)") (auto simp: sound_def same_def)
  show "sound w' (insert a' L) F" using s sv L sn a' ids by (auto simp: sound_def)
  show "snap_ok w' (ar_id D a') (Snapshot_new now a' (version D a'))" if "r = Ok ()" "version D a < version D a'"
    using that sv acc by (auto simp: snap_ok_def Snapshot_new_def same_def split: if_splits)
qed

lemma crosses_grows: "crosses_boundary every v v' \<Longrightarrow> v < v'"
  unfolding crosses_boundary_def by (metis div_le_mono linorder_not_le)

theorem reach_sound:
  assumes "es_reach E D Ev raise_event every St Sn w0 w L F"
    and "inv w0" and "\<And>i. stream w0 i = []" and "\<And>i. snap w0 i = None"
  shows "sound w L F"
  using assms(1)
proof (induction rule: es_reach.induct)
  case es_start
  then show ?case using assms(2-) by (simp add: sound_def)
next
  case (es_create w L F)
  then show ?case by (simp add: sound_def tracks_def)
next
  case (es_find w L F i a w')
  then show ?case by (simp add: sound_find)
next
  case (es_decide w L F a e)
  then show ?case by (simp add: sound_decide)
next
  case (es_save w L F a a' w')
  then show ?case
    using sound_save [of w L F a "Ok ()" a' w'] crosses_grows [of every "version D a" "version D a'"]
    by (auto simp: sound_def)
next
  case (es_save_failed w L F a x a' w')
  then show ?case by (auto intro: sound_save)
next
  case (es_clock w L F)
  then show ?case using clock_law [of w] by (auto simp: sound_def snap_ok_def tracks_def)
next
  case (es_snapshot w L F i sn)
  obtain r w' where e: "ss_save Sn i sn w = (r, w')" by fastforce
  have "inv w" using es_snapshot.IH by (simp add: sound_def)
  from ss_save_law [OF this e] es_snapshot show ?case
    by (auto simp: sound_def snap_ok_def tracks_def e split: if_splits)
qed

end

section \<open>The in-memory stores keep the contract\<close>

definition ies_stream :: "('i, 'e) InMemoryEventStore \<Rightarrow> 'i \<Rightarrow> 'e StoredEvent list" where
  "ies_stream s i = (case dm_get s i of Some stream \<Rightarrow> stream | None \<Rightarrow> [])"

definition numbered :: "'e StoredEvent list \<Rightarrow> bool" where
  "numbered st \<longleftrightarrow> map se_sequence st = [1..<length st + 1]"

definition ies_inv :: "('i, 'e) InMemoryEventStore \<Rightarrow> bool" where
  "ies_inv s \<longleftrightarrow> (\<forall>i. numbered (ies_stream s i))"

lemma ies_push_events:
  "map se_event (ies_push now k n evs st) = map se_event st @ evs"
  "map se_sequence (ies_push now k n evs st) = map se_sequence st @ [n + 1..<n + length evs + 1]"
  "length (ies_push now k n evs st) = length st + length evs"
  by (induction evs arbitrary: k n st) (auto simp: StoredEvent_new_def upt_rec)

lemma ies_enumerate_events:
  "map se_event (ies_enumerate now evs) = evs" "map se_sequence (ies_enumerate now evs) = [1..<length evs + 1]"
  "length (ies_enumerate now evs) = length evs"
  by (auto simp: ies_enumerate_def StoredEvent_new_def intro!: nth_equalityI simp del: upt_Suc)

lemma upt_glue: "[1..<n + 1] @ [n + 1..<n + m + 1] = [1..<n + m + 1]"
  using upt_add_eq_append [of 1 "n + 1" m] by (simp add: ac_simps del: upt_Suc)

lemma ies_append_spec:
  assumes "ies_inv s" and "ies_append now i v evs s = (r, s')"
  shows "ies_inv s' \<and> (if v = length (ies_stream s i)
      then r = Ok () \<and> map se_event (ies_stream s' i) = map se_event (ies_stream s i) @ evs
        \<and> (\<forall>j. j \<noteq> i \<longrightarrow> ies_stream s' j = ies_stream s j)
      else (\<exists>x. r = Err (ConcurrencyConflict v x)) \<and> s' = s)"
proof (cases "v = length (ies_stream s i)")
  case True
  have n: "numbered (ies_stream s j)" for j using assms(1) by (simp add: ies_inv_def)
  have s': "ies_stream s' j = (if j = i then (case dm_get s i of Some st \<Rightarrow> ies_push now 0 v evs st | None \<Rightarrow> ies_enumerate now evs)
      else ies_stream s j)" and "r = Ok ()" for j
    using assms(2) True by (auto simp: ies_append_def ies_stream_def Let_def split: option.splits if_splits)
  have "numbered (case dm_get s i of Some st \<Rightarrow> ies_push now 0 v evs st | None \<Rightarrow> ies_enumerate now evs)"
    using n [of i] True upt_glue [of v "length evs"]
    by (auto simp: numbered_def ies_stream_def ies_push_events ies_enumerate_events simp del: upt_Suc split: option.splits)
  then have "numbered (ies_stream s' j)" for j unfolding s' using n [of j] by simp
  moreover have "map se_event (ies_stream s' i) = map se_event (ies_stream s i) @ evs"
    unfolding s' by (simp add: ies_stream_def ies_push_events ies_enumerate_events split: option.split)
  ultimately show ?thesis
    using True \<open>r = Ok ()\<close> by (simp add: ies_inv_def) (simp add: s')
next
  case False
  then show ?thesis using assms by (auto simp: ies_append_def ies_stream_def Let_def split: option.splits if_splits)
qed

definition ew_stream :: "('i, 'e, 'a) EsWorld \<Rightarrow> 'i \<Rightarrow> 'e list" where
  "ew_stream w i = map se_event (ies_stream (ew_streams w) i)"

lemma numbered_after:
  assumes "numbered st"
  shows "map se_event (filter (\<lambda>x. n < se_sequence x) st) = drop n (map se_event st)
    \<and> map se_sequence (filter (\<lambda>x. n < se_sequence x) st) = [n + 1..<length st + 1]"
  using assms
proof (induction st rule: rev_induct)
  case (snoc x st)
  then have "numbered st" "se_sequence x = length st + 1" by (auto simp: numbered_def)
  then show ?case using snoc.IH by auto
qed (simp add: numbered_def)

definition derived_apply ::
    "('e \<Rightarrow> 'i \<times> 's \<Rightarrow> 'i \<times> 's) \<Rightarrow> 'i \<times> 's \<Rightarrow> (('i, 'e, 's) Aggregate, 'e) EventSourced" where
  "derived_apply ap d0 = \<lparr>
     apply_event = (\<lambda>e a. let (i, d) = ap e (agg_id a, agg_data a) in a\<lparr>agg_id := i, agg_data := d\<rparr>),
     default_aggregate = \<lparr>agg_id = fst d0, agg_events = events_default, agg_version = 0, agg_data = snd d0\<rparr>\<rparr>"

definition derived_raise :: "'e \<Rightarrow> ('i, 'e, 's) Aggregate \<Rightarrow> ('i, 'e, 's) Aggregate" where
  "derived_raise e a = a\<lparr>agg_events := raise e (agg_events a)\<rparr>"

interpretation mem_es: event_store "ew_store :: (('i, 'e, 'a) EsWorld, 'i, 'e) EventStore" ew_stream "\<lambda>w. ies_inv (ew_streams w)"
proof
  fix w :: "('i, 'e, 'a) EsWorld" and i n r w' v new ra
  assume inv: "ies_inv (ew_streams w)"
  then have n: "numbered (ies_stream (ew_streams w) i)" by (simp add: ies_inv_def)
  show "es_load ew_store i w = (r, w') \<Longrightarrow> ies_inv (ew_streams w') \<and> ew_stream w' = ew_stream w
      \<and> (\<exists>evs. r = Ok evs \<and> map se_event evs = ew_stream w i \<and> map se_sequence evs = [1..<length (ew_stream w i) + 1])"
    using inv n by (auto simp: ew_store_def ew_load_def ies_load_def ew_stream_def ies_stream_def numbered_def simp del: upt_Suc)
  show "es_load_after ew_store i n w = (r, w') \<Longrightarrow> ies_inv (ew_streams w') \<and> ew_stream w' = ew_stream w
      \<and> (\<exists>evs. r = Ok evs \<and> map se_event evs = drop n (ew_stream w i) \<and> map se_sequence evs = [n + 1..<length (ew_stream w i) + 1])"
    using inv numbered_after [OF n]
    by (auto simp: ew_store_def default_load_after_def ew_load_def ies_load_def ew_stream_def ies_stream_def simp del: upt_Suc)
  show "es_append ew_store i v new w = (ra, w') \<Longrightarrow> ies_inv (ew_streams w') \<and>
      (if v = length (ew_stream w i) then ra = Ok () \<and> ew_stream w' = (ew_stream w)(i := ew_stream w i @ new)
       else (\<exists>x. ra = Err (ConcurrencyConflict v x)) \<and> ew_stream w' = ew_stream w)"
    using ies_append_spec [OF inv, of "\<lambda>k. ew_clock w (ew_tick w + k)" i v new]
    by (auto simp: ew_store_def ew_stream_def fun_eq_iff split: prod.splits if_splits)
qed

interpretation mem_snap: snapshotting ew_store ew_stream "\<lambda>w. ies_inv (ew_streams w)" derived_aggregate_root agg_data
    "derived_apply ap d0" derived_raise ew_env ew_snapshot_store "\<lambda>w i. dm_get (ew_snapshots w) i"
  for ap :: "'e \<Rightarrow> 'i \<times> 's \<Rightarrow> 'i \<times> 's" and d0 :: "'i \<times> 's"
  by unfold_locales
    (auto simp: derived_apply_def derived_raise_def raise_def events_default_def split_beta
      ew_snapshot_store_def iss_load_def iss_save_def ew_env_def ew_store_def default_load_after_def ew_load_def
      ies_load_def ew_stream_def fun_eq_iff split: prod.splits)

section \<open>Properties of event sourcing\<close>

definition ew_empty :: "(nat \<Rightarrow> instant) \<Rightarrow> ('i, 'e, 'a) EsWorld" where
  "ew_empty clock = \<lparr>ew_streams = [], ew_snapshots = [], ew_clock = clock, ew_tick = 0\<rparr>"

lemma ew_empty_simps:
  "ies_inv (ew_streams (ew_empty clock))" "ew_stream (ew_empty clock) i = []" "dm_get (ew_snapshots (ew_empty clock)) i = None"
  by (simp_all add: ew_empty_def ew_stream_def ies_inv_def ies_stream_def numbered_def)

abbreviation mem_reach ::
    "('e \<Rightarrow> 'i \<times> 's \<Rightarrow> 'i \<times> 's) \<Rightarrow> 'i \<times> 's \<Rightarrow> nat \<Rightarrow> (nat \<Rightarrow> instant) \<Rightarrow> ('i, 'e, ('i, 'e, 's) Aggregate) EsWorld
     \<Rightarrow> ('i, 'e, 's) Aggregate set \<Rightarrow> ('i \<times> ('i, 'e, 's) Aggregate Snapshot) set \<Rightarrow> bool" where
  "mem_reach ap d0 every clock \<equiv> es_reach ew_env derived_aggregate_root (derived_apply ap d0) derived_raise every
     ew_store ew_snapshot_store (ew_empty clock)"

text \<open>
  C9: Snapshots never change what is read. In every state that any number of clients reach from
  empty in-memory stores by creating, loading, changing and saving event-sourced aggregates, with
  saves losing races and snapshots written late, repeatedly or not at all, loading through the
  snapshotting repository gives the same as replaying the whole stream: nothing for an empty
  stream, and otherwise the aggregate with every stored event applied in order, at the version
  that is the length of the stream.
\<close>

theorem snapshots_transparent:
  assumes "mem_reach ap d0 every clock w L F"
  shows "fst (ser_find_by_id derived_aggregate_root (derived_apply ap d0) ew_store ew_snapshot_store i w)
       = fst (esr_find_by_id derived_aggregate_root (derived_apply ap d0) ew_store i w)
    \<and> fst (esr_find_by_id derived_aggregate_root (derived_apply ap d0) ew_store i w)
       = Ok (rehydrated derived_aggregate_root (derived_apply ap d0) (ew_stream w i))"
proof -
  have s: "mem_snap.sound ap d0 w L F" by (rule mem_snap.reach_sound [OF assms]) (simp_all add: ew_empty_simps)
  obtain r w' where e: "ser_find_by_id derived_aggregate_root (derived_apply ap d0) ew_store ew_snapshot_store i w = (r, w')"
    by fastforce
  have "r = Ok (rehydrated derived_aggregate_root (derived_apply ap d0) (ew_stream w i))"
    using mem_snap.snapshot_find [OF _ _ e] s by (auto simp: mem_snap.sound_def)
  moreover have "ies_inv (ew_streams w)" using s by (simp add: mem_snap.sound_def)
  ultimately show ?thesis using e mem_es.find_rehydrates [of w derived_aggregate_root "derived_apply ap d0" i] by simp
qed

text \<open>A counter that starts at the first event and adds the others.\<close>

definition counter_apply :: "nat \<Rightarrow> nat \<times> nat \<Rightarrow> nat \<times> nat" where
  "counter_apply e st = (if fst st = 0 then (e, 0) else (fst st, snd st + e))"

abbreviation counter :: "((nat, nat, nat) Aggregate, nat) EventSourced" where
  "counter \<equiv> derived_apply counter_apply (0, 0)"

definition counter_new :: "(nat, nat, nat) Aggregate" where
  "counter_new = \<lparr>agg_id = 7, agg_events = \<lparr>ev_pending = [7, 5]\<rparr>, agg_version = 0, agg_data = 5\<rparr>"

definition counter_saved :: "(nat, nat, nat) Aggregate" where
  "counter_saved = \<lparr>agg_id = 7, agg_events = events_default, agg_version = 2, agg_data = 5\<rparr>"

definition counter_world :: "(nat, nat, (nat, nat, nat) Aggregate) EsWorld" where
  "counter_world = (ew_empty int)\<lparr>ew_streams := [(7, [\<lparr>se_sequence = 1, se_event = 7, se_recorded_at = 0\<rparr>,
     \<lparr>se_sequence = 2, se_event = 5, se_recorded_at = 1\<rparr>])], ew_tick := 2\<rparr>"

lemma counter_run:
  "counter_new = derived_raise 5 (apply_event counter 5 (derived_raise 7 (apply_event counter 7 (default_aggregate counter))))"
  "esr_save derived_aggregate_root ew_store counter_new (ew_empty int) = (Ok (), counter_saved, counter_world)"
  "snd (ss_save ew_snapshot_store 7 (Snapshot_new 2 counter_saved 2) counter_world)
     = counter_world\<lparr>ew_snapshots := [(7, Snapshot_new 2 counter_saved 2)]\<rparr>"
  by (simp_all add: counter_new_def derived_raise_def raise_def derived_apply_def counter_apply_def events_default_def
      esr_save_def ew_store_def ew_empty_def ies_append_def ies_enumerate_def StoredEvent_new_def dm_insert_def
      counter_saved_def counter_world_def ew_snapshot_store_def iss_save_def upt_rec)

lemma counter_reach:
  "\<exists>L F. mem_reach counter_apply (0, 0) 2 int (counter_world\<lparr>ew_snapshots := [(7, Snapshot_new 2 counter_saved 2)]\<rparr>) L F"
proof -
  let ?d = "default_aggregate counter"
  let ?e = "derived_raise 7 (apply_event counter 7 ?d)"
  have 1: "mem_reach counter_apply (0, 0) 2 int (ew_empty int) {?d} {}" by (rule es_create, rule es_start)
  have 2: "mem_reach counter_apply (0, 0) 2 int (ew_empty int) {?e, ?d} {}" by (rule es_decide [OF 1]) simp_all
  have "ar_id derived_aggregate_root (apply_event counter 5 ?e) = ar_id derived_aggregate_root ?e"
    by (simp add: derived_apply_def counter_apply_def derived_raise_def)
  then have 3: "mem_reach counter_apply (0, 0) 2 int (ew_empty int) {counter_new, ?e, ?d} {}"
    unfolding counter_run(1) by (intro es_decide [OF 2] disjI2) (rule insertI1)
  have b: "crosses_boundary 2 (version derived_aggregate_root counter_new) (version derived_aggregate_root counter_saved)"
    and c: "ar_id derived_aggregate_root counter_saved = 7" "version derived_aggregate_root counter_saved = 2"
    "fst (utc_now ew_env counter_world) = 2"
    by (simp_all add: crosses_boundary_def counter_new_def counter_saved_def ew_env_def counter_world_def ew_empty_def)
  note 4 = es_save [OF 3 insertI1 counter_run(2), unfolded if_P [OF b], unfolded c]
  show ?thesis using es_snapshot [OF 4 insertI1] unfolding counter_run(3) by blast
qed

theorem snapshots_transparent_witness:
  "fst (ser_find_by_id derived_aggregate_root counter ew_store ew_snapshot_store 7
      (counter_world\<lparr>ew_snapshots := [(7, Snapshot_new 2 counter_saved 2)]\<rparr>)) = Ok (Some counter_saved)"
proof -
  obtain L F where "mem_reach counter_apply (0, 0) 2 int (counter_world\<lparr>ew_snapshots := [(7, Snapshot_new 2 counter_saved 2)]\<rparr>) L F"
    using counter_reach by blast
  from snapshots_transparent [OF this, of 7] show ?thesis
    by (simp add: rehydrated_def ew_stream_def ies_stream_def counter_world_def ew_empty_def dm_get_def
        counter_saved_def derived_apply_def counter_apply_def)
qed

text \<open>
  The atomic \<open>save\<close> of the snapshotting repository is the save step followed by the snapshot step.
\<close>

lemma ser_save_reach:
  assumes "es_reach E D Ev raise_event every St Sn w0 w L F" and "a \<in> L"
    and "ser_save E D every St Sn a w = (Ok (), a', w')"
  shows "\<exists>F'. es_reach E D Ev raise_event every St Sn w0 w' (insert a' L) F'"
proof -
  obtain r a1 w1 where e: "esr_save D St a w = (r, a1, w1)" by (metis prod.exhaust)
  then have ok: "esr_save D St a w = (Ok (), a1, w1)" using assms(3) by (cases r) (auto simp: ser_save_def)
  note step = es_save [OF assms(1,2) ok]
  show ?thesis
  proof (cases "crosses_boundary every (version D a) (version D a1)")
    case True
    have "es_reach E D Ev raise_event every St Sn w0
        (snd (ss_save Sn (ar_id D a1) (Snapshot_new (fst (utc_now E w1)) a1 (version D a1)) (snd (utc_now E w1))))
        (insert a1 L) (insert (ar_id D a1, Snapshot_new (fst (utc_now E w1)) a1 (version D a1)) F)"
      using es_snapshot [OF es_clock [OF step [unfolded if_P [OF True]]] insertI1] .
    then show ?thesis using assms(3) ok True by (auto simp: ser_save_def split_beta)
  next
    case False
    then show ?thesis using step assms(3) ok by (auto simp: ser_save_def)
  qed
qed

text \<open>
  An event-sourced \<open>save\<close> drains the aggregate before it appends, and an append that fails, for
  instance on the version conflict that a caller is meant to retry, leaves the pending events
  nowhere: the caller's aggregate has none, and the stream has not changed, although the aggregate
  still holds their effect and its old version.
\<close>

theorem failed_es_save_loses_events:
  assumes "ies_inv (ew_streams w)" and "agg_version a \<noteq> length (ew_stream w (agg_id a))"
  shows "case esr_save derived_aggregate_root ew_store a w of (r, a', w') \<Rightarrow>
      (\<exists>x. r = Err (ConcurrencyConflict (agg_version a) x)) \<and> ew_stream w' = ew_stream w
      \<and> a' = a\<lparr>agg_events := events_default\<rparr>"
proof -
  obtain ra w1 where e: "es_append ew_store (agg_id a) (agg_version a) (ev_pending (agg_events a)) w = (ra, w1)" by fastforce
  from mem_es.append_law [OF assms(1) e] assms(2) show ?thesis using e by (auto simp: esr_save_def)
qed

theorem failed_es_save_loses_events_witness:
  "case esr_save derived_aggregate_root ew_store counter_new counter_world of (r, a', w') \<Rightarrow>
     ew_stream w' = ew_stream counter_world \<and> a' = counter_new\<lparr>agg_events := events_default\<rparr>
     \<and> ev_pending (agg_events counter_new) = [7, 5]"
proof -
  have w: "counter_world = snd (snd (esr_save derived_aggregate_root ew_store counter_new (ew_empty int)))"
    by (simp add: counter_run(2))
  have "ies_inv (ew_streams counter_world)"
    by (simp add: counter_world_def ew_empty_def ies_inv_def ies_stream_def dm_get_def numbered_def)
  moreover have "agg_version counter_new \<noteq> length (ew_stream counter_world (agg_id counter_new))"
    by (simp add: counter_new_def counter_world_def ew_empty_def ew_stream_def ies_stream_def dm_get_def)
  ultimately show ?thesis
    using failed_es_save_loses_events [of counter_world counter_new] by (auto simp: counter_new_def split: prod.splits)
qed

text \<open>
  Deleting an aggregate through the snapshotting repository removes its stream but not its
  snapshot: an aggregate that has a snapshot is found again after it was deleted, in the state of
  the snapshot, while the repository without snapshots finds nothing.
\<close>

theorem deleted_aggregate_resurrects:
  assumes "dm_get (ew_snapshots w) i = Some sn" and "0 < sn_version sn"
    and "ser_delete ew_store i w = (r, w')"
  shows "r = Ok () \<and> fst (esr_find_by_id D Ev ew_store i w') = Ok None
    \<and> fst (ser_find_by_id D Ev ew_store ew_snapshot_store i w') = Ok (Some (set_version D (sn_version sn) (sn_state sn)))"
  using assms
  by (auto simp: ser_delete_def ew_store_def ies_delete_stream_def esr_find_by_id_def ew_load_def ies_load_def
      ser_find_by_id_def ew_snapshot_store_def iss_load_def default_load_after_def)

theorem deleted_aggregate_resurrects_witness:
  "let w = counter_world\<lparr>ew_snapshots := [(7, Snapshot_new 2 counter_saved 2)]\<rparr>
   in fst (ser_find_by_id derived_aggregate_root counter ew_store ew_snapshot_store 7 (snd (ser_delete ew_store 7 w)))
     = Ok (Some counter_saved)"
  using deleted_aggregate_resurrects [of "counter_world\<lparr>ew_snapshots := [(7, Snapshot_new 2 counter_saved 2)]\<rparr>" 7
      "Snapshot_new 2 counter_saved 2" _ _ derived_aggregate_root counter]
  by (cases "ser_delete ew_store 7 (counter_world\<lparr>ew_snapshots := [(7, Snapshot_new 2 counter_saved 2)]\<rparr>)")
    (simp add: dm_get_def Snapshot_new_def counter_saved_def)

end
