(* ===== verification/Saga.thy ===== *)
theory Saga
  imports Versioned Memory_World
begin

text \<open>
  \<open>crates/pharos-saga/src/lib.rs\<close> and \<open>crates/pharos-memory/src/in_memory_saga_store.rs\<close>: saga
  instances, transitions, the runner with its bounded conflict retry, the timeout sweep, the durable
  command publisher and the in-memory store. The runner is shown to apply every accepted transition
  to the state it was computed from and never to revive a terminal instance, under every
  interleaving of handlers and sweepers.
\<close>

section \<open>Instances and transitions\<close>

datatype SagaStatus = Running | Completed | Failed

record ('i, 's) SagaInstance =
  si_id :: 'i
  si_state :: 's
  si_status :: SagaStatus
  si_deadline :: "instant option"
  si_updated_at :: instant
  si_version :: nat

definition SagaInstance_running :: "instant \<Rightarrow> 'i \<Rightarrow> 's \<Rightarrow> ('i, 's) SagaInstance" where
  "SagaInstance_running now i st = \<lparr>si_id = i, si_state = st, si_status = Running, si_deadline = None,
     si_updated_at = now, si_version = 0\<rparr>"

definition SagaInstance_running_until :: "instant \<Rightarrow> 'i \<Rightarrow> 's \<Rightarrow> instant \<Rightarrow> ('i, 's) SagaInstance" where
  "SagaInstance_running_until now i st dl = (SagaInstance_running now i st)\<lparr>si_deadline := Some dl\<rparr>"

datatype ('s, 'c) SagaTransition =
    Ignore
  | Start 's "'c list" "instant option"
  | Advance 's "'c list" "instant option"
  | Complete 's "'c list"
  | Fail string "'c list"

text \<open>The saga trait; user errors are represented by their text.\<close>

record ('w, 'i, 's, 'ev, 'c) Saga =
  id_for :: "'ev \<Rightarrow> 'i option"
  react :: "('i, 's) SagaInstance option \<Rightarrow> 'ev \<Rightarrow> ('w, string, ('s, 'c) SagaTransition) op"
  on_timeout :: "('i, 's) SagaInstance \<Rightarrow> ('w, string, ('s, 'c) SagaTransition) op"

definition default_on_timeout :: "('i, 's) SagaInstance \<Rightarrow> ('w, string, ('s, 'c) SagaTransition) op" where
  "default_on_timeout inst w = (Ok (Fail ''saga deadline elapsed'' []), w)"

datatype SagaSaveError = SagaConcurrencyConflict nat "nat option" | SagaStorage string

record ('w, 'i, 's) SagaStore =
  saga_load :: "'i \<Rightarrow> ('w, string, ('i, 's) SagaInstance option) op"
  saga_save :: "('i, 's) SagaInstance \<Rightarrow> ('w, SagaSaveError, unit) op"
  claim_due :: "instant \<Rightarrow> duration \<Rightarrow> nat \<Rightarrow> ('w, string, ('i, 's) SagaInstance list) op"

datatype SagaRunnerError =
    RunnerSaga string
  | RunnerStore string
  | RunnerEnqueue OutboxError
  | RunnerFailed string
  | RunnerConflict nat "nat option"

fun from_save_error :: "SagaSaveError \<Rightarrow> SagaRunnerError" where
  "from_save_error (SagaConcurrencyConflict e a) = RunnerConflict e a"
| "from_save_error (SagaStorage e) = RunnerStore e"

section \<open>The runner\<close>

record ('w, 'i, 's, 'ev, 'c) SagaRunner =
  sr_saga :: "('w, 'i, 's, 'ev, 'c) Saga"
  sr_store :: "('w, 'i, 's) SagaStore"
  sr_outbox :: "'w OutboxRepository"
  map_command :: "'c \<Rightarrow> 'w \<Rightarrow> Message \<times> 'w"

definition MAX_CONFLICT_RETRIES :: nat where
  "MAX_CONFLICT_RETRIES = 8"

fun command_messages ::
    "'w Env \<Rightarrow> ('c \<Rightarrow> 'w \<Rightarrow> Message \<times> 'w) \<Rightarrow> 'c list \<Rightarrow> 'w \<Rightarrow> OutboxMessage list \<times> 'w" where
  "command_messages E f [] w = ([], w)"
| "command_messages E f (c # cs) w =
     (let (m, w1) = f c w; (now, w2) = utc_now E w1; (fresh_id, w3) = now_v7 E w2;
          (ms, w4) = command_messages E f cs w3
      in (OutboxMessage_new now fresh_id m # ms, w4))"

definition enqueue_all ::
    "'w Env \<Rightarrow> ('w, 'i, 's, 'ev, 'c) SagaRunner \<Rightarrow> 'c list \<Rightarrow> ('w, SagaRunnerError, unit) op" where
  "enqueue_all E Rn commands w =
     (if commands = [] then (Ok (), w)
      else (let (messages, w1) = command_messages E (map_command Rn) commands w
            in case insert_many (sr_outbox Rn) messages w1 of
                 (Inl e, w2) \<Rightarrow> (Err (RunnerEnqueue e), w2)
               | (Inr _, w2) \<Rightarrow> (Ok (), w2)))"

text \<open>Saving an instance and then enqueueing the commands, as every arm does.\<close>

definition save_then_enqueue ::
    "'w Env \<Rightarrow> ('w, 'i, 's, 'ev, 'c) SagaRunner \<Rightarrow> ('i, 's) SagaInstance \<Rightarrow> 'c list \<Rightarrow> ('w, SagaRunnerError, unit) op" where
  "save_then_enqueue E Rn inst commands w =
     (case saga_save (sr_store Rn) inst w of
        (Inl e, w1) \<Rightarrow> (Err (from_save_error e), w1)
      | (Inr _, w1) \<Rightarrow> enqueue_all E Rn commands w1)"

text \<open>\<open>current.unwrap_or_else(|| SagaInstance::running(id, state.clone()))\<close>.\<close>

definition current_or_running ::
    "'w Env \<Rightarrow> 'i \<Rightarrow> 's \<Rightarrow> ('i, 's) SagaInstance option \<Rightarrow> 'w \<Rightarrow> ('i, 's) SagaInstance \<times> 'w" where
  "current_or_running E i st cur w =
     (case cur of Some inst \<Rightarrow> (inst, w)
      | None \<Rightarrow> (let (now, w1) = utc_now E w in (SagaInstance_running now i st, w1)))"

fun apply_transition ::
    "'w Env \<Rightarrow> ('w, 'i, 's, 'ev, 'c) SagaRunner \<Rightarrow> 'i \<Rightarrow> ('i, 's) SagaInstance option
     \<Rightarrow> ('s, 'c) SagaTransition \<Rightarrow> ('w, SagaRunnerError, unit) op" where
  "apply_transition E Rn i cur Ignore w = (Ok (), w)"
| "apply_transition E Rn i cur (Start st commands dl) w =
     (let (now, w1) = utc_now E w
      in save_then_enqueue E Rn ((SagaInstance_running now i st)\<lparr>si_deadline := dl\<rparr>) commands w1)"
| "apply_transition E Rn i cur (Advance st commands dl) w =
     (let (inst, w1) = current_or_running E i st cur w; (now, w2) = utc_now E w1
      in save_then_enqueue E Rn (inst\<lparr>si_state := st, si_status := Running, si_deadline := dl, si_updated_at := now\<rparr>)
           commands w2)"
| "apply_transition E Rn i cur (Complete st commands) w =
     (let (inst, w1) = current_or_running E i st cur w; (now, w2) = utc_now E w1
      in save_then_enqueue E Rn (inst\<lparr>si_state := st, si_status := Completed, si_deadline := None, si_updated_at := now\<rparr>)
           commands w2)"
| "apply_transition E Rn i cur (Fail reason commands) w =
     (let (r, w1) = (case cur of
                       None \<Rightarrow> (Ok (), w)
                     | Some inst \<Rightarrow>
                         (let (now, w2) = utc_now E w
                          in case saga_save (sr_store Rn)
                                    (inst\<lparr>si_status := Failed, si_deadline := None, si_updated_at := now\<rparr>) w2 of
                               (Inl e, w3) \<Rightarrow> (Err (from_save_error e), w3)
                             | (Inr _, w3) \<Rightarrow> (Ok (), w3)))
      in case r of
           Inl e \<Rightarrow> (Err e, w1)
         | Inr _ \<Rightarrow>
             (case enqueue_all E Rn commands w1 of
                (Inl e, w4) \<Rightarrow> (Err e, w4)
              | (Inr _, w4) \<Rightarrow> (Err (RunnerFailed reason), w4)))"

definition is_terminal :: "('i, 's) SagaInstance option \<Rightarrow> bool" where
  "is_terminal cur = (case cur of None \<Rightarrow> False | Some inst \<Rightarrow> si_status inst \<noteq> Running)"

text \<open>
  What \<open>handle\<close> does with the answer of \<open>react\<close>: nothing when it is ignored, nothing when the instance
  it loaded is terminal.
\<close>

definition apply_reaction ::
    "'w Env \<Rightarrow> ('w, 'i, 's, 'ev, 'c) SagaRunner \<Rightarrow> 'i \<Rightarrow> ('i, 's) SagaInstance option \<Rightarrow> ('s, 'c) SagaTransition
     \<Rightarrow> ('w, SagaRunnerError, unit) op" where
  "apply_reaction E Rn i cur t w =
     (if t = Ignore then (Ok (), w)
      else if is_terminal cur then (Ok (), w)
      else apply_transition E Rn i cur t w)"

fun handle_loop ::
    "'w Env \<Rightarrow> ('w, 'i, 's, 'ev, 'c) SagaRunner \<Rightarrow> 'i \<Rightarrow> 'ev \<Rightarrow> nat \<Rightarrow> (nat \<times> nat option) option
     \<Rightarrow> ('w, SagaRunnerError, unit) op" where
  "handle_loop E Rn i ev 0 last_conflict w =
     (let (expected, actual) = (case last_conflict of None \<Rightarrow> (0, None) | Some c \<Rightarrow> c)
      in (Err (RunnerConflict expected actual), w))"
| "handle_loop E Rn i ev (Suc n) last_conflict w =
     (case saga_load (sr_store Rn) i w of
        (Inl e, w1) \<Rightarrow> (Err (RunnerStore e), w1)
      | (Inr cur, w1) \<Rightarrow>
          (case react (sr_saga Rn) cur ev w1 of
             (Inl e, w2) \<Rightarrow> (Err (RunnerSaga e), w2)
           | (Inr t, w2) \<Rightarrow>
               (case apply_reaction E Rn i cur t w2 of
                  (Inr _, w3) \<Rightarrow> (Ok (), w3)
                | (Inl (RunnerConflict expected actual), w3) \<Rightarrow>
                    handle_loop E Rn i ev n (Some (expected, actual)) w3
                | (Inl other, w3) \<Rightarrow> (Err other, w3))))"

definition saga_handle ::
    "'w Env \<Rightarrow> ('w, 'i, 's, 'ev, 'c) SagaRunner \<Rightarrow> 'ev \<Rightarrow> ('w, SagaRunnerError, unit) op" where
  "saga_handle E Rn ev w =
     (case id_for (sr_saga Rn) ev of
        None \<Rightarrow> (Ok (), w)
      | Some i \<Rightarrow> handle_loop E Rn i ev MAX_CONFLICT_RETRIES None w)"

definition handle_any ::
    "'w Env \<Rightarrow> ('w, 'i, 's, 'ev, 'c) SagaRunner \<Rightarrow> ('x \<Rightarrow> 'ev) \<Rightarrow> 'x \<Rightarrow> ('w, SagaRunnerError, unit) op" where
  "handle_any E Rn into x w = saga_handle E Rn (into x) w"

text \<open>The timeout sweep: an ignored timeout clears the elapsed deadline.\<close>

definition clear_deadline ::
    "'w Env \<Rightarrow> ('w, 'i, 's, 'ev, 'c) SagaRunner \<Rightarrow> ('i, 's) SagaInstance \<Rightarrow> ('w, SagaRunnerError, unit) op" where
  "clear_deadline E Rn inst w =
     (let (now, w1) = utc_now E w
      in case saga_save (sr_store Rn) (inst\<lparr>si_deadline := None, si_updated_at := now\<rparr>) w1 of
           (Inl e, w2) \<Rightarrow> (Err (from_save_error e), w2)
         | (Inr _, w2) \<Rightarrow> (Ok (), w2))"

text \<open>What the sweep does with the answer of \<open>on_timeout\<close>: a business failure does not end the sweep.\<close>

definition apply_timeout ::
    "'w Env \<Rightarrow> ('w, 'i, 's, 'ev, 'c) SagaRunner \<Rightarrow> ('i, 's) SagaInstance \<Rightarrow> ('s, 'c) SagaTransition
     \<Rightarrow> ('w, SagaRunnerError, unit) op" where
  "apply_timeout E Rn inst t w =
     (if t = Ignore then clear_deadline E Rn inst w
      else (case apply_transition E Rn (si_id inst) (Some inst) t w of
              (Inr _, w') \<Rightarrow> (Ok (), w')
            | (Inl (RunnerFailed reason), w') \<Rightarrow> (Ok (), w')
            | (Inl e, w') \<Rightarrow> (Err e, w')))"

fun timeouts_loop ::
    "'w Env \<Rightarrow> ('w, 'i, 's, 'ev, 'c) SagaRunner \<Rightarrow> ('i, 's) SagaInstance list \<Rightarrow> nat \<Rightarrow> ('w, SagaRunnerError, nat) op" where
  "timeouts_loop E Rn [] processed w = (Ok processed, w)"
| "timeouts_loop E Rn (inst # due) processed w =
     (case on_timeout (sr_saga Rn) inst w of
        (Inl e, w1) \<Rightarrow> (Err (RunnerSaga e), w1)
      | (Inr t, w1) \<Rightarrow>
          (case apply_timeout E Rn inst t w1 of
             (Inl e, w2) \<Rightarrow> (Err e, w2)
           | (Inr _, w2) \<Rightarrow> timeouts_loop E Rn due (processed + 1) w2))"

definition run_due_timeouts ::
    "'w Env \<Rightarrow> ('w, 'i, 's, 'ev, 'c) SagaRunner \<Rightarrow> instant \<Rightarrow> duration \<Rightarrow> nat \<Rightarrow> ('w, SagaRunnerError, nat) op" where
  "run_due_timeouts E Rn now lease limit w =
     (case claim_due (sr_store Rn) now lease limit w of
        (Inl e, w1) \<Rightarrow> (Err (RunnerStore e), w1)
      | (Inr due, w1) \<Rightarrow> timeouts_loop E Rn due 0 w1)"

text \<open>The publisher that drains the command outbox into a dispatcher.\<close>

definition durable_publish ::
    "(bytes \<Rightarrow> string + 'c) \<Rightarrow> ('c \<Rightarrow> ('w, string, unit) op) \<Rightarrow> Message \<Rightarrow> ('w, MessagingError, unit) op" where
  "durable_publish decode dispatch m w =
     (case decode (payload m) of
        Inl e \<Rightarrow> (Err (Publish e), w)
      | Inr c \<Rightarrow> (case dispatch c w of (Inl e, w') \<Rightarrow> (Err (Publish e), w') | (Inr _, w') \<Rightarrow> (Ok (), w')))"

section \<open>The in-memory saga store\<close>

type_synonym ('i, 's) InMemorySagaStore = "('i, ('i, 's) SagaInstance) dashmap"

definition isg_load :: "'i \<Rightarrow> (('i, 's) InMemorySagaStore, string, ('i, 's) SagaInstance option) op" where
  "isg_load i s = (Ok (dm_get s i), s)"

definition isg_save :: "('i, 's) SagaInstance \<Rightarrow> (('i, 's) InMemorySagaStore, SagaSaveError, unit) op" where
  "isg_save inst s =
     (let expected = si_version inst; new_version = expected + 1
      in case dm_get s (si_id inst) of
           None \<Rightarrow>
             if expected \<noteq> 0 then (Err (SagaConcurrencyConflict expected None), s)
             else (Ok (), dm_insert (si_id inst) (inst\<lparr>si_version := new_version\<rparr>) s)
         | Some stored \<Rightarrow>
             (let actual = si_version stored
              in if actual \<noteq> expected then (Err (SagaConcurrencyConflict expected (Some actual)), s)
                 else (Ok (), dm_insert (si_id inst) (inst\<lparr>si_version := new_version\<rparr>) s)))"

definition isg_due :: "instant \<Rightarrow> ('i, 's) SagaInstance \<Rightarrow> bool" where
  "isg_due now inst \<longleftrightarrow> si_status inst = Running \<and> (case si_deadline inst of None \<Rightarrow> False | Some d \<Rightarrow> d \<le> now)"

definition isg_candidates :: "instant \<Rightarrow> nat \<Rightarrow> ('i, 's) InMemorySagaStore \<Rightarrow> 'i list" where
  "isg_candidates now limit s =
     take limit (sort_key (\<lambda>i. case Option.bind (dm_get s i) si_deadline of Some d \<Rightarrow> d | None \<Rightarrow> now)
       (map fst (filter (\<lambda>(i, inst). isg_due now inst) s)))"

fun isg_claim_all ::
    "instant \<Rightarrow> duration \<Rightarrow> 'i list \<Rightarrow> ('i, 's) InMemorySagaStore
     \<Rightarrow> ('i, 's) SagaInstance list \<times> ('i, 's) InMemorySagaStore" where
  "isg_claim_all now lease [] s = ([], s)"
| "isg_claim_all now lease (i # is) s =
     (case dm_get s i of
        None \<Rightarrow> isg_claim_all now lease is s
      | Some inst \<Rightarrow>
          (let inst' = inst\<lparr>si_deadline := Some (now + lease), si_version := si_version inst + 1\<rparr>;
               (claimed, s') = isg_claim_all now lease is (dm_insert i inst' s)
           in (inst'\<lparr>si_deadline := si_deadline inst\<rparr> # claimed, s')))"

definition isg_claim_due ::
    "instant \<Rightarrow> duration \<Rightarrow> nat \<Rightarrow> (('i, 's) InMemorySagaStore, string, ('i, 's) SagaInstance list) op" where
  "isg_claim_due now lease limit s =
     (let (claimed, s') = isg_claim_all now lease (isg_candidates now limit s) s in (Ok claimed, s'))"

definition isg_len :: "('i, 's) InMemorySagaStore \<Rightarrow> nat" where
  "isg_len s = length s"

definition isg_is_empty :: "('i, 's) InMemorySagaStore \<Rightarrow> bool" where
  "isg_is_empty s \<longleftrightarrow> s = []"

section \<open>The world of the runner\<close>

text \<open>The in-memory outbox, clock and identifiers of the messaging world, with a saga store.\<close>

record ('i, 's) SagaWorld =
  sw_mem :: World
  sw_sagas :: "('i, 's) InMemorySagaStore"

definition in_mem :: "(World \<Rightarrow> 'r \<times> World) \<Rightarrow> ('i, 's) SagaWorld \<Rightarrow> 'r \<times> ('i, 's) SagaWorld" where
  "in_mem f w = (let (r, m) = f (sw_mem w) in (r, w\<lparr>sw_mem := m\<rparr>))"

definition in_sagas ::
    "(('i, 's) InMemorySagaStore \<Rightarrow> 'r \<times> ('i, 's) InMemorySagaStore) \<Rightarrow> ('i, 's) SagaWorld \<Rightarrow> 'r \<times> ('i, 's) SagaWorld" where
  "in_sagas f w = (let (r, s) = f (sw_sagas w) in (r, w\<lparr>sw_sagas := s\<rparr>))"

definition sw_env :: "(duration \<Rightarrow> string + duration) \<Rightarrow> ('i, 's) SagaWorld Env" where
  "sw_env conv = \<lparr>utc_now = in_mem mem_now, now_v7 = in_mem mem_uuid, random_f64 = in_mem mem_random, from_std = conv\<rparr>"

definition sw_outbox :: "(duration \<Rightarrow> string + duration) \<Rightarrow> ('i, 's) SagaWorld OutboxRepository" where
  "sw_outbox conv = \<lparr>
     or_insert = \<lambda>m. in_mem (or_insert (mem_outbox conv) m),
     or_pending = \<lambda>n. in_mem (or_pending (mem_outbox conv) n),
     or_record_attempt = \<lambda>i. in_mem (or_record_attempt (mem_outbox conv) i),
     or_schedule_retry = \<lambda>i d. in_mem (or_schedule_retry (mem_outbox conv) i d),
     or_mark_published = \<lambda>i. in_mem (or_mark_published (mem_outbox conv) i),
     or_mark_failed = \<lambda>i e. in_mem (or_mark_failed (mem_outbox conv) i e),
     or_failed = \<lambda>n. in_mem (or_failed (mem_outbox conv) n),
     or_mark_dead_lettered = \<lambda>i. in_mem (or_mark_dead_lettered (mem_outbox conv) i)\<rparr>"

definition sw_store :: "(('i, 's) SagaWorld, 'i, 's) SagaStore" where
  "sw_store = \<lparr>saga_load = \<lambda>i. in_sagas (isg_load i), saga_save = \<lambda>inst. in_sagas (isg_save inst),
     claim_due = \<lambda>now lease limit. in_sagas (isg_claim_due now lease limit)\<rparr>"

text \<open>A runner over these adapters, for any saga and any encoding of its commands.\<close>

definition mem_runner ::
    "(duration \<Rightarrow> string + duration) \<Rightarrow> (('i, 's) SagaWorld, 'i, 's, 'ev, 'c) Saga
     \<Rightarrow> ('c \<Rightarrow> ('i, 's) SagaWorld \<Rightarrow> Message \<times> ('i, 's) SagaWorld) \<Rightarrow> (('i, 's) SagaWorld, 'i, 's, 'ev, 'c) SagaRunner" where
  "mem_runner conv sg mc = \<lparr>sr_saga = sg, sr_store = sw_store, sr_outbox = sw_outbox conv, map_command = mc\<rparr>"

lemma mem_runner_sel [simp]:
  "sr_saga (mem_runner conv sg mc) = sg" "map_command (mem_runner conv sg mc) = mc"
  "sr_outbox (mem_runner conv sg mc) = sw_outbox conv"
  "saga_load (sr_store (mem_runner conv sg mc)) i = in_sagas (isg_load i)"
  "saga_save (sr_store (mem_runner conv sg mc)) inst = in_sagas (isg_save inst)"
  "claim_due (sr_store (mem_runner conv sg mc)) now lease limit = in_sagas (isg_claim_due now lease limit)"
  by (simp_all add: mem_runner_def sw_store_def)

lemma in_mem_sagas [simp]: "sw_sagas (snd (in_mem f w)) = sw_sagas w"
  by (simp add: in_mem_def split_beta)

lemma in_memD: "in_mem f w = (r, w') \<Longrightarrow> sw_sagas w' = sw_sagas w"
  by (metis in_mem_sagas snd_conv)

lemma sw_clock_sagas [simp]:
  "sw_sagas (snd (utc_now (sw_env conv) w)) = sw_sagas w" "sw_sagas (snd (now_v7 (sw_env conv) w)) = sw_sagas w"
  by (simp_all add: sw_env_def)

lemma insert_many_sagas [simp]: "sw_sagas (snd (insert_many (sw_outbox conv) ms w)) = sw_sagas w"
proof (induction ms arbitrary: w)
  case (Cons m ms)
  obtain r w1 where e: "in_mem (or_insert (mem_outbox conv) m) w = (r, w1)" by fastforce
  then have "or_insert (sw_outbox conv) m w = (r, w1)" by (simp add: sw_outbox_def)
  then show ?case using Cons [of w1] in_memD [OF e] by (cases r) auto
qed simp

text \<open>The encoding of commands may read identifiers and the clock, but touches neither store nor outbox.\<close>

definition encodes :: "('c \<Rightarrow> ('i, 's) SagaWorld \<Rightarrow> Message \<times> ('i, 's) SagaWorld) \<Rightarrow> bool" where
  "encodes mc \<longleftrightarrow> (\<forall>c w. sw_sagas (snd (mc c w)) = sw_sagas w
     \<and> w_outbox (sw_mem (snd (mc c w))) = w_outbox (sw_mem w))"

lemma command_messages_sagas:
  "encodes mc \<Longrightarrow> sw_sagas (snd (command_messages (sw_env conv) mc cs w)) = sw_sagas w"
proof (induction cs arbitrary: w)
  case (Cons c cs)
  have "sw_sagas (snd (mc c w)) = sw_sagas w" using Cons.prems by (simp add: encodes_def)
  then show ?case using Cons by (simp add: split_beta)
qed simp

lemma enqueue_all_sagas:
  "encodes mc \<Longrightarrow> sw_sagas (snd (enqueue_all (sw_env conv) (mem_runner conv sg mc) cs w)) = sw_sagas w"
  using insert_many_sagas [of conv "fst (command_messages (sw_env conv) mc cs w)" "snd (command_messages (sw_env conv) mc cs w)"]
  by (auto simp: enqueue_all_def command_messages_sagas split_beta split: sum.split)

lemma enqueue_allD:
  assumes "encodes mc" and "enqueue_all (sw_env conv) (mem_runner conv sg mc) cs w = (r, w')"
  shows "sw_sagas w' = sw_sagas w"
  using enqueue_all_sagas [OF assms(1), of conv sg cs w] assms(2) by simp

section \<open>What a transition writes\<close>

text \<open>The instance that \<open>apply_transition\<close> hands to the store, apart from its time stamps.\<close>

fun written :: "'i \<Rightarrow> ('i, 's) SagaInstance option \<Rightarrow> ('s, 'c) SagaTransition \<Rightarrow> ('i \<times> nat \<times> 's \<times> SagaStatus \<times> instant option) option" where
  "written i cur Ignore = None"
| "written i cur (Start st _ dl) = Some (i, 0, st, Running, dl)"
| "written i cur (Advance st _ dl) =
     (case cur of None \<Rightarrow> Some (i, 0, st, Running, dl) | Some c \<Rightarrow> Some (si_id c, si_version c, st, Running, dl))"
| "written i cur (Complete st _) =
     (case cur of None \<Rightarrow> Some (i, 0, st, Completed, None) | Some c \<Rightarrow> Some (si_id c, si_version c, st, Completed, None))"
| "written i cur (Fail _ _) =
     (case cur of None \<Rightarrow> None | Some c \<Rightarrow> Some (si_id c, si_version c, si_state c, Failed, None))"

abbreviation essence :: "('i, 's) SagaInstance \<Rightarrow> 'i \<times> nat \<times> 's \<times> SagaStatus \<times> instant option" where
  "essence x \<equiv> (si_id x, si_version x, si_state x, si_status x, si_deadline x)"

fun commands_of :: "('s, 'c) SagaTransition \<Rightarrow> 'c list" where
  "commands_of Ignore = []"
| "commands_of (Start _ cs _) = cs"
| "commands_of (Advance _ cs _) = cs"
| "commands_of (Complete _ cs) = cs"
| "commands_of (Fail _ cs) = cs"

lemma save_then_enqueue_sagas:
  assumes "encodes mc" and "save_then_enqueue (sw_env conv) (mem_runner conv sg mc) inst cs w = (r, w')"
  shows "sw_sagas w' = snd (isg_save inst (sw_sagas w))"
  using assms(2) enqueue_allD [OF assms(1), of conv sg cs]
  by (cases "isg_save inst (sw_sagas w)"; cases "fst (isg_save inst (sw_sagas w))")
    (auto simp: save_then_enqueue_def in_sagas_def)

lemma current_or_running_sagas: "sw_sagas (snd (current_or_running (sw_env conv) i st cur w)) = sw_sagas w"
  by (simp add: current_or_running_def split_beta split: option.split)

text \<open>One save at most, of the instance that \<open>written\<close> describes.\<close>

lemma apply_transition_sagas:
  assumes "encodes mc" and "apply_transition (sw_env conv) (mem_runner conv sg mc) i cur t w = (r, w')"
  shows "case written i cur t of
      None \<Rightarrow> sw_sagas w' = sw_sagas w
    | Some e \<Rightarrow> \<exists>inst. essence inst = e \<and> sw_sagas w' = snd (isg_save inst (sw_sagas w))"
proof (cases t)
  case Ignore
  then show ?thesis using assms(2) by simp
next
  case (Start st cs dl)
  let ?w = "snd (utc_now (sw_env conv) w)" and ?inst = "(SagaInstance_running (fst (utc_now (sw_env conv) w)) i st)\<lparr>si_deadline := dl\<rparr>"
  have "sw_sagas w' = snd (isg_save ?inst (sw_sagas w))"
    using save_then_enqueue_sagas [OF assms(1), of conv sg ?inst cs ?w r w'] assms(2) Start by (simp add: split_beta)
  then show ?thesis using Start by (auto intro!: exI [of _ ?inst] simp: SagaInstance_running_def)
next
  case (Advance st cs dl)
  let ?b = "current_or_running (sw_env conv) i st cur w"
  let ?n = "utc_now (sw_env conv) (snd ?b)"
  let ?inst = "(fst ?b)\<lparr>si_state := st, si_status := Running, si_deadline := dl, si_updated_at := fst ?n\<rparr>"
  have "sw_sagas w' = snd (isg_save ?inst (sw_sagas w))"
    using save_then_enqueue_sagas [OF assms(1), of conv sg ?inst cs "snd ?n" r w'] assms(2) Advance
    by (simp add: split_beta current_or_running_sagas)
  then show ?thesis using Advance
    by (cases cur) (auto intro!: exI [of _ ?inst] simp: current_or_running_def SagaInstance_running_def split_beta)
next
  case (Complete st cs)
  let ?b = "current_or_running (sw_env conv) i st cur w"
  let ?n = "utc_now (sw_env conv) (snd ?b)"
  let ?inst = "(fst ?b)\<lparr>si_state := st, si_status := Completed, si_deadline := None, si_updated_at := fst ?n\<rparr>"
  have "sw_sagas w' = snd (isg_save ?inst (sw_sagas w))"
    using save_then_enqueue_sagas [OF assms(1), of conv sg ?inst cs "snd ?n" r w'] assms(2) Complete
    by (simp add: split_beta current_or_running_sagas)
  then show ?thesis using Complete
    by (cases cur) (auto intro!: exI [of _ ?inst] simp: current_or_running_def SagaInstance_running_def split_beta)
next
  case (Fail reason cs)
  show ?thesis
  proof (cases cur)
    case None
    then show ?thesis using assms(2) Fail enqueue_allD [OF assms(1), of conv sg cs w]
      by (auto split: prod.splits sum.splits)
  next
    case (Some c)
    define inst where "inst = c\<lparr>si_status := Failed, si_deadline := None, si_updated_at := fst (utc_now (sw_env conv) w)\<rparr>"
    let ?w = "snd (utc_now (sw_env conv) w)"
    have "sw_sagas w' = snd (isg_save inst (sw_sagas w))"
      using assms(2) Fail Some
      by (cases "isg_save inst (sw_sagas w)"; cases "fst (isg_save inst (sw_sagas w))")
        (auto simp: inst_def split_beta in_sagas_def enqueue_all_sagas [OF assms(1)] split: sum.splits)
    moreover have "essence inst = (si_id c, si_version c, si_state c, Failed, None)" by (simp add: inst_def)
    ultimately show ?thesis using Fail Some by auto
  qed
qed

section \<open>The store under optimistic concurrency\<close>

lemma isg_save_Ok:
  "fst (isg_save inst s) = Ok () \<longleftrightarrow> si_version inst = (case dm_get s (si_id inst) of None \<Rightarrow> 0 | Some st \<Rightarrow> si_version st)"
  "fst (isg_save inst s) = Ok () \<Longrightarrow> snd (isg_save inst s) = dm_insert (si_id inst) (inst\<lparr>si_version := si_version inst + 1\<rparr>) s"
  "fst (isg_save inst s) \<noteq> Ok () \<Longrightarrow> snd (isg_save inst s) = s"
  by (auto simp: isg_save_def Let_def split: option.splits)

interpretation saga_store: versioned_store "\<lambda>s i. map_option si_version (dm_get s i)"
    "\<lambda>inst s. (fst (isg_save inst s) = Ok (), snd (isg_save inst s))" si_id si_version
  by unfold_locales (auto simp: isg_save_Ok split: option.splits)

lemma isg_claim_all_spec:
  assumes "distinct is" and "\<And>i. i \<in> set is \<Longrightarrow> dm_get s i \<noteq> None"
    and "isg_claim_all now lease is s = (claimed, s')"
  shows "dm_get s' j = (if j \<in> set is
        then map_option (\<lambda>x. x\<lparr>si_deadline := Some (now + lease), si_version := si_version x + 1\<rparr>) (dm_get s j) else dm_get s j)
    \<and> (dm_wf s \<longrightarrow> dm_wf s')
    \<and> claimed = map (\<lambda>i. (the (dm_get s i))\<lparr>si_version := si_version (the (dm_get s i)) + 1\<rparr>) is"
  using assms
proof (induction "is" arbitrary: s claimed)
  case (Cons i "is")
  obtain x where x: "dm_get s i = Some x" using Cons.prems(2) by fastforce
  let ?x = "x\<lparr>si_deadline := Some (now + lease), si_version := si_version x + 1\<rparr>"
  obtain cl where cl: "isg_claim_all now lease is (dm_insert i ?x s) = (cl, s')"
    and claimed: "claimed = ?x\<lparr>si_deadline := si_deadline x\<rparr> # cl"
    using Cons.prems(3) x by (auto simp: split_beta Let_def prod_eq_iff)
  have i: "i \<notin> set is" "distinct is" using Cons.prems(1) by auto
  have "dm_get (dm_insert i ?x s) k \<noteq> None" if "k \<in> set is" for k using Cons.prems(2) that by auto
  note IH = Cons.IH [OF i(2) this cl]
  have "map (\<lambda>k. (the (dm_get (dm_insert i ?x s) k))\<lparr>si_version := si_version (the (dm_get (dm_insert i ?x s) k)) + 1\<rparr>) is
      = map (\<lambda>k. (the (dm_get s k))\<lparr>si_version := si_version (the (dm_get s k)) + 1\<rparr>) is"
    using i(1) by (intro map_cong) auto
  then show ?case using IH claimed x i(1) by auto
qed simp

lemma isg_candidates_props:
  assumes "dm_wf s"
  shows "distinct (isg_candidates now limit s)"
    and "i \<in> set (isg_candidates now limit s) \<Longrightarrow> \<exists>x. dm_get s i = Some x \<and> isg_due now x"
proof -
  have d: "distinct (map fst (filter (\<lambda>(i, inst). isg_due now inst) s))"
    using assms by (simp add: dm_wf_def distinct_map_filter)
  then show "distinct (isg_candidates now limit s)" by (simp add: isg_candidates_def)
  assume "i \<in> set (isg_candidates now limit s)"
  then obtain x where "(i, x) \<in> set s" "isg_due now x"
    by (auto simp: isg_candidates_def dest!: in_set_takeD)
  then show "\<exists>x. dm_get s i = Some x \<and> isg_due now x" using dm_get_in_set [OF assms] by blast
qed

lemma isg_claim_due_spec:
  assumes "dm_wf s" and "isg_claim_due now lease limit s = (r, s')"
  shows "\<exists>claimed. r = Ok claimed \<and> dm_wf s' \<and> map si_id claimed = map (\<lambda>i. si_id (the (dm_get s i))) (isg_candidates now limit s)
    \<and> (\<forall>c \<in> set claimed. \<exists>i x. i \<in> set (isg_candidates now limit s) \<and> dm_get s i = Some x \<and> isg_due now x \<and> c = x\<lparr>si_version := si_version x + 1\<rparr>)
    \<and> (\<forall>j. dm_get s' j = (if j \<in> set (isg_candidates now limit s)
        then map_option (\<lambda>x. x\<lparr>si_deadline := Some (now + lease), si_version := si_version x + 1\<rparr>) (dm_get s j) else dm_get s j))"
proof -
  obtain claimed where e: "isg_claim_all now lease (isg_candidates now limit s) s = (claimed, s')" "r = Ok claimed"
    using assms(2) by (auto simp: isg_claim_due_def split: prod.splits)
  have p: "\<And>i. i \<in> set (isg_candidates now limit s) \<Longrightarrow> dm_get s i \<noteq> None"
    using isg_candidates_props(2) [OF assms(1)] by fastforce
  note spec = isg_claim_all_spec [OF isg_candidates_props(1) [OF assms(1)] p e(1)]
  have c: "claimed = map (\<lambda>i. (the (dm_get s i))\<lparr>si_version := si_version (the (dm_get s i)) + 1\<rparr>) (isg_candidates now limit s)"
    using spec by blast
  have "\<exists>i x. i \<in> set (isg_candidates now limit s) \<and> dm_get s i = Some x \<and> isg_due now x \<and> k = x\<lparr>si_version := si_version x + 1\<rparr>"
    if "k \<in> set claimed" for k
  proof -
    obtain i where i: "i \<in> set (isg_candidates now limit s)" "k = (the (dm_get s i))\<lparr>si_version := si_version (the (dm_get s i)) + 1\<rparr>"
      using \<open>k \<in> set claimed\<close> unfolding c by auto
    from isg_candidates_props(2) [OF assms(1) i(1)] show ?thesis using i by auto
  qed
  then show ?thesis using e spec assms(1) c by (intro exI [of _ claimed]) (auto simp: comp_def)
qed

section \<open>Concurrent handlers and sweepers\<close>

text \<open>
  The store together with what handlers have loaded (\<open>T\<close>) and sweepers have claimed (\<open>C\<close>) and not yet
  acted on, cut at the await points of \<open>handle_loop\<close> and \<open>timeouts_loop\<close>. A handler loads an instance
  and, at any later moment, goes on with whatever transition its saga has answered; a sweeper claims
  due instances and goes on with each of them in the same way. The rest of the world changes freely.
\<close>

inductive saga_step ::
    "(duration \<Rightarrow> string + duration) \<Rightarrow> (('i, 's) SagaWorld, 'i, 's, 'ev, 'c) SagaRunner
     \<Rightarrow> ('i, 's) SagaWorld \<times> ('i \<times> ('i, 's) SagaInstance option) set \<times> ('i, 's) SagaInstance set
     \<Rightarrow> ('i, 's) SagaWorld \<times> ('i \<times> ('i, 's) SagaInstance option) set \<times> ('i, 's) SagaInstance set \<Rightarrow> bool"
  for conv :: "duration \<Rightarrow> string + duration" and Rn :: "(('i, 's) SagaWorld, 'i, 's, 'ev, 'c) SagaRunner" where
  sg_load: "saga_load (sr_store Rn) i w = (Ok cur, w') \<Longrightarrow> saga_step conv Rn (w, T, C) (w', insert (i, cur) T, C)"
| sg_react: "(i, cur) \<in> T \<Longrightarrow> apply_reaction (sw_env conv) Rn i cur t w = (r, w') \<Longrightarrow>
    saga_step conv Rn (w, T, C) (w', T, C)"
| sg_claim: "claim_due (sr_store Rn) now lease limit w = (Ok due, w') \<Longrightarrow>
    saga_step conv Rn (w, T, C) (w', T, C \<union> set due)"
| sg_timeout: "inst \<in> C \<Longrightarrow> apply_timeout (sw_env conv) Rn inst t w = (r, w') \<Longrightarrow>
    saga_step conv Rn (w, T, C) (w', T, C)"
| sg_other: "sw_sagas w' = sw_sagas w \<Longrightarrow> saga_step conv Rn (w, T, C) (w', T, C)"

inductive saga_run ::
    "(duration \<Rightarrow> string + duration) \<Rightarrow> (('i, 's) SagaWorld, 'i, 's, 'ev, 'c) SagaRunner
     \<Rightarrow> ('i, 's) SagaWorld \<times> ('i \<times> ('i, 's) SagaInstance option) set \<times> ('i, 's) SagaInstance set
     \<Rightarrow> ('i, 's) SagaWorld \<times> ('i \<times> ('i, 's) SagaInstance option) set \<times> ('i, 's) SagaInstance set \<Rightarrow> bool"
  for conv :: "duration \<Rightarrow> string + duration" and Rn :: "(('i, 's) SagaWorld, 'i, 's, 'ev, 'c) SagaRunner" where
  run_done: "saga_run conv Rn x x"
| run_step: "saga_run conv Rn x y \<Longrightarrow> saga_step conv Rn y z \<Longrightarrow> saga_run conv Rn x z"

inductive_cases saga_stepE: "saga_step conv Rn (w, T, C) y"

lemma saga_run_trans: "saga_run conv Rn y z \<Longrightarrow> saga_run conv Rn x y \<Longrightarrow> saga_run conv Rn x z"
  by (induction rule: saga_run.induct) (auto intro: run_step)

text \<open>The instances that handlers and sweepers hold.\<close>

abbreviation held :: "('i \<times> ('i, 's) SagaInstance option) set \<Rightarrow> ('i, 's) SagaInstance set \<Rightarrow> ('i \<times> ('i, 's) SagaInstance option) set" where
  "held T C \<equiv> T \<union> (\<lambda>inst. (si_id inst, Some inst)) ` C"

text \<open>What is held is at most as new as what is stored, and current when the versions agree.\<close>

definition held_ok :: "('i, 's) InMemorySagaStore \<Rightarrow> 'i \<Rightarrow> ('i, 's) SagaInstance \<Rightarrow> bool" where
  "held_ok s i c \<longleftrightarrow> si_id c = i \<and> (\<exists>st. dm_get s i = Some st \<and> si_version c \<le> si_version st
     \<and> (si_version c = si_version st \<longrightarrow> si_state c = si_state st \<and> si_status c = si_status st))"

definition saga_inv :: "('i, 's) InMemorySagaStore \<Rightarrow> ('i \<times> ('i, 's) SagaInstance option) set \<Rightarrow> bool" where
  "saga_inv s T \<longleftrightarrow> dm_wf s \<and> (\<forall>i st. dm_get s i = Some st \<longrightarrow> si_id st = i \<and> 0 < si_version st)
     \<and> (\<forall>i c. (i, Some c) \<in> T \<longrightarrow> held_ok s i c)"

definition grows :: "('i, 's) InMemorySagaStore \<Rightarrow> ('i, 's) InMemorySagaStore \<Rightarrow> bool" where
  "grows s s' \<longleftrightarrow> (\<forall>i st. dm_get s i = Some st \<longrightarrow>
     dm_get s' i = Some st \<or> (\<exists>st'. dm_get s' i = Some st' \<and> si_version st < si_version st'))"

lemma held_ok_grows: "held_ok s i c \<Longrightarrow> grows s s' \<Longrightarrow> held_ok s' i c"
proof -
  assume "held_ok s i c" "grows s s'"
  then obtain st where st: "si_id c = i" "dm_get s i = Some st" "si_version c \<le> si_version st"
      "si_version c = si_version st \<longrightarrow> si_state c = si_state st \<and> si_status c = si_status st"
    and "dm_get s' i = Some st \<or> (\<exists>st'. dm_get s' i = Some st' \<and> si_version st < si_version st')"
    unfolding held_ok_def grows_def by blast
  then show ?thesis unfolding held_ok_def by fastforce
qed

lemma saga_invD:
  assumes "saga_inv s T"
  shows "dm_wf s" and "dm_get s i = Some st \<Longrightarrow> si_id st = i" and "dm_get s i = Some st \<Longrightarrow> 0 < si_version st"
    and "(i, Some c) \<in> T \<Longrightarrow> held_ok s i c"
  using assms unfolding saga_inv_def by blast+

lemma saga_invI:
  assumes "dm_wf s" and "\<And>i st. dm_get s i = Some st \<Longrightarrow> si_id st = i" and "\<And>i st. dm_get s i = Some st \<Longrightarrow> 0 < si_version st"
    and "\<And>i c. (i, Some c) \<in> T \<Longrightarrow> held_ok s i c"
  shows "saga_inv s T"
  using assms unfolding saga_inv_def by blast

lemma grows_refl: "grows s s"
  by (simp add: grows_def)

lemma isg_save_grows: "grows s (snd (isg_save inst s))"
proof (cases "fst (isg_save inst s) = Ok ()")
  case True
  then show ?thesis using isg_save_Ok(1,2) [of inst s] by (auto simp: grows_def)
next
  case False
  then show ?thesis by (simp add: grows_def isg_save_Ok)
qed

lemma saga_inv_save:
  assumes "saga_inv s T"
  shows "saga_inv (snd (isg_save inst s)) T"
proof (cases "fst (isg_save inst s) = Ok ()")
  case True
  note s' = isg_save_Ok(2) [OF True]
  show ?thesis
  proof (rule saga_invI)
    show "dm_wf (snd (isg_save inst s))" using saga_invD(1) [OF assms] by (simp add: s')
    show "si_id st = i" "0 < si_version st" if "dm_get (snd (isg_save inst s)) i = Some st" for i st
      using that saga_invD(2,3) [OF assms, of i st] by (auto simp: s' split: if_splits)
    show "held_ok (snd (isg_save inst s)) i c" if "(i, Some c) \<in> T" for i c
      using held_ok_grows [OF saga_invD(4) [OF assms that] isg_save_grows] .
  qed
next
  case False
  then show ?thesis using assms by (simp add: isg_save_Ok)
qed

lemma saga_inv_claim:
  assumes "saga_inv s T" and "isg_claim_due now lease limit s = (Ok due, s')"
  shows "saga_inv s' (T \<union> (\<lambda>inst. (si_id inst, Some inst)) ` set due)"
proof -
  note wf = saga_invD(1) [OF assms(1)]
  have c: "dm_wf s'" "\<And>c. c \<in> set due \<Longrightarrow> \<exists>i x. i \<in> set (isg_candidates now limit s) \<and> dm_get s i = Some x
      \<and> c = x\<lparr>si_version := si_version x + 1\<rparr>"
    "\<And>j. dm_get s' j = (if j \<in> set (isg_candidates now limit s)
        then map_option (\<lambda>x. x\<lparr>si_deadline := Some (now + lease), si_version := si_version x + 1\<rparr>) (dm_get s j) else dm_get s j)"
    using isg_claim_due_spec [OF wf assms(2)] by blast+
  have g: "grows s s'" by (auto simp: grows_def c(3))
  show ?thesis
  proof (rule saga_invI)
    show "si_id st = i" "0 < si_version st" if "dm_get s' i = Some st" for i st
      using that saga_invD(2,3) [OF assms(1), of i] unfolding c(3) by (auto split: if_splits)
    show "held_ok s' i x" if "(i, Some x) \<in> T \<union> (\<lambda>inst. (si_id inst, Some inst)) ` set due" for i x
    proof (cases "(i, Some x) \<in> T")
      case True
      then show ?thesis using held_ok_grows [OF saga_invD(4) [OF assms(1)] g] by blast
    next
      case False
      then have x: "x \<in> set due" "si_id x = i" using that by auto
      then obtain j y where y: "j \<in> set (isg_candidates now limit s)" "dm_get s j = Some y" "x = y\<lparr>si_version := si_version y + 1\<rparr>"
        using c(2) by blast
      moreover have "j = i" using saga_invD(2) [OF assms(1) y(2)] y(3) x(2) by simp
      ultimately show ?thesis using x(2) by (simp add: held_ok_def c(3))
    qed
  qed (rule c(1))
qed

lemma clear_deadline_sagas:
  "clear_deadline (sw_env conv) (mem_runner conv sg mc) inst w = (r, w') \<Longrightarrow>
     \<exists>x. si_id x = si_id inst \<and> si_version x = si_version inst \<and> si_state x = si_state inst
       \<and> si_status x = si_status inst \<and> sw_sagas w' = snd (isg_save x (sw_sagas w))"
  by (rule exI [of _ "inst\<lparr>si_deadline := None, si_updated_at := fst (utc_now (sw_env conv) w)\<rparr>"])
    (auto simp: clear_deadline_def in_sagas_def split_beta split: sum.splits)

lemma written_base:
  assumes "written i cur t = Some (j, v, st, x, d)" and "\<And>c. cur = Some c \<Longrightarrow> si_id c = i"
  shows "j = i" and "v = 0 \<or> (\<exists>c. cur = Some c \<and> v = si_version c)"
  using assms by (cases t; cases cur; auto)+

text \<open>
  A save on behalf of the holder of \<open>cur\<close>: of that instance, at the version it has, or at version 0.
\<close>

definition saved_from :: "'i \<Rightarrow> ('i, 's) SagaInstance option \<Rightarrow> ('i, 's) InMemorySagaStore \<Rightarrow> ('i, 's) InMemorySagaStore \<Rightarrow> bool" where
  "saved_from i cur s s' \<longleftrightarrow> s' = s \<or> (\<exists>inst. s' = snd (isg_save inst s) \<and> si_id inst = i
     \<and> (si_version inst = 0 \<or> (\<exists>c. cur = Some c \<and> si_version inst = si_version c)))"

lemma apply_transition_saved:
  assumes "encodes mc" and "apply_transition (sw_env conv) (mem_runner conv sg mc) i cur t w = (r, w')"
    and "\<And>c. cur = Some c \<Longrightarrow> si_id c = i"
  shows "saved_from i cur (sw_sagas w) (sw_sagas w')"
proof (cases "written i cur t")
  case None
  then show ?thesis using apply_transition_sagas [OF assms(1,2)] by (simp add: saved_from_def)
next
  case (Some x)
  then obtain inst where inst: "essence inst = x" "sw_sagas w' = snd (isg_save inst (sw_sagas w))"
    using apply_transition_sagas [OF assms(1,2)] by auto
  then show ?thesis using written_base [OF Some [folded inst(1)] assms(3)] unfolding saved_from_def by blast
qed

lemma apply_reaction_saved:
  assumes "encodes mc" and "apply_reaction (sw_env conv) (mem_runner conv sg mc) i cur t w = (r, w')"
    and "\<And>c. cur = Some c \<Longrightarrow> si_id c = i"
  shows "saved_from i cur (sw_sagas w) (sw_sagas w')" and "is_terminal cur \<Longrightarrow> sw_sagas w' = sw_sagas w"
proof -
  show "saved_from i cur (sw_sagas w) (sw_sagas w')"
  proof (cases "t = Ignore \<or> is_terminal cur")
    case False
    then have "apply_transition (sw_env conv) (mem_runner conv sg mc) i cur t w = (r, w')" using assms(2) by (simp add: apply_reaction_def)
    then show ?thesis by (rule apply_transition_saved [OF assms(1) _ assms(3)])
  qed (use assms(2) in \<open>auto simp: apply_reaction_def saved_from_def split: if_splits\<close>)
  show "sw_sagas w' = sw_sagas w" if "is_terminal cur" using that assms(2) by (auto simp: apply_reaction_def split: if_splits)
qed

lemma apply_timeout_saved:
  assumes "encodes mc" and "apply_timeout (sw_env conv) (mem_runner conv sg mc) inst t w = (r, w')"
  shows "saved_from (si_id inst) (Some inst) (sw_sagas w) (sw_sagas w')"
proof (cases "t = Ignore")
  case True
  then show ?thesis using clear_deadline_sagas [of conv sg mc inst w r w'] assms(2)
    by (auto simp: apply_timeout_def saved_from_def)
next
  case False
  obtain r1 w1 where e: "apply_transition (sw_env conv) (mem_runner conv sg mc) (si_id inst) (Some inst) t w = (r1, w1)" by fastforce
  then have "w' = w1" using assms(2) False by (auto simp: apply_timeout_def split: sum.splits SagaRunnerError.splits)
  then show ?thesis using apply_transition_saved [OF assms(1) e] by simp
qed

lemma saga_inv_saved: "saga_inv s T \<Longrightarrow> saved_from i cur s s' \<Longrightarrow> saga_inv s' T"
  unfolding saved_from_def using saga_inv_save by auto

text \<open>The invariant of a run: what is held is in order, and what is claimed is running.\<close>

definition run_inv :: "('i, 's) SagaWorld \<times> ('i \<times> ('i, 's) SagaInstance option) set \<times> ('i, 's) SagaInstance set \<Rightarrow> bool" where
  "run_inv x \<longleftrightarrow> (case x of (w, T, C) \<Rightarrow> saga_inv (sw_sagas w) (held T C) \<and> (\<forall>inst \<in> C. si_status inst = Running))"

lemma held_id: "saga_inv s T \<Longrightarrow> (i, Some c) \<in> T \<Longrightarrow> si_id c = i"
  using saga_invD(4) [of s T i c] by (simp add: held_ok_def)

text \<open>
  Every step keeps the invariant and either saves on behalf of something held that was not
  terminal, or claims, or leaves the store alone.
\<close>

lemma saga_step_effect:
  assumes "encodes mc" and "saga_step conv (mem_runner conv sg mc) (w, T, C) (w', T', C')" and inv: "run_inv (w, T, C)"
  shows "(\<exists>i cur. (i, cur) \<in> held T C \<and> \<not> is_terminal cur \<and> saved_from i cur (sw_sagas w) (sw_sagas w') \<and> T' = T \<and> C' = C)
    \<or> (\<exists>now lease limit due. isg_claim_due now lease limit (sw_sagas w) = (Ok due, sw_sagas w') \<and> T' = T \<and> C' = C \<union> set due)
    \<or> sw_sagas w' = sw_sagas w \<and> C' = C \<and> (T' = T \<or> (\<exists>i. T' = insert (i, dm_get (sw_sagas w) i) T))"
  using assms(2)
proof (rule saga_stepE)
  fix i cur w1
  assume "saga_load (sr_store (mem_runner conv sg mc)) i w = (Ok cur, w1)" "(w', T', C') = (w1, insert (i, cur) T, C)"
  then show ?thesis by (auto simp: in_sagas_def isg_load_def)
next
  fix i cur t r w1
  assume a: "(i, cur) \<in> T" "apply_reaction (sw_env conv) (mem_runner conv sg mc) i cur t w = (r, w1)" and e: "(w', T', C') = (w1, T, C)"
  have "si_id c = i" if "cur = Some c" for c using held_id [of _ "held T C" i c] inv a(1) that by (auto simp: run_inv_def)
  note s = apply_reaction_saved [OF assms(1) a(2) this]
  show ?thesis
  proof (cases "is_terminal cur")
    case False
    then show ?thesis using s(1) a(1) e by blast
  qed (use s(2) e in simp)
next
  fix now lease limit due w1
  assume "claim_due (sr_store (mem_runner conv sg mc)) now lease limit w = (Ok due, w1)" "(w', T', C') = (w1, T, C \<union> set due)"
  then have "isg_claim_due now lease limit (sw_sagas w) = (Ok due, sw_sagas w') \<and> T' = T \<and> C' = C \<union> set due"
    by (auto simp: in_sagas_def split: prod.splits)
  then show ?thesis by blast
next
  fix inst t r w1
  assume a: "inst \<in> C" "apply_timeout (sw_env conv) (mem_runner conv sg mc) inst t w = (r, w1)" and e: "(w', T', C') = (w1, T, C)"
  have "\<not> is_terminal (Some inst)" using inv a(1) by (simp add: run_inv_def is_terminal_def)
  moreover have "(si_id inst, Some inst) \<in> held T C" using a(1) by simp
  ultimately show ?thesis using apply_timeout_saved [OF assms(1) a(2)] e by blast
next
  fix w1
  assume "sw_sagas w1 = sw_sagas w" "(w', T', C') = (w1, T, C)"
  then show ?thesis by simp
qed

lemma saga_step_inv:
  assumes "encodes mc" and "saga_step conv (mem_runner conv sg mc) (w, T, C) (w', T', C')" and inv: "run_inv (w, T, C)"
  shows "run_inv (w', T', C')"
proof -
  have i: "saga_inv (sw_sagas w) (held T C)" "\<forall>inst \<in> C. si_status inst = Running" using inv by (simp_all add: run_inv_def)
  from saga_step_effect [OF assms] show ?thesis
  proof (elim disjE exE conjE)
    fix j cur
    assume s: "saved_from j cur (sw_sagas w) (sw_sagas w')" and "T' = T" "C' = C"
    then show ?thesis using saga_inv_saved [OF i(1) s] i(2) by (simp add: run_inv_def)
  next
    fix now lease limit due
    assume c: "isg_claim_due now lease limit (sw_sagas w) = (Ok due, sw_sagas w')" and "T' = T" "C' = C \<union> set due"
    moreover have "\<forall>inst \<in> set due. si_status inst = Running"
      using isg_claim_due_spec [OF saga_invD(1) [OF i(1)] c] by (fastforce simp: isg_due_def)
    ultimately show ?thesis using saga_inv_claim [OF i(1) c] i(2) by (auto simp: run_inv_def image_Un Un_assoc)
  next
    assume "sw_sagas w' = sw_sagas w" "C' = C" "T' = T"
    then show ?thesis using i by (simp add: run_inv_def)
  next
    fix j
    assume e: "sw_sagas w' = sw_sagas w" "C' = C" "T' = insert (j, dm_get (sw_sagas w) j) T"
    have "held_ok (sw_sagas w) j c" if "dm_get (sw_sagas w) j = Some c" for c
      using saga_invD(2) [OF i(1) that] that by (simp add: held_ok_def)
    then have "held_ok (sw_sagas w) k c" if "(k, Some c) \<in> insert (j, dm_get (sw_sagas w) j) (held T C)" for k c
      using that saga_invD(4) [OF i(1)] by auto
    then have "saga_inv (sw_sagas w) (insert (j, dm_get (sw_sagas w) j) (held T C))"
      using saga_invD(1-3) [OF i(1)] by (intro saga_invI) simp_all
    then show ?thesis using e i(2) by (simp add: run_inv_def)
  qed
qed

lemma saga_run_inv:
  assumes "saga_run conv (mem_runner conv sg mc) x y" and "encodes mc" and "run_inv x"
  shows "run_inv y"
  using assms
proof (induction rule: saga_run.induct)
  case (run_step x y z)
  then show ?case by (cases y; cases z) (auto dest: saga_step_inv)
qed

lemma run_inv_start: "sw_sagas w = [] \<Longrightarrow> run_inv (w, {}, {})"
  by (simp add: run_inv_def saga_inv_def)

text \<open>An accepted save of what was held replaces exactly what was held.\<close>

lemma accepted_save_current:
  assumes "saga_inv s T" and "(i, cur) \<in> T" and "si_id inst = i"
    and "si_version inst = 0 \<or> (\<exists>c. cur = Some c \<and> si_version inst = si_version c)"
    and "fst (isg_save inst s) = Ok ()"
  shows "dm_get s i = None \<and> cur = None
    \<or> (\<exists>c st. cur = Some c \<and> dm_get s i = Some st \<and> si_version inst = si_version st
        \<and> si_version c = si_version st \<and> si_state c = si_state st \<and> si_status c = si_status st)"
proof -
  have v: "si_version inst = (case dm_get s i of None \<Rightarrow> 0 | Some st \<Rightarrow> si_version st)"
    using assms(3,5) isg_save_Ok(1) by metis
  show ?thesis
  proof (cases cur)
    case None
    then have "si_version inst = 0" using assms(4) by simp
    then have "dm_get s i = None" using v saga_invD(3) [OF assms(1), of i] by (cases "dm_get s i") auto
    then show ?thesis using None by simp
  next
    case (Some c)
    then have "held_ok s i c" using saga_invD(4) [OF assms(1)] assms(2) by blast
    then obtain st where st: "dm_get s i = Some st" "si_version c \<le> si_version st"
      "si_version c = si_version st \<longrightarrow> si_state c = si_state st \<and> si_status c = si_status st"
      by (auto simp: held_ok_def)
    then have "0 < si_version st" "si_version inst = si_version st" using v saga_invD(3) [OF assms(1) st(1)] by auto
    then show ?thesis using Some st assms(4) by auto
  qed
qed

text \<open>A terminal instance is not replaced by anything that was held and not terminal.\<close>

lemma terminal_save_rejected:
  assumes "saga_inv s T" and "(i, cur) \<in> T" and "\<not> is_terminal cur" and "si_id inst = i"
    and "si_version inst = 0 \<or> (\<exists>c. cur = Some c \<and> si_version inst = si_version c)"
    and "dm_get s i = Some st" and "si_status st \<noteq> Running"
  shows "snd (isg_save inst s) = s"
proof (rule ccontr)
  assume "snd (isg_save inst s) \<noteq> s"
  then have "fst (isg_save inst s) = Ok ()" using isg_save_Ok(3) by blast
  from accepted_save_current [OF assms(1,2,4,5) this] show False
    using assms(3,6,7) by (auto simp: is_terminal_def)
qed

lemma saved_elsewhere: "si_id inst \<noteq> j \<Longrightarrow> dm_get (snd (isg_save inst s)) j = dm_get s j"
  by (cases "fst (isg_save inst s) = Ok ()") (auto simp: isg_save_Ok)

lemma terminal_save_keeps:
  assumes "saga_inv s T" and "(i, cur) \<in> T" and "\<not> is_terminal cur" and "si_id inst = i"
    and "si_version inst = 0 \<or> (\<exists>c. cur = Some c \<and> si_version inst = si_version c)"
    and "dm_get s j = Some st" and "si_status st \<noteq> Running"
  shows "dm_get (snd (isg_save inst s)) j = Some st"
proof (cases "j = i")
  case True
  then show ?thesis using terminal_save_rejected [OF assms(1-5)] assms(6,7) by simp
next
  case False
  then show ?thesis using saved_elsewhere [of inst j s] assms(4,6) by simp
qed

lemma terminal_step:
  assumes "encodes mc" and "saga_step conv (mem_runner conv sg mc) (w, T, C) (w', T', C')" and inv: "run_inv (w, T, C)"
    and st: "dm_get (sw_sagas w) j = Some st" "si_status st \<noteq> Running"
  shows "dm_get (sw_sagas w') j = Some st"
proof -
  have i: "saga_inv (sw_sagas w) (held T C)" using inv by (simp add: run_inv_def)
  from saga_step_effect [OF assms(1,2) inv] show ?thesis
  proof (elim disjE exE conjE)
    fix k cur
    assume a: "(k, cur) \<in> held T C" "\<not> is_terminal cur" and s: "saved_from k cur (sw_sagas w) (sw_sagas w')"
    then show ?thesis using terminal_save_keeps [OF i a _ _ st] st by (auto simp: saved_from_def)
  next
    fix now lease limit due
    assume c: "isg_claim_due now lease limit (sw_sagas w) = (Ok due, sw_sagas w')"
    have "j \<notin> set (isg_candidates now limit (sw_sagas w))"
      using isg_candidates_props(2) [OF saga_invD(1) [OF i]] st by (fastforce simp: isg_due_def)
    then show ?thesis using isg_claim_due_spec [OF saga_invD(1) [OF i] c] st by simp
  qed (use st in simp_all)
qed

lemma terminal_run:
  assumes "saga_run conv (mem_runner conv sg mc) x y" and "encodes mc" and "run_inv x"
    and "dm_get (sw_sagas (fst x)) i = Some st" "si_status st \<noteq> Running"
  shows "dm_get (sw_sagas (fst y)) i = Some st"
  using assms
proof (induction rule: saga_run.induct)
  case (run_step x y z)
  have "run_inv y" by (rule saga_run_inv [OF run_step.hyps(1) run_step.prems(1,2)])
  then show ?case using run_step terminal_step [of mc conv sg] by (cases y; cases z) fastforce
qed

lemma run_grows:
  assumes "saga_run conv (mem_runner conv sg mc) x y" and "encodes mc" and "run_inv x"
    and "dm_get (sw_sagas (fst x)) i = Some st"
  shows "\<exists>st'. dm_get (sw_sagas (fst y)) i = Some st' \<and> (st' = st \<or> si_version st < si_version st')"
  using assms
proof (induction rule: saga_run.induct)
  case (run_step x y z)
  obtain w T C w' T' C' where e: "y = (w, T, C)" "z = (w', T', C')" by (cases y; cases z)
  have inv: "run_inv (w, T, C)" using saga_run_inv [OF run_step.hyps(1) run_step.prems(1,2)] e(1) by simp
  obtain s1 where s1: "dm_get (sw_sagas w) i = Some s1" "s1 = st \<or> si_version st < si_version s1"
    using run_step.IH [OF run_step.prems] e(1) by auto
  have g: "grows (sw_sagas w) (sw_sagas w')"
    using saga_step_effect [OF run_step.prems(1) run_step.hyps(2) [unfolded e] inv]
  proof (elim disjE exE conjE)
    fix k cur assume "saved_from k cur (sw_sagas w) (sw_sagas w')"
    then show ?thesis by (auto simp: saved_from_def intro: isg_save_grows grows_refl)
  next
    fix now lease limit due
    assume c: "isg_claim_due now lease limit (sw_sagas w) = (Ok due, sw_sagas w')"
    have "dm_wf (sw_sagas w)" using inv saga_invD(1) by (auto simp: run_inv_def)
    from isg_claim_due_spec [OF this c] show ?thesis by (auto simp: grows_def)
  qed (simp_all add: grows_def)
  then show ?case using s1 e(2) by (fastforce simp: grows_def)
qed auto

text \<open>
  A whole call of \<open>handle\<close> or \<open>run_due_timeouts\<close> is a run of these steps, when the saga itself does not write
  to the store.
\<close>

definition quiet_saga :: "(('i, 's) SagaWorld, 'i, 's, 'ev, 'c) Saga \<Rightarrow> bool" where
  "quiet_saga sg \<longleftrightarrow> (\<forall>cur ev w. sw_sagas (snd (react sg cur ev w)) = sw_sagas w)
     \<and> (\<forall>inst w. sw_sagas (snd (on_timeout sg inst w)) = sw_sagas w)"

lemma handle_loop_run:
  assumes "quiet_saga sg" and "handle_loop (sw_env conv) (mem_runner conv sg mc) i ev n lc w = (r, w')"
  shows "\<exists>T'. saga_run conv (mem_runner conv sg mc) (w, T, C) (w', T', C)"
  using assms(2)
proof (induction n arbitrary: lc w T)
  case 0
  then have "w' = w" by (simp split: option.splits prod.splits)
  then show ?case using run_done by blast
next
  case (Suc n)
  let ?Rn = "mem_runner conv sg mc"
  obtain cur where l: "in_sagas (isg_load i) w = (Ok cur, w)" by (simp add: in_sagas_def isg_load_def)
  then have s1: "saga_run conv ?Rn (w, T, C) (w, insert (i, cur) T, C)"
    by (intro run_step [OF run_done] sg_load) simp
  obtain ra w2 where re: "react sg cur ev w = (ra, w2)" by fastforce
  have "sw_sagas w2 = sw_sagas w" using assms(1) re unfolding quiet_saga_def by (metis snd_conv)
  then have s2: "saga_run conv ?Rn (w, T, C) (w2, insert (i, cur) T, C)" by (intro run_step [OF s1] sg_other)
  show ?case
  proof (cases ra)
    case (Inl e)
    then show ?thesis using Suc.prems l re s2 by auto
  next
    case (Inr t)
    obtain rb w3 where ap: "apply_reaction (sw_env conv) ?Rn i cur t w2 = (rb, w3)" by fastforce
    then have s3: "saga_run conv ?Rn (w, T, C) (w3, insert (i, cur) T, C)"
      by (intro run_step [OF s2] sg_react [where i = i and cur = cur]) simp_all
    show ?thesis
    proof (cases "\<exists>x a. rb = Err (RunnerConflict x a)")
      case True
      then obtain x a where "rb = Err (RunnerConflict x a)" by blast
      then have "handle_loop (sw_env conv) ?Rn i ev n (Some (x, a)) w3 = (r, w')" using Suc.prems l re Inr ap by simp
      from Suc.IH [OF this, of "insert (i, cur) T"] s3 show ?thesis using saga_run_trans by blast
    next
      case False
      then have "w' = w3" using Suc.prems l re Inr ap by (auto split: sum.splits SagaRunnerError.splits)
      then show ?thesis using s3 by blast
    qed
  qed
qed

lemma saga_handle_run:
  assumes "quiet_saga sg" and "saga_handle (sw_env conv) (mem_runner conv sg mc) ev w = (r, w')"
  shows "\<exists>T'. saga_run conv (mem_runner conv sg mc) (w, T, C) (w', T', C)"
  using assms handle_loop_run [OF assms(1)] run_done by (fastforce simp: saga_handle_def split: option.splits)

lemma timeouts_loop_run:
  assumes "quiet_saga sg" and "timeouts_loop (sw_env conv) (mem_runner conv sg mc) due k w = (r, w')" and "set due \<subseteq> C"
  shows "saga_run conv (mem_runner conv sg mc) (w, T, C) (w', T, C)"
  using assms(2,3)
proof (induction due arbitrary: k w)
  case Nil
  then show ?case using run_done by auto
next
  case (Cons inst due)
  let ?Rn = "mem_runner conv sg mc"
  obtain ra w1 where re: "on_timeout sg inst w = (ra, w1)" by fastforce
  have "sw_sagas w1 = sw_sagas w" using assms(1) re unfolding quiet_saga_def by (metis snd_conv)
  then have s1: "saga_run conv ?Rn (w, T, C) (w1, T, C)" by (intro run_step [OF run_done] sg_other)
  show ?case
  proof (cases ra)
    case (Inl e)
    then show ?thesis using Cons.prems re s1 by auto
  next
    case (Inr t)
    obtain rb w2 where ap: "apply_timeout (sw_env conv) ?Rn inst t w1 = (rb, w2)" by fastforce
    then have s2: "saga_run conv ?Rn (w, T, C) (w2, T, C)"
      using Cons.prems(2) by (intro run_step [OF s1] sg_timeout [where inst = inst]) simp_all
    then show ?thesis using Cons re Inr ap saga_run_trans [OF Cons.IH [of "k + 1" w2] s2] by (cases rb) auto
  qed
qed

lemma run_due_timeouts_run:
  assumes "quiet_saga sg" and "run_due_timeouts (sw_env conv) (mem_runner conv sg mc) now lease limit w = (r, w')"
  shows "\<exists>C'. saga_run conv (mem_runner conv sg mc) (w, T, C) (w', T, C')"
proof -
  let ?Rn = "mem_runner conv sg mc"
  obtain due w1 where c: "claim_due (sr_store ?Rn) now lease limit w = (Ok due, w1)"
    by (simp add: in_sagas_def isg_claim_due_def split_beta)
  have s1: "saga_run conv ?Rn (w, T, C) (w1, T, C \<union> set due)" by (intro run_step [OF run_done] sg_claim) (rule c)
  have "timeouts_loop (sw_env conv) ?Rn due 0 w1 = (r, w')" using assms(2) c by (simp add: run_due_timeouts_def del: mem_runner_sel)
  from timeouts_loop_run [OF assms(1) this, of "C \<union> set due"] show ?thesis using saga_run_trans [OF _ s1] by blast
qed

section \<open>What is enqueued\<close>

lemma sw_clock_outbox [simp]:
  "w_outbox (sw_mem (snd (utc_now (sw_env conv) w))) = w_outbox (sw_mem w)"
  "w_outbox (sw_mem (snd (now_v7 (sw_env conv) w))) = w_outbox (sw_mem w)"
  by (simp_all add: sw_env_def in_mem_def mem_now_def mem_uuid_def)

lemma in_sagas_outbox [simp]: "sw_mem (snd (in_sagas f w)) = sw_mem w"
  by (simp add: in_sagas_def split_beta)

lemma insert_many_outbox:
  "fst (insert_many (sw_outbox conv) ms w) = Ok ()
   \<and> w_outbox (sw_mem (snd (insert_many (sw_outbox conv) ms w))) = fold (\<lambda>m. ob_put (om_id m) m) ms (w_outbox (sw_mem w))"
proof (induction ms arbitrary: w)
  case (Cons m ms)
  have "or_insert (sw_outbox conv) m w = (Ok (), w\<lparr>sw_mem := (sw_mem w)\<lparr>w_outbox := ob_put (om_id m) m (w_outbox (sw_mem w))\<rparr>\<rparr>)"
    by (simp add: sw_outbox_def in_mem_def mem_outbox_def on_outbox_def ob_insert_def)
  then show ?case using Cons [of "w\<lparr>sw_mem := (sw_mem w)\<lparr>w_outbox := ob_put (om_id m) m (w_outbox (sw_mem w))\<rparr>\<rparr>"] by simp
qed simp

text \<open>One fresh pending message per command, in order, carrying its encoding.\<close>

definition encoded_as :: "('c \<Rightarrow> 'w \<Rightarrow> Message \<times> 'w) \<Rightarrow> 'c \<Rightarrow> OutboxMessage \<Rightarrow> bool" where
  "encoded_as mc c m \<longleftrightarrow> (\<exists>v. om_message m = fst (mc c v)) \<and> om_status m = Pending \<and> om_attempts m = 0"

lemma command_messages_spec:
  "encodes mc \<Longrightarrow> list_all2 (encoded_as mc) cs (fst (command_messages (sw_env conv) mc cs w))
     \<and> w_outbox (sw_mem (snd (command_messages (sw_env conv) mc cs w))) = w_outbox (sw_mem w)"
proof (induction cs arbitrary: w)
  case (Cons c cs)
  have "w_outbox (sw_mem (snd (mc c w))) = w_outbox (sw_mem w)" using Cons.prems by (simp add: encodes_def)
  moreover have "encoded_as mc c (OutboxMessage_new t i (fst (mc c w)))" for t i
    by (auto simp: encoded_as_def OutboxMessage_new_def)
  ultimately show ?case using Cons by (simp add: split_beta)
qed simp

lemma enqueue_all_spec:
  assumes "encodes mc"
  shows "fst (enqueue_all (sw_env conv) (mem_runner conv sg mc) cs w) = Ok () \<and>
    (\<exists>ms. list_all2 (encoded_as mc) cs ms \<and> w_outbox (sw_mem (snd (enqueue_all (sw_env conv) (mem_runner conv sg mc) cs w)))
       = fold (\<lambda>m. ob_put (om_id m) m) ms (w_outbox (sw_mem w)))"
proof (cases "cs = []")
  case True
  then show ?thesis by (simp add: enqueue_all_def)
next
  case False
  let ?m = "command_messages (sw_env conv) mc cs w"
  let ?i = "insert_many (sw_outbox conv) (fst ?m) (snd ?m)"
  have "enqueue_all (sw_env conv) (mem_runner conv sg mc) cs w = (Ok (), snd ?i)"
    using insert_many_outbox [of conv "fst ?m" "snd ?m"] False
    by (cases ?i) (auto simp: enqueue_all_def split_beta)
  then show ?thesis
    using command_messages_spec [OF assms, of cs conv w] insert_many_outbox [of conv "fst ?m" "snd ?m"]
    by (auto intro!: exI [of _ "fst ?m"])
qed

definition enqueued ::
    "('c \<Rightarrow> ('i, 's) SagaWorld \<Rightarrow> Message \<times> ('i, 's) SagaWorld) \<Rightarrow> 'c list \<Rightarrow> ('i, 's) SagaWorld \<Rightarrow> ('i, 's) SagaWorld \<Rightarrow> bool" where
  "enqueued mc cs w w' \<longleftrightarrow> (\<exists>ms. list_all2 (encoded_as mc) cs ms
     \<and> w_outbox (sw_mem w') = fold (\<lambda>m. ob_put (om_id m) m) ms (w_outbox (sw_mem w)))"

text \<open>
  An applied transition, with nobody in between: the result, the store and the outbox.
\<close>

lemma save_then_enqueue_result:
  assumes "encodes mc"
  shows "let (r, w') = save_then_enqueue (sw_env conv) (mem_runner conv sg mc) inst cs w in
    (if fst (isg_save inst (sw_sagas w)) = Ok () then r = Ok () \<and> enqueued mc cs w w'
     else \<exists>v. r = Err (RunnerConflict (si_version inst) v) \<and> sw_mem w' = sw_mem w)"
proof (cases "fst (isg_save inst (sw_sagas w)) = Ok ()")
  case True
  let ?w = "w\<lparr>sw_sagas := snd (isg_save inst (sw_sagas w))\<rparr>"
  have "save_then_enqueue (sw_env conv) (mem_runner conv sg mc) inst cs w = enqueue_all (sw_env conv) (mem_runner conv sg mc) cs ?w"
    using True by (cases "isg_save inst (sw_sagas w)") (auto simp: save_then_enqueue_def in_sagas_def)
  then show ?thesis using True enqueue_all_spec [OF assms, of conv sg cs ?w] by (auto simp: split_beta enqueued_def)
next
  case False
  then show ?thesis
    by (auto simp: save_then_enqueue_def in_sagas_def isg_save_def Let_def split: option.splits if_splits)
qed

definition stored_version :: "('i, 's) InMemorySagaStore \<Rightarrow> 'i \<Rightarrow> nat" where
  "stored_version s i = (case dm_get s i of None \<Rightarrow> 0 | Some st \<Rightarrow> si_version st)"

definition outcome_of :: "('s, 'c) SagaTransition \<Rightarrow> SagaRunnerError + unit" where
  "outcome_of t = (case t of Fail reason _ \<Rightarrow> Err (RunnerFailed reason) | _ \<Rightarrow> Ok ())"

lemma save_then_enqueue_outcome:
  assumes "encodes mc" and "save_then_enqueue (sw_env conv) (mem_runner conv sg mc) inst cs w1 = (r, w')"
    and "sw_sagas w1 = sw_sagas w" and "w_outbox (sw_mem w1) = w_outbox (sw_mem w)"
  shows "if si_version inst = stored_version (sw_sagas w) (si_id inst) then r = Ok () \<and> enqueued mc cs w w'
    else (\<exists>a. r = Err (RunnerConflict (si_version inst) a)) \<and> w_outbox (sw_mem w') = w_outbox (sw_mem w)"
  using save_then_enqueue_result [OF assms(1), of conv sg inst cs w1] assms isg_save_Ok(1) [of inst "sw_sagas w"]
  by (auto simp: stored_version_def enqueued_def)

lemma apply_transition_outcome:
  assumes "encodes mc" and "apply_transition (sw_env conv) (mem_runner conv sg mc) i cur t w = (r, w')"
  shows "case written i cur t of
      None \<Rightarrow> r = outcome_of t \<and> enqueued mc (commands_of t) w w'
    | Some (j, v, _) \<Rightarrow> if v = stored_version (sw_sagas w) j then r = outcome_of t \<and> enqueued mc (commands_of t) w w'
        else (\<exists>a. r = Err (RunnerConflict v a)) \<and> w_outbox (sw_mem w') = w_outbox (sw_mem w)"
proof (cases t)
  case Ignore
  then show ?thesis using assms(2) by (simp add: outcome_of_def enqueued_def)
next
  case (Start st cs dl)
  let ?w = "snd (utc_now (sw_env conv) w)" and ?inst = "(SagaInstance_running (fst (utc_now (sw_env conv) w)) i st)\<lparr>si_deadline := dl\<rparr>"
  have "save_then_enqueue (sw_env conv) (mem_runner conv sg mc) ?inst cs ?w = (r, w')"
    using assms(2) Start by (simp add: split_beta)
  from save_then_enqueue_outcome [OF assms(1) this, of w] show ?thesis
    using Start by (auto simp: outcome_of_def SagaInstance_running_def split: if_splits)
next
  case (Advance st cs dl)
  let ?b = "current_or_running (sw_env conv) i st cur w"
  let ?n = "utc_now (sw_env conv) (snd ?b)"
  let ?inst = "(fst ?b)\<lparr>si_state := st, si_status := Running, si_deadline := dl, si_updated_at := fst ?n\<rparr>"
  have "save_then_enqueue (sw_env conv) (mem_runner conv sg mc) ?inst cs (snd ?n) = (r, w')"
    using assms(2) Advance by (simp add: split_beta)
  from save_then_enqueue_outcome [OF assms(1) this, of w] show ?thesis
    using Advance by (cases cur) (auto simp: outcome_of_def SagaInstance_running_def current_or_running_def split_beta split: if_splits)
next
  case (Complete st cs)
  let ?b = "current_or_running (sw_env conv) i st cur w"
  let ?n = "utc_now (sw_env conv) (snd ?b)"
  let ?inst = "(fst ?b)\<lparr>si_state := st, si_status := Completed, si_deadline := None, si_updated_at := fst ?n\<rparr>"
  have "save_then_enqueue (sw_env conv) (mem_runner conv sg mc) ?inst cs (snd ?n) = (r, w')"
    using assms(2) Complete by (simp add: split_beta)
  from save_then_enqueue_outcome [OF assms(1) this, of w] show ?thesis
    using Complete by (cases cur) (auto simp: outcome_of_def SagaInstance_running_def current_or_running_def split_beta split: if_splits)
next
  case (Fail reason cs)
  show ?thesis
  proof (cases cur)
    case None
    then show ?thesis using assms(2) Fail enqueue_all_spec [OF assms(1), of conv sg cs w]
      by (cases "enqueue_all (sw_env conv) (mem_runner conv sg mc) cs w") (auto simp: outcome_of_def enqueued_def)
  next
    case (Some c)
    let ?n = "utc_now (sw_env conv) w"
    let ?inst = "c\<lparr>si_status := Failed, si_deadline := None, si_updated_at := fst ?n\<rparr>"
    obtain r1 w1 where e: "save_then_enqueue (sw_env conv) (mem_runner conv sg mc) ?inst cs (snd ?n) = (r1, w1)" by fastforce
    have "r = (case r1 of Inl x \<Rightarrow> Err x | Inr _ \<Rightarrow> Err (RunnerFailed reason)) \<and> w' = w1"
      using assms(2) Fail Some e by (auto simp: save_then_enqueue_def split_beta split: prod.splits sum.splits)
    then show ?thesis using save_then_enqueue_outcome [OF assms(1) e, of w] Fail Some
      by (auto simp: outcome_of_def split: if_splits)
  qed
qed

section \<open>Properties of sagas\<close>

text \<open>
  C4: No update of a saga is lost. Whatever handlers and timeout sweepers do concurrently to an
  initially empty store, a transition that changes the store was computed from exactly the version,
  state and status that it replaces (or from no instance, when none is stored), moves that instance
  to the next version and touches no other instance; every transition computed from outdated state
  is refused and reported as a conflict.
\<close>

theorem saga_no_lost_update:
  assumes "encodes mc" and "saga_run conv (mem_runner conv sg mc) (w0, {}, {}) (w, T, C)" and "sw_sagas w0 = []"
    and "(i, cur) \<in> T \<union> (\<lambda>inst. (si_id inst, Some inst)) ` C"
    and "apply_transition (sw_env conv) (mem_runner conv sg mc) i cur t w = (r, w')"
  shows "if sw_sagas w' \<noteq> sw_sagas w
    then map_option (\<lambda>x. (si_version x, si_state x, si_status x)) cur
        = map_option (\<lambda>x. (si_version x, si_state x, si_status x)) (dm_get (sw_sagas w) i)
      \<and> stored_version (sw_sagas w') i = stored_version (sw_sagas w) i + 1
      \<and> (\<forall>j. j \<noteq> i \<longrightarrow> dm_get (sw_sagas w') j = dm_get (sw_sagas w) j)
    else written i cur t \<noteq> None \<longrightarrow> (\<exists>v a. r = Err (RunnerConflict v a))"
proof -
  have inv: "saga_inv (sw_sagas w) (held T C)"
    using saga_run_inv [OF assms(2,1) run_inv_start [OF assms(3)]] by (simp add: run_inv_def)
  show ?thesis
  proof (cases "written i cur t")
    case None
    then show ?thesis using apply_transition_sagas [OF assms(1,5)] by simp
  next
    case (Some e)
    obtain inst where i: "essence inst = e" "sw_sagas w' = snd (isg_save inst (sw_sagas w))"
      using apply_transition_sagas [OF assms(1,5)] Some by auto
    note wr = Some [folded i(1)]
    have b: "si_id inst = i" "si_version inst = 0 \<or> (\<exists>c. cur = Some c \<and> si_version inst = si_version c)"
      using written_base [OF wr] held_id [OF inv] assms(4) by blast+
    show ?thesis
    proof (cases "fst (isg_save inst (sw_sagas w)) = Ok ()")
      case True
      have s': "sw_sagas w' = dm_insert i (inst\<lparr>si_version := si_version inst + 1\<rparr>) (sw_sagas w)"
        using i(2) isg_save_Ok(2) [OF True] b(1) by simp
      have v: "si_version inst = stored_version (sw_sagas w) i" using True isg_save_Ok(1) b(1) by (metis stored_version_def)
      then have "stored_version (sw_sagas w') i = stored_version (sw_sagas w) i + 1" by (simp add: s' stored_version_def)
      moreover from this have "sw_sagas w' \<noteq> sw_sagas w" by auto
      ultimately show ?thesis using accepted_save_current [OF inv assms(4) b True] s' by auto
    next
      case False
      then have "sw_sagas w' = sw_sagas w" using i(2) isg_save_Ok(3) by simp
      moreover have "si_version inst \<noteq> stored_version (sw_sagas w) i"
        using False isg_save_Ok(1) b(1) by (metis stored_version_def)
      ultimately show ?thesis using apply_transition_outcome [OF assms(1,5)] wr b(1) by auto
    qed
  qed
qed

text \<open>
  C14: A saga that reached a terminal status is never revived: once the store holds a completed or
  failed instance, no later step of a handler or of a timeout sweep changes it, whatever transition
  the saga answers to a repeated or late event and whatever they had loaded or claimed before it
  became terminal. In particular no further call of \<open>handle\<close> or \<open>run_due_timeouts\<close> changes it, provided the
  saga itself does not write to the store.
\<close>

theorem terminal_saga_final:
  assumes "encodes mc" and "saga_run conv (mem_runner conv sg mc) (w0, {}, {}) (w, T, C)" and "sw_sagas w0 = []"
    and "dm_get (sw_sagas w) i = Some st" and "si_status st \<noteq> Running"
    and "saga_run conv (mem_runner conv sg mc) (w, T, C) (w1, T1, C1)"
  shows "dm_get (sw_sagas w1) i = Some st
    \<and> (quiet_saga sg \<longrightarrow>
        dm_get (sw_sagas (snd (saga_handle (sw_env conv) (mem_runner conv sg mc) ev w1))) i = Some st
        \<and> dm_get (sw_sagas (snd (run_due_timeouts (sw_env conv) (mem_runner conv sg mc) now lease limit w1))) i = Some st)"
proof (intro conjI impI)
  have inv: "run_inv (w, T, C)" by (rule saga_run_inv [OF assms(2,1) run_inv_start [OF assms(3)]])
  note final = terminal_run [OF _ assms(1) inv, simplified, OF _ assms(4,5)]
  show "dm_get (sw_sagas w1) i = Some st" using final [OF assms(6)] by simp
  assume q: "quiet_saga sg"
  obtain r w2 where h: "saga_handle (sw_env conv) (mem_runner conv sg mc) ev w1 = (r, w2)" by fastforce
  from saga_handle_run [OF q h] obtain T2 where "saga_run conv (mem_runner conv sg mc) (w1, T1, C1) (w2, T2, C1)" by blast
  from final [OF saga_run_trans [OF this assms(6)]]
  show "dm_get (sw_sagas (snd (saga_handle (sw_env conv) (mem_runner conv sg mc) ev w1))) i = Some st" using h by simp
  obtain r3 w3 where s: "run_due_timeouts (sw_env conv) (mem_runner conv sg mc) now lease limit w1 = (r3, w3)" by fastforce
  from run_due_timeouts_run [OF q s] obtain C3 where "saga_run conv (mem_runner conv sg mc) (w1, T1, C1) (w3, T1, C3)" by blast
  from final [OF saga_run_trans [OF this assms(6)]]
  show "dm_get (sw_sagas (snd (run_due_timeouts (sw_env conv) (mem_runner conv sg mc) now lease limit w1))) i = Some st"
    using s by simp
qed

lemma claimed_stored:
  assumes "saga_inv s H" and "isg_claim_due now lease limit s = (Ok due, s')"
  shows "map si_id due = isg_candidates now limit s" and "list_all (isg_due now) due" and "distinct (map si_id due)"
    and "c \<in> set due \<Longrightarrow> \<exists>x. dm_get s' (si_id c) = Some x \<and> si_version x = si_version c \<and> si_deadline x = Some (now + lease)"
proof -
  note wf = saga_invD(1) [OF assms(1)]
  obtain c: "map si_id due = map (\<lambda>i. si_id (the (dm_get s i))) (isg_candidates now limit s)"
    "\<forall>c \<in> set due. \<exists>i x. i \<in> set (isg_candidates now limit s) \<and> dm_get s i = Some x \<and> isg_due now x \<and> c = x\<lparr>si_version := si_version x + 1\<rparr>"
    "\<forall>j. dm_get s' j = (if j \<in> set (isg_candidates now limit s)
        then map_option (\<lambda>x. x\<lparr>si_deadline := Some (now + lease), si_version := si_version x + 1\<rparr>) (dm_get s j) else dm_get s j)"
    using isg_claim_due_spec [OF wf assms(2)] by auto
  have id: "si_id (the (dm_get s i)) = i" if "i \<in> set (isg_candidates now limit s)" for i
    using isg_candidates_props(2) [OF wf that] saga_invD(2) [OF assms(1)] by fastforce
  show ids: "map si_id due = isg_candidates now limit s" using c(1) id by (simp add: map_idI)
  show "list_all (isg_due now) due" using c(2) by (force simp: list_all_iff isg_due_def)
  show "distinct (map si_id due)" unfolding ids by (rule isg_candidates_props(1) [OF wf])
  assume "c \<in> set due"
  then obtain i x where x: "i \<in> set (isg_candidates now limit s)" "dm_get s i = Some x" "c = x\<lparr>si_version := si_version x + 1\<rparr>"
    using c(2) by blast
  moreover have "si_id c = i" using x saga_invD(2) [OF assms(1)] by simp
  ultimately show "\<exists>x. dm_get s' (si_id c) = Some x \<and> si_version x = si_version c \<and> si_deadline x = Some (now + lease)"
    using c(3) by simp
qed

text \<open>
  C15: Timeout sweepers do not share a saga. A claim returns at most \<open>limit\<close> instances, each once, each
  running with an elapsed deadline. A second claim before the lease of the first has run out, after
  any steps of handlers and sweepers in between, returns one of these instances again only if the
  stored instance has been replaced in between, that is when a transition has been saved that may
  have armed a new deadline; the version the first sweeper holds is then outdated, so that whatever
  it still saves is refused. Without a save in between the two claims share nothing.
\<close>

theorem timeout_claims_exclusive:
  assumes "encodes mc" and "saga_run conv (mem_runner conv sg mc) (w0, {}, {}) (w, T, C)" and "sw_sagas w0 = []"
    and "isg_claim_due now1 lease1 limit1 (sw_sagas w) = (Ok due1, s1)"
    and "saga_run conv (mem_runner conv sg mc) (w\<lparr>sw_sagas := s1\<rparr>, T, C \<union> set due1) (w2, T2, C2)"
    and "isg_claim_due now2 lease2 limit2 (sw_sagas w2) = (Ok due2, s2)" and "now2 < now1 + lease1"
  shows "length due1 \<le> limit1 \<and> distinct (map si_id due1) \<and> list_all (isg_due now1) due1
    \<and> list_all (\<lambda>c. stored_version s1 (si_id c) = si_version c
        \<and> (si_id c \<in> set (map si_id due2) \<longrightarrow> si_version c < stored_version (sw_sagas w2) (si_id c))) due1
    \<and> (w2 = w\<lparr>sw_sagas := s1\<rparr> \<longrightarrow> set (map si_id due1) \<inter> set (map si_id due2) = {})"
proof -
  let ?w1 = "w\<lparr>sw_sagas := s1\<rparr>"
  have inv: "run_inv (w, T, C)" by (rule saga_run_inv [OF assms(2,1) run_inv_start [OF assms(3)]])
  have "claim_due (sr_store (mem_runner conv sg mc)) now1 lease1 limit1 w = (Ok due1, ?w1)" using assms(4) by (simp add: in_sagas_def)
  then have inv1: "run_inv (?w1, T, C \<union> set due1)" using saga_step_inv [OF assms(1) sg_claim inv] by blast
  then have inv2: "run_inv (w2, T2, C2)" by (rule saga_run_inv [OF assms(5,1)])
  have S: "saga_inv (sw_sagas w) (held T C)" "saga_inv (sw_sagas w2) (held T2 C2)" using inv inv2 by (simp_all add: run_inv_def)
  note c1 = claimed_stored [OF S(1) assms(4)] and c2 = claimed_stored [OF S(2) assms(6)]
  have each: "stored_version s1 (si_id c) = si_version c
      \<and> (si_id c \<in> set (map si_id due2) \<longrightarrow> si_version c < stored_version (sw_sagas w2) (si_id c))" if c: "c \<in> set due1" for c
  proof -
    obtain x where x: "dm_get s1 (si_id c) = Some x" "si_version x = si_version c" "si_deadline x = Some (now1 + lease1)"
      using c1(4) [OF c] by blast
    obtain y where y: "dm_get (sw_sagas w2) (si_id c) = Some y" "y = x \<or> si_version x < si_version y"
      using run_grows [OF assms(5,1) inv1] x(1) by auto
    have "y \<noteq> x" if "si_id c \<in> set (map si_id due2)"
      using isg_candidates_props(2) [OF saga_invD(1) [OF S(2)] that [unfolded c2(1)]] y(1) x(3) assms(7) by (auto simp: isg_due_def)
    then show ?thesis using x y by (auto simp: stored_version_def)
  qed
  moreover have "length due1 \<le> limit1" using arg_cong [OF c1(1), of length] by (simp add: isg_candidates_def)
  moreover have "set (map si_id due1) \<inter> set (map si_id due2) = {}" if "w2 = ?w1" using each that by fastforce
  ultimately show ?thesis using c1(2,3) by (simp add: list_all_iff)
qed

lemma start_conflict_loop:
  assumes "encodes mc" and react: "\<And>cur v. react sg cur ev v = (Ok (f cur), v)"
    and "dm_get (sw_sagas w) i = Some st" "si_status st = Running" "0 < si_version st" "f (Some st) = Start st' cs dl"
    and "last_conflict = None \<and> 0 < n \<or> (\<exists>a. last_conflict = Some (0, a))"
  shows "let (r, w') = handle_loop (sw_env conv) (mem_runner conv sg mc) i ev n last_conflict w in
     (\<exists>a. r = Err (RunnerConflict 0 a)) \<and> sw_sagas w' = sw_sagas w \<and> w_outbox (sw_mem w') = w_outbox (sw_mem w)"
  using assms(3,7)
proof (induction n arbitrary: w last_conflict)
  case 0
  then show ?case by auto
next
  case (Suc n)
  obtain r w1 where e: "apply_transition (sw_env conv) (mem_runner conv sg mc) i (Some st) (f (Some st)) w = (r, w1)" by fastforce
  have v: "stored_version (sw_sagas w) i \<noteq> 0" using Suc.prems(1) assms(5) by (simp add: stored_version_def)
  have "written i (Some st) (f (Some st)) = Some (i, 0, st', Running, dl)" using assms(6) by simp
  then obtain a where r: "r = Err (RunnerConflict 0 a)" "w_outbox (sw_mem w1) = w_outbox (sw_mem w)"
    using apply_transition_outcome [OF assms(1) e] v by auto
  obtain inst where "essence inst = (i, 0, st', Running, dl)" "sw_sagas w1 = snd (isg_save inst (sw_sagas w))"
    using apply_transition_sagas [OF assms(1) e] assms(6) by auto
  then have s: "sw_sagas w1 = sw_sagas w"
    using v isg_save_Ok(1,3) [of inst "sw_sagas w"] by (auto simp: stored_version_def)
  have "handle_loop (sw_env conv) (mem_runner conv sg mc) i ev (Suc n) last_conflict w
      = handle_loop (sw_env conv) (mem_runner conv sg mc) i ev n (Some (0, a)) w1"
    using Suc.prems(1) assms(4,6) e r(1) by (simp add: in_sagas_def isg_load_def react is_terminal_def apply_reaction_def)
  then show ?case using Suc.IH [of w1 "Some (0, a)"] Suc.prems(1) s r(2) by (simp add: split_beta)
qed

text \<open>
  C16: Handling one event, with nobody in between and for any saga whose reaction is a function \<open>f\<close> of
  the stored instance. An ignored event and any event for a terminal instance change nothing.
  Starting a saga that is already running is refused: after the bounded retries the conflict is
  reported and nothing has changed. Every other transition is stored exactly as computed, at the
  next version, one pending message per command is enqueued in order, and the result is the
  business failure for \<open>Fail\<close> and success otherwise; a failure of a saga that was never stored only
  enqueues its compensating commands.
\<close>

theorem handle_applies_reaction:
  fixes f :: "('i, 's) SagaInstance option \<Rightarrow> ('s, 'c) SagaTransition"
  assumes "encodes mc" and "\<And>cur v. react sg cur ev v = (Ok (f cur), v)" and "id_for sg ev = Some i"
    and "saga_inv (sw_sagas w) {}" and cur: "cur = dm_get (sw_sagas w) i"
    and run: "saga_handle (sw_env conv) (mem_runner conv sg mc) ev w = (r, w')"
  shows "if f cur = Ignore \<or> is_terminal cur then r = Ok () \<and> w' = w
    else if cur \<noteq> None \<and> (\<exists>st cs dl. f cur = Start st cs dl)
    then (\<exists>a. r = Err (RunnerConflict 0 a)) \<and> sw_sagas w' = sw_sagas w \<and> w_outbox (sw_mem w') = w_outbox (sw_mem w)
    else r = outcome_of (f cur) \<and> enqueued mc (commands_of (f cur)) w w'
      \<and> (case written i cur (f cur) of
           None \<Rightarrow> sw_sagas w' = sw_sagas w
         | Some (_, v, st, status, dl) \<Rightarrow>
             map_option essence (dm_get (sw_sagas w') i) = Some (i, v + 1, st, status, dl)
             \<and> (\<forall>j. j \<noteq> i \<longrightarrow> dm_get (sw_sagas w') j = dm_get (sw_sagas w) j))"
proof -
  let ?loop = "handle_loop (sw_env conv) (mem_runner conv sg mc) i ev"
  obtain n where n: "MAX_CONFLICT_RETRIES = Suc n" by (simp add: MAX_CONFLICT_RETRIES_def eval_nat_numeral)
  have h: "?loop (Suc n) None w = (r, w')" using run assms(3) by (simp add: saga_handle_def n)
  have load: "in_sagas (isg_load i) w = (Ok cur, w)" by (simp add: in_sagas_def isg_load_def cur)
  consider (quiet) "f cur = Ignore \<or> is_terminal cur"
    | (start) c st cs dl where "f cur \<noteq> Ignore" "\<not> is_terminal cur" "cur = Some c" "f cur = Start st cs dl"
    | (go) "f cur \<noteq> Ignore" "\<not> is_terminal cur" "cur = None \<or> \<not> (\<exists>st cs dl. f cur = Start st cs dl)"
    by (cases cur) blast+
  then show ?thesis
  proof cases
    case quiet
    then show ?thesis using h by (auto simp: load assms(2) apply_reaction_def split: if_splits)
  next
    case start
    have "si_status c = Running" "0 < si_version c"
      using start(2,3) saga_invD(3) [OF assms(4)] cur by (auto simp: is_terminal_def)
    then show ?thesis
      using start_conflict_loop [of mc sg ev f w i c st cs dl None "Suc n" conv, OF assms(1,2)] h start cur
      by (simp del: handle_loop.simps)
  next
    case go
    obtain r1 w1 where e: "apply_transition (sw_env conv) (mem_runner conv sg mc) i cur (f cur) w = (r1, w1)" by fastforce
    have id: "si_id c = i" if "cur = Some c" for c using that saga_invD(2) [OF assms(4)] cur by auto
    have sv: "stored_version (sw_sagas w) i = (case cur of None \<Rightarrow> 0 | Some c \<Rightarrow> si_version c)"
      by (simp add: stored_version_def cur)
    have w: "v = stored_version (sw_sagas w) i \<and> j = i" if "written i cur (f cur) = Some (j, v, x)" for j v x
      unfolding sv using that go(3) id by (cases "f cur"; cases cur) auto
    have r1: "r1 = outcome_of (f cur)" "enqueued mc (commands_of (f cur)) w w1"
      using apply_transition_outcome [OF assms(1) e] w by (auto split: option.splits prod.splits)
    have "r = r1 \<and> w' = w1"
      using h go(1,2) e r1(1) by (auto simp: load assms(2) apply_reaction_def outcome_of_def split: sum.splits SagaTransition.splits)
    moreover have "case written i cur (f cur) of
           None \<Rightarrow> sw_sagas w1 = sw_sagas w
         | Some (_, v, st, status, dl) \<Rightarrow> map_option essence (dm_get (sw_sagas w1) i) = Some (i, v + 1, st, status, dl)
             \<and> (\<forall>j. j \<noteq> i \<longrightarrow> dm_get (sw_sagas w1) j = dm_get (sw_sagas w) j)"
    proof (cases "written i cur (f cur)")
      case None
      then show ?thesis using apply_transition_sagas [OF assms(1) e] by simp
    next
      case (Some x)
      then obtain inst where inst: "essence inst = x" "sw_sagas w1 = snd (isg_save inst (sw_sagas w))"
        using apply_transition_sagas [OF assms(1) e] by auto
      then have "si_id inst = i" "fst (isg_save inst (sw_sagas w)) = Ok ()"
        using w Some by (auto simp: isg_save_Ok stored_version_def)
      then show ?thesis using inst Some isg_save_Ok(2) [of inst "sw_sagas w"] by auto
    qed
    ultimately show ?thesis using go r1 by auto
  qed
qed

subsection \<open>Concrete runs\<close>

definition billing_reaction :: "(nat, nat) SagaInstance option \<Rightarrow> (nat, nat) SagaTransition" where
  "billing_reaction cur = (case cur of None \<Rightarrow> Start 10 [1] (Some 5) | Some c \<Rightarrow> Complete 20 [2])"

definition billing :: "((nat, nat) SagaWorld, nat, nat, nat, nat) Saga" where
  "billing = \<lparr>id_for = Some, react = (\<lambda>cur ev w. (Ok (billing_reaction cur), w)), on_timeout = default_on_timeout\<rparr>"

definition billing_encode :: "nat \<Rightarrow> (nat, nat) SagaWorld \<Rightarrow> Message \<times> (nat, nat) SagaWorld" where
  "billing_encode c w = (Message_new 0 ''billing'' [c] ''application/json'', w)"

definition billing_world :: "(nat, nat) SagaWorld" where
  "billing_world = \<lparr>sw_mem = empty_world (\<lambda>_. None), sw_sagas = []\<rparr>"

abbreviation billing_runner :: "((nat, nat) SagaWorld, nat, nat, nat, nat) SagaRunner" where
  "billing_runner \<equiv> mem_runner Inr billing billing_encode"

abbreviation billing_apply ::
    "(nat, nat) SagaInstance option \<Rightarrow> (nat, nat) SagaTransition \<Rightarrow> ((nat, nat) SagaWorld, SagaRunnerError, unit) op" where
  "billing_apply \<equiv> apply_transition (sw_env Inr) billing_runner 7"

lemma billing_encodes: "encodes billing_encode"
  by (simp add: encodes_def billing_encode_def)

lemma billing_start: "sw_sagas billing_world = []"
  by (simp add: billing_world_def)

lemma billing_loaded: "saga_run Inr billing_runner (billing_world, {}, {}) (billing_world, {(7, None)}, {})"
  by (rule run_step [OF run_done], rule sg_load) (simp add: in_sagas_def isg_load_def billing_world_def)

lemma billing_done:
  "sw_sagas (snd (billing_apply None (Complete 20 [2]) billing_world)) =
     [(7, \<lparr>si_id = 7, si_state = 20, si_status = Completed, si_deadline = None, si_updated_at = 1, si_version = 1\<rparr>)]"
  by code_simp

theorem saga_no_lost_update_witness:
  "stored_version (sw_sagas (snd (billing_apply None (Complete 20 [2]) billing_world))) 7 = 1"
proof -
  obtain r w' where e: "billing_apply None (Complete 20 [2]) billing_world = (r, w')" by fastforce
  have "sw_sagas w' \<noteq> sw_sagas billing_world" using billing_done e by (simp add: billing_start)
  then show ?thesis
    using saga_no_lost_update [OF billing_encodes billing_loaded billing_start _ e] e
    by (simp add: billing_start stored_version_def)
qed

text \<open>
  The saga completes at its first event; a handler that had loaded nothing then tries to start it
  again, and a repeated event and a sweep follow.
\<close>

definition one_shot :: "((nat, nat) SagaWorld, nat, nat, nat, nat) Saga" where
  "one_shot = \<lparr>id_for = Some, react = (\<lambda>cur ev w. (Ok (Advance 30 [3] (Some 0)), w)), on_timeout = default_on_timeout\<rparr>"

abbreviation shot_runner :: "((nat, nat) SagaWorld, nat, nat, nat, nat) SagaRunner" where
  "shot_runner \<equiv> mem_runner Inr one_shot billing_encode"

abbreviation shot_react ::
    "(nat, nat) SagaInstance option \<Rightarrow> (nat, nat) SagaTransition \<Rightarrow> ((nat, nat) SagaWorld, SagaRunnerError, unit) op" where
  "shot_react \<equiv> apply_reaction (sw_env Inr) shot_runner 7"

lemma shot_quiet: "quiet_saga one_shot"
  by (simp add: quiet_saga_def one_shot_def default_on_timeout_def)

lemma shot_loaded: "saga_run Inr shot_runner (billing_world, {}, {}) (billing_world, {(7, None)}, {})"
  by (rule run_step [OF run_done], rule sg_load) (simp add: in_sagas_def isg_load_def billing_world_def)

lemma shot_done:
  "sw_sagas (snd (shot_react None (Complete 20 [2]) billing_world)) =
     [(7, \<lparr>si_id = 7, si_state = 20, si_status = Completed, si_deadline = None, si_updated_at = 1, si_version = 1\<rparr>)]"
  by code_simp

theorem terminal_saga_final_witness:
  "let w1 = snd (shot_react None (Start 10 [1] None) (snd (shot_react None (Complete 20 [2]) billing_world)));
       final = Some \<lparr>si_id = 7, si_state = 20, si_status = Completed, si_deadline = None, si_updated_at = 1, si_version = 1\<rparr>
   in dm_get (sw_sagas w1) 7 = final \<and> dm_get (sw_sagas (snd (saga_handle (sw_env Inr) shot_runner 7 w1))) 7 = final
     \<and> dm_get (sw_sagas (snd (run_due_timeouts (sw_env Inr) shot_runner 100 10 5 w1))) 7 = final"
proof -
  let ?w1 = "snd (shot_react None (Complete 20 [2]) billing_world)"
  let ?w2 = "snd (shot_react None (Start 10 [1] None) ?w1)"
  have 1: "saga_run Inr shot_runner (billing_world, {}, {}) (?w1, {(7, None)}, {})"
    by (rule run_step [OF shot_loaded], rule sg_react [OF insertI1]) (rule prod.collapse [symmetric])
  have 2: "saga_run Inr shot_runner (?w1, {(7, None)}, {}) (?w2, {(7, None)}, {})"
    by (rule run_step [OF run_done], rule sg_react [OF insertI1]) (rule prod.collapse [symmetric])
  have st: "dm_get (sw_sagas ?w1) 7 = Some \<lparr>si_id = 7, si_state = 20, si_status = Completed, si_deadline = None, si_updated_at = 1, si_version = 1\<rparr>"
    by (simp only: shot_done) (simp add: dm_get_def)
  from terminal_saga_final [OF billing_encodes 1 billing_start st _ 2, of 7 100 10 5] shot_quiet
  show ?thesis unfolding Let_def by simp
qed

text \<open>An armed saga is claimed; the second sweeper, before the lease is over, gets nothing.\<close>

lemma shot_armed:
  "map (\<lambda>(i, x). (i, essence x)) (sw_sagas (snd (shot_react None (Start 10 [1] (Some 3)) billing_world))) = [(7, 7, 1, 10, Running, Some 3)]"
  by code_simp

lemma shot_claimed:
  "case isg_claim_due 5 10 4 (sw_sagas (snd (shot_react None (Start 10 [1] (Some 3)) billing_world))) of
     (r1, s1) \<Rightarrow> map_sum id (map si_id) r1 = Ok [7]"
  by code_simp

theorem timeout_claims_exclusive_witness:
  "let (r1, s1) = isg_claim_due 5 10 4 (sw_sagas (snd (shot_react None (Start 10 [1] (Some 3)) billing_world)));
       (r2, s2) = isg_claim_due 6 10 4 s1
   in map_sum id (map si_id) r1 = Ok [7] \<and> (\<exists>due2. r2 = Ok due2 \<and> 7 \<notin> set (map si_id due2))"
proof -
  let ?w = "snd (shot_react None (Start 10 [1] (Some 3)) billing_world)"
  have run: "saga_run Inr shot_runner (billing_world, {}, {}) (?w, {(7, None)}, {})"
    by (rule run_step [OF shot_loaded], rule sg_react [OF insertI1]) (rule prod.collapse [symmetric])
  obtain due1 s1 where e1: "isg_claim_due 5 10 4 (sw_sagas ?w) = (Ok due1, s1)" by (simp add: isg_claim_due_def split_beta)
  obtain due2 s2 where e2: "isg_claim_due 6 10 4 (sw_sagas (?w\<lparr>sw_sagas := s1\<rparr>)) = (Ok due2, s2)"
    by (simp add: isg_claim_due_def split_beta)
  have d1: "map si_id due1 = [7]" using shot_claimed unfolding e1 by simp
  have "7 \<notin> set (map si_id due2)"
    using timeout_claims_exclusive [OF billing_encodes run billing_start e1 run_done e2] d1 by auto
  then show ?thesis using d1 e2 unfolding Let_def e1 prod.case by simp
qed

theorem handle_applies_reaction_witness:
  "let (r, w') = saga_handle (sw_env Inr) billing_runner 7 billing_world
   in r = Ok () \<and> map_option essence (dm_get (sw_sagas w') 7) = Some (7, 1, 10, Running, Some 5)"
proof -
  obtain r w' where e: "saga_handle (sw_env Inr) billing_runner 7 billing_world = (r, w')" by fastforce
  have "saga_inv (sw_sagas billing_world) {}" by (simp add: saga_inv_def billing_start)
  from handle_applies_reaction [OF billing_encodes _ _ this refl e, of billing_reaction] e show ?thesis
    by (simp add: billing_def billing_start billing_reaction_def is_terminal_def outcome_of_def)
qed

end
