(* ===== verification/Hub.thy ===== *)
theory Hub
  imports Messaging
begin

text \<open>
  \<open>crates/pharos-realtime/src/hub.rs\<close> and \<open>memory.rs\<close>: room identifiers, realtime messages and
  errors, and the in-memory hub with its versioned backlog. A broadcast channel of \<open>tokio\<close> appears
  as a handle: the model records which messages the hub sends into which channel, from which position
  on a receiver listens, and which answers it has given: messages in the order of the channel, and
  reports of messages it skipped because the receiver fell behind the capacity.
\<close>

section \<open>Rooms and messages\<close>

definition MAX_ROOM_ID_LEN :: nat where
  "MAX_ROOM_ID_LEN = 128"

datatype InvalidRoomId = EmptyRoomId | TooLong nat | DisallowedCharacter char

type_synonym RoomId = string

definition is_ascii_alphanumeric :: "char \<Rightarrow> bool" where
  "is_ascii_alphanumeric c \<longleftrightarrow> (let n = of_char c :: nat in 48 \<le> n \<and> n \<le> 57 \<or> 65 \<le> n \<and> n \<le> 90 \<or> 97 \<le> n \<and> n \<le> 122)"

definition is_allowed :: "char \<Rightarrow> bool" where
  "is_allowed c \<longleftrightarrow> is_ascii_alphanumeric c \<or> c \<in> {CHR '':'', CHR ''-'', CHR ''_'', CHR ''.'', CHR ''/''}"

definition RoomId_parse :: "string \<Rightarrow> InvalidRoomId + RoomId" where
  "RoomId_parse s =
     (if s = [] then Err EmptyRoomId
      else if MAX_ROOM_ID_LEN < utf8_len s then Err (TooLong (utf8_len s))
      else case find (\<lambda>c. \<not> is_allowed c) s of
             Some c \<Rightarrow> Err (DisallowedCharacter c)
           | None \<Rightarrow> Ok s)"

record RealtimeMessage =
  rm_room :: RoomId
  rm_kind :: string
  rm_payload :: bytes
  rm_version :: nat

definition RealtimeMessage_new :: "RoomId \<Rightarrow> string \<Rightarrow> bytes \<Rightarrow> RealtimeMessage" where
  "RealtimeMessage_new room kind pl = \<lparr>rm_room = room, rm_kind = kind, rm_payload = pl, rm_version = 0\<rparr>"

datatype RealtimeError =
    PublishFailed string
  | SubscribeFailed string
  | Unauthorized string
  | Forbidden string string
  | Capacity string
  | InvalidRoom InvalidRoomId
  | TransportFailed string

datatype Backlog =
    Replayed "RealtimeMessage list"
  | Gap nat
  | Unavailable

section \<open>The in-memory hub\<close>

type_synonym channel = nat

record RoomEntry =
  re_sender :: channel
  re_subscribers :: nat
  re_next_version :: nat
  re_backlog :: "RealtimeMessage list"
  re_backlog_bytes :: nat

type_synonym Rooms = "(RoomId, RoomEntry) dashmap"

text \<open>The limits of a hub; the map of rooms is passed as state.\<close>

record InMemoryHub =
  hub_capacity :: nat
  hub_max_rooms :: nat
  hub_backlog :: nat
  hub_max_backlog_bytes :: nat

definition with_limits :: "nat \<Rightarrow> nat \<Rightarrow> InMemoryHub" where
  "with_limits capacity max_rooms =
     \<lparr>hub_capacity = max capacity 1, hub_max_rooms = max max_rooms 1, hub_backlog = 64, hub_max_backlog_bytes = 64 * 1024\<rparr>"

definition hub_new :: InMemoryHub where
  "hub_new = with_limits 32 10000"

definition with_capacity :: "nat \<Rightarrow> InMemoryHub" where
  "with_capacity capacity = with_limits capacity 10000"

definition with_backlog :: "nat \<Rightarrow> InMemoryHub \<Rightarrow> InMemoryHub" where
  "with_backlog n h = h\<lparr>hub_backlog := n\<rparr>"

definition with_max_backlog_bytes :: "nat \<Rightarrow> InMemoryHub \<Rightarrow> InMemoryHub" where
  "with_max_backlog_bytes n h = h\<lparr>hub_max_backlog_bytes := n\<rparr>"

definition room_count :: "Rooms \<Rightarrow> nat" where
  "room_count rooms = length rooms"

text \<open>The eviction loop: the oldest retained message goes while either limit is exceeded.\<close>

fun evict :: "nat \<Rightarrow> nat \<Rightarrow> RealtimeMessage list \<Rightarrow> nat \<Rightarrow> RealtimeMessage list \<times> nat" where
  "evict limit max_bytes [] total_bytes = ([], total_bytes)"
| "evict limit max_bytes (m # ms) total_bytes =
     (if limit < length (m # ms) \<or> max_bytes < total_bytes
      then evict limit max_bytes ms (total_bytes - length (rm_payload m))
      else (m # ms, total_bytes))"

definition retain :: "InMemoryHub \<Rightarrow> RealtimeMessage \<Rightarrow> RoomEntry \<Rightarrow> RoomEntry" where
  "retain h m e =
     (if 0 < hub_backlog h \<and> 0 < hub_max_backlog_bytes h
      then let (bl, tb) = evict (hub_backlog h) (hub_max_backlog_bytes h) (re_backlog e @ [m])
                            (re_backlog_bytes e + length (rm_payload m))
           in e\<lparr>re_backlog := bl, re_backlog_bytes := tb\<rparr>
      else e)"

definition stamp_and_retain :: "InMemoryHub \<Rightarrow> RealtimeMessage \<Rightarrow> Rooms \<Rightarrow> (RealtimeMessage \<times> channel) option \<times> Rooms" where
  "stamp_and_retain h msg rooms = (case dm_get rooms (rm_room msg) of
       None \<Rightarrow> (None, rooms)
     | Some e \<Rightarrow>
         let m = msg\<lparr>rm_version := re_next_version e\<rparr>;
             e1 = e\<lparr>re_next_version := re_next_version e + 1\<rparr>
         in (Some (m, re_sender e), dm_insert (rm_room msg) (retain h m e1) rooms))"

text \<open>The check against the room ceiling, and the registration under the entry lock.\<close>

definition over_capacity :: "InMemoryHub \<Rightarrow> RoomId \<Rightarrow> Rooms \<Rightarrow> bool" where
  "over_capacity h room rooms \<longleftrightarrow> dm_get rooms room = None \<and> hub_max_rooms h \<le> length rooms"

definition enter_room :: "channel \<Rightarrow> RoomId \<Rightarrow> Rooms \<Rightarrow> channel \<times> Rooms" where
  "enter_room fresh room rooms = (case dm_get rooms room of
       Some e \<Rightarrow> (re_sender e, dm_insert room (e\<lparr>re_subscribers := re_subscribers e + 1\<rparr>) rooms)
     | None \<Rightarrow> (fresh, dm_insert room
         \<lparr>re_sender = fresh, re_subscribers = 1, re_next_version = 1, re_backlog = [], re_backlog_bytes = 0\<rparr> rooms))"

definition register_subscriber :: "InMemoryHub \<Rightarrow> channel \<Rightarrow> RoomId \<Rightarrow> (Rooms, RealtimeError, channel) op" where
  "register_subscriber h fresh room rooms =
     (if over_capacity h room rooms
      then (Err (Capacity (''hub is already tracking '' @ dec_string (hub_max_rooms h) @ '' rooms'')), rooms)
      else let (c, rooms') = enter_room fresh room rooms in (Ok c, rooms'))"

text \<open>The two critical sections of dropping a guard.\<close>

definition guard_release :: "RoomId \<Rightarrow> Rooms \<Rightarrow> bool \<times> Rooms" where
  "guard_release room rooms = (case dm_get rooms room of
       Some e \<Rightarrow> (let n = re_subscribers e - 1 in (n = 0, dm_insert room (e\<lparr>re_subscribers := n\<rparr>) rooms))
     | None \<Rightarrow> (False, rooms))"

definition guard_collect :: "RoomId \<Rightarrow> Rooms \<Rightarrow> Rooms" where
  "guard_collect room rooms = (case dm_get rooms room of
       Some e \<Rightarrow> if re_subscribers e = 0 then dm_remove room rooms else rooms
     | None \<Rightarrow> rooms)"

definition guard_drop :: "RoomId \<Rightarrow> Rooms \<Rightarrow> Rooms" where
  "guard_drop room rooms = (let (collected, rooms') = guard_release room rooms in
     if collected then guard_collect room rooms' else rooms')"

text \<open>\<open>since + 1\<close> is the addition of a \<open>u64\<close>.\<close>

definition u64_succ :: "nat \<Rightarrow> nat" where
  "u64_succ n = (n + 1) mod 2 ^ 64"

definition recover :: "InMemoryHub \<Rightarrow> RoomId \<Rightarrow> nat option \<Rightarrow> bool \<Rightarrow> Rooms \<Rightarrow> Backlog" where
  "recover h room since existed rooms = (case since of
       None \<Rightarrow> Unavailable
     | Some n \<Rightarrow>
         if hub_backlog h = 0 then Unavailable
         else if \<not> existed then Unavailable
         else (case dm_get rooms room of
             None \<Rightarrow> Unavailable
           | Some e \<Rightarrow> (case re_backlog e of
                 [] \<Rightarrow> if re_next_version e = 1 then Replayed [] else Unavailable
               | m # ms \<Rightarrow>
                   if u64_succ n < rm_version m then Gap (rm_version m)
                   else Replayed (filter (\<lambda>m. n < rm_version m) (re_backlog e)))))"

text \<open>
  The operations as one caller sees them alone: publishing gives the message to send and the
  channel to send it into, subscribing gives the channel to listen on.
\<close>

definition hub_publish :: "InMemoryHub \<Rightarrow> RealtimeMessage \<Rightarrow> Rooms \<Rightarrow> (RealtimeMessage \<times> channel) option \<times> Rooms" where
  "hub_publish h msg rooms = stamp_and_retain h msg rooms"

definition hub_subscribe :: "InMemoryHub \<Rightarrow> channel \<Rightarrow> RoomId \<Rightarrow> (Rooms, RealtimeError, channel) op" where
  "hub_subscribe h fresh room rooms = register_subscriber h fresh room rooms"

definition hub_subscribe_since ::
    "InMemoryHub \<Rightarrow> channel \<Rightarrow> RoomId \<Rightarrow> nat option \<Rightarrow> (Rooms, RealtimeError, Backlog \<times> channel) op" where
  "hub_subscribe_since h fresh room since rooms =
     (let existed = (dm_get rooms room \<noteq> None) in
      case register_subscriber h fresh room rooms of
        (Err e, rooms') \<Rightarrow> (Err e, rooms')
      | (Ok c, rooms') \<Rightarrow> (Ok (recover h room since existed rooms', c), rooms'))"

section \<open>The stream of a subscriber\<close>

text \<open>
  \<open>RoomStream\<close>: the answers of the broadcast receiver, in the order in which it gives them. An answer that
  reports skipped messages is passed over, so a slow subscriber continues at the current head.
\<close>

datatype 'm RecvResult = Received 'm | Lagged nat | Closed

datatype 'm Polled = StreamItem 'm | StreamEnd | StreamPending

fun room_stream_next :: "'m RecvResult list \<Rightarrow> 'm Polled \<times> 'm RecvResult list" where
  "room_stream_next [] = (StreamPending, [])"
| "room_stream_next (Received m # rs) = (StreamItem m, rs)"
| "room_stream_next (Lagged skipped # rs) = room_stream_next rs"
| "room_stream_next (Closed # rs) = (StreamEnd, Closed # rs)"

lemma room_stream_next_shorter: "room_stream_next rs = (StreamItem m, rs') \<Longrightarrow> length rs' < length rs"
  by (induction rs rule: room_stream_next.induct) auto

function room_stream_items :: "'m RecvResult list \<Rightarrow> 'm list" where
  "room_stream_items rs = (case room_stream_next rs of (StreamItem m, rs') \<Rightarrow> m # room_stream_items rs' | _ \<Rightarrow> [])"
  by pat_completeness auto
termination
  by (relation "measure length") (auto dest: room_stream_next_shorter [OF sym])

declare room_stream_items.simps [simp del]

definition received :: "'m RecvResult \<Rightarrow> 'm option" where
  "received r = (case r of Received m \<Rightarrow> Some m | _ \<Rightarrow> None)"

text \<open>
  A subscriber sees every message its receiver obtains before the channel closes, in order: a gap is
  skipped and never ends the stream.
\<close>

lemma room_stream_items_received:
  "room_stream_items rs = List.map_filter received (takeWhile (\<lambda>r. r \<noteq> Closed) rs)"
proof (induction rs)
  case (Cons r rs)
  have "room_stream_items (Lagged n # rs) = room_stream_items rs" for n
    by (simp add: room_stream_items.simps [of "Lagged n # rs"] room_stream_items.simps [of rs])
  moreover have "room_stream_items (Received m # rs) = m # room_stream_items rs" for m
    by (simp add: room_stream_items.simps [of "Received m # rs"])
  moreover have "room_stream_items (Closed # rs) = []" by (simp add: room_stream_items.simps)
  ultimately show ?case using Cons by (cases r) (simp_all add: received_def map_filter_simps)
qed (simp add: room_stream_items.simps map_filter_simps)

section \<open>Concurrent clients\<close>

text \<open>
  The critical sections of the operations as the steps of concurrent clients. A client looks
  whether the room exists, passes the check against the ceiling, joins, reads the backlog, and
  leaves in the two sections of its guard; a publication is stamped under the lock of the room and
  sent afterwards. \<open>hs_log\<close> holds what was sent into each channel, \<open>hs_stamped\<close> what was stamped
  for it, and \<open>hs_flight\<close> what is stamped but not yet sent. A client remembers its channel and the
  position in the log from which it listens, and \<open>hs_stream\<close> holds the receiver of its stream: the
  position it has reached, the answers it has given, and the messages these answers passed over. A
  receiver skips messages only when it is more than the capacity behind, and then keeps at least
  the capacity of unread ones: the ring of the channel may be larger than asked for. It is never
  closed while the client lives, because the entry of the room holds the sender.
\<close>

datatype phase =
    Idle
  | Checked RoomId "nat option" bool
  | Admitted RoomId "nat option" bool
  | Joined RoomId "nat option" bool channel nat
  | Live RoomId "nat option" Backlog channel nat
  | Leaving RoomId

record Receiver =
  rc_cursor :: nat
  rc_answers :: "RealtimeMessage RecvResult list"
  rc_skipped :: "RealtimeMessage list"

definition receiver_from :: "nat \<Rightarrow> Receiver" where
  "receiver_from pos = \<lparr>rc_cursor = pos, rc_answers = [], rc_skipped = []\<rparr>"

definition receive_next :: "RealtimeMessage list \<Rightarrow> Receiver \<Rightarrow> Receiver" where
  "receive_next lg r = r\<lparr>rc_cursor := rc_cursor r + 1, rc_answers := rc_answers r @ [Received (lg ! rc_cursor r)]\<rparr>"

definition receive_lag :: "RealtimeMessage list \<Rightarrow> nat \<Rightarrow> Receiver \<Rightarrow> Receiver" where
  "receive_lag lg k r = r\<lparr>rc_cursor := rc_cursor r + k, rc_answers := rc_answers r @ [Lagged k],
     rc_skipped := rc_skipped r @ take k (drop (rc_cursor r) lg)\<rparr>"

record HubState =
  hs_rooms :: Rooms
  hs_log :: "channel \<Rightarrow> RealtimeMessage list"
  hs_stamped :: "channel \<Rightarrow> RealtimeMessage list"
  hs_flight :: "(channel \<times> RealtimeMessage) list"
  hs_fresh :: channel
  hs_client :: "nat \<Rightarrow> phase"
  hs_stream :: "nat \<Rightarrow> Receiver"

definition hub_start :: HubState where
  "hub_start = \<lparr>hs_rooms = [], hs_log = (\<lambda>_. []), hs_stamped = (\<lambda>_. []), hs_flight = [], hs_fresh = 0, hs_client = (\<lambda>_. Idle),
     hs_stream = (\<lambda>_. receiver_from 0)\<rparr>"

fun holds :: "RoomId \<Rightarrow> phase \<Rightarrow> bool" where
  "holds room (Joined r _ _ _ _) = (r = room)"
| "holds room (Live r _ _ _ _) = (r = room)"
| "holds room _ = False"

inductive hub_step :: "InMemoryHub \<Rightarrow> HubState \<Rightarrow> HubState \<Rightarrow> bool" for h :: InMemoryHub where
  st_check: "hs_client s i = Idle \<Longrightarrow>
    hub_step h s (s\<lparr>hs_client := (hs_client s)(i := Checked room since (dm_get (hs_rooms s) room \<noteq> None))\<rparr>)"
| st_admit: "hs_client s i = Checked room since existed \<Longrightarrow> \<not> over_capacity h room (hs_rooms s) \<Longrightarrow>
    hub_step h s (s\<lparr>hs_client := (hs_client s)(i := Admitted room since existed)\<rparr>)"
| st_refuse: "hs_client s i = Checked room since existed \<Longrightarrow> over_capacity h room (hs_rooms s) \<Longrightarrow>
    hub_step h s (s\<lparr>hs_client := (hs_client s)(i := Idle)\<rparr>)"
| st_join: "hs_client s i = Admitted room since existed \<Longrightarrow> enter_room (hs_fresh s) room (hs_rooms s) = (c, rooms') \<Longrightarrow>
    hub_step h s (s\<lparr>hs_rooms := rooms', hs_fresh := hs_fresh s + 1,
      hs_client := (hs_client s)(i := Joined room since existed c (length (hs_log s c))),
      hs_stream := (hs_stream s)(i := receiver_from (length (hs_log s c)))\<rparr>)"
| st_read: "hs_client s i = Joined room since existed c pos \<Longrightarrow>
    hub_step h s (s\<lparr>hs_client := (hs_client s)(i := Live room since (recover h room since existed (hs_rooms s)) c pos)\<rparr>)"
| st_leave: "holds room (hs_client s i) \<Longrightarrow> guard_release room (hs_rooms s) = (collected, rooms') \<Longrightarrow>
    hub_step h s (s\<lparr>hs_rooms := rooms', hs_client := (hs_client s)(i := if collected then Leaving room else Idle)\<rparr>)"
| st_collect: "hs_client s i = Leaving room \<Longrightarrow>
    hub_step h s (s\<lparr>hs_rooms := guard_collect room (hs_rooms s), hs_client := (hs_client s)(i := Idle)\<rparr>)"
| st_stamp: "stamp_and_retain h msg (hs_rooms s) = (Some (m, c), rooms') \<Longrightarrow>
    hub_step h s (s\<lparr>hs_rooms := rooms', hs_flight := hs_flight s @ [(c, m)],
      hs_stamped := (hs_stamped s)(c := hs_stamped s c @ [m])\<rparr>)"
| st_send: "hs_flight s = xs @ (c, m) # ys \<Longrightarrow>
    hub_step h s (s\<lparr>hs_flight := xs @ ys, hs_log := (hs_log s)(c := hs_log s c @ [m])\<rparr>)"
| st_recv: "hs_client s i = Live room since b c pos \<Longrightarrow> rc_cursor (hs_stream s i) < length (hs_log s c) \<Longrightarrow>
    hub_step h s (s\<lparr>hs_stream := (hs_stream s)(i := receive_next (hs_log s c) (hs_stream s i))\<rparr>)"
| st_lag: "hs_client s i = Live room since b c pos \<Longrightarrow> 0 < k \<Longrightarrow>
    rc_cursor (hs_stream s i) + k + hub_capacity h \<le> length (hs_log s c) \<Longrightarrow>
    hub_step h s (s\<lparr>hs_stream := (hs_stream s)(i := receive_lag (hs_log s c) k (hs_stream s i))\<rparr>)"

inductive hub_reach :: "InMemoryHub \<Rightarrow> HubState \<Rightarrow> bool" for h :: InMemoryHub where
  reach_start: "hub_reach h hub_start"
| reach_step: "hub_reach h s \<Longrightarrow> hub_step h s s' \<Longrightarrow> hub_reach h s'"

section \<open>Invariants\<close>

definition payload_bytes :: "RealtimeMessage list \<Rightarrow> nat" where
  "payload_bytes ms = sum_list (map (length \<circ> rm_payload) ms)"

definition numbered_from_one :: "RealtimeMessage list \<Rightarrow> bool" where
  "numbered_from_one S \<longleftrightarrow> map rm_version S = [1..<Suc (length S)]"

text \<open>What an entry holds of the messages \<open>S\<close> stamped in its lifetime: a window of the latest ones.\<close>

definition entry_ok :: "InMemoryHub \<Rightarrow> RoomId \<Rightarrow> RealtimeMessage list \<Rightarrow> RoomEntry \<Rightarrow> bool" where
  "entry_ok h room S e \<longleftrightarrow> re_next_version e = Suc (length S) \<and> suffix (re_backlog e) S
     \<and> re_backlog_bytes e = payload_bytes (re_backlog e) \<and> re_backlog_bytes e \<le> hub_max_backlog_bytes h
     \<and> length (re_backlog e) \<le> hub_backlog h \<and> (hub_max_backlog_bytes h = 0 \<longrightarrow> re_backlog e = [])
     \<and> (\<forall>m \<in> set S. rm_room m = room)"

lemma evict_window:
  assumes "evict limit max_bytes ms (payload_bytes ms) = (bl, tb)"
  shows "suffix bl ms \<and> tb = payload_bytes bl \<and> length bl \<le> limit \<and> tb \<le> max_bytes"
  using assms
proof (induction ms)
  case Nil
  then show ?case by (simp add: payload_bytes_def)
next
  case (Cons m ms)
  have p: "payload_bytes (m # ms) - length (rm_payload m) = payload_bytes ms" by (simp add: payload_bytes_def)
  show ?case
  proof (cases "limit < length (m # ms) \<or> max_bytes < payload_bytes (m # ms)")
    case True
    then have "evict limit max_bytes ms (payload_bytes ms) = (bl, tb)" using Cons.prems p by simp
    then show ?thesis using Cons.IH by (simp add: suffix_ConsI)
  next
    case False
    then show ?thesis using Cons.prems by auto
  qed
qed

lemma retain_entry_ok:
  assumes "entry_ok h room S e" and "rm_room m = room"
  shows "entry_ok h room (S @ [m]) (retain h m (e\<lparr>re_next_version := re_next_version e + 1\<rparr>))"
proof (cases "0 < hub_backlog h \<and> 0 < hub_max_backlog_bytes h")
  case True
  obtain bl tb where ev: "evict (hub_backlog h) (hub_max_backlog_bytes h) (re_backlog e @ [m])
      (re_backlog_bytes e + length (rm_payload m)) = (bl, tb)" by fastforce
  have b: "re_backlog_bytes e + length (rm_payload m) = payload_bytes (re_backlog e @ [m])"
    using assms(1) by (simp add: entry_ok_def payload_bytes_def)
  note w = evict_window [OF ev [unfolded b]]
  have "suffix (re_backlog e @ [m]) (S @ [m])" using assms(1) by (simp add: entry_ok_def)
  then have "suffix bl (S @ [m])" using w suffix_order.trans by blast
  then show ?thesis using True ev w assms by (simp add: retain_def entry_ok_def)
next
  case False
  then have "re_backlog e = []" using assms(1) by (auto simp: entry_ok_def)
  moreover have "retain h m x = x" for x using False by (simp only: retain_def if_False)
  ultimately show ?thesis using assms by (simp add: entry_ok_def)
qed

lemma retain_frame [simp]:
  "re_sender (retain h m e) = re_sender e" "re_subscribers (retain h m e) = re_subscribers e"
  by (simp_all add: retain_def split_beta)

text \<open>What a reader is given is what is left of the history after the version it names.\<close>

lemma numbered_nth:
  assumes "numbered_from_one S" and "i < length S"
  shows "rm_version (S ! i) = Suc i"
proof -
  have "rm_version (S ! i) = map rm_version S ! i" using assms(2) by simp
  also have "\<dots> = [1..<Suc (length S)] ! i" using assms(1) by (simp only: numbered_from_one_def)
  also have "\<dots> = Suc i" using assms(2) by (subst nth_upt) simp_all
  finally show ?thesis .
qed

lemma filter_upt: "filter ((<) n) [a..<b] = [max a (Suc n)..<b]"
  by (induction b) (auto simp: max_def le_Suc_eq)

lemma recover_complete:
  assumes "entry_ok h room S e" and "numbered_from_one S" and "dm_get rooms room = Some e"
    and "recover h room (Some n) existed rooms = Replayed ms"
  shows "ms = filter (\<lambda>m. n < rm_version m) S"
proof (cases "re_backlog e")
  case Nil
  then have "S = []" "ms = []" using assms by (auto simp: recover_def entry_ok_def split: if_splits)
  then show ?thesis by simp
next
  case (Cons b bs)
  obtain P where P: "S = P @ re_backlog e" using assms(1) by (auto simp: entry_ok_def suffix_def)
  have ms: "ms = filter (\<lambda>m. n < rm_version m) (re_backlog e)" and le: "rm_version b \<le> u64_succ n"
    using assms(3,4) Cons by (auto simp: recover_def split: if_splits)
  have "rm_version b = Suc (length P)" using numbered_nth [OF assms(2), of "length P"] P Cons by simp
  moreover have "u64_succ n \<le> n + 1" by (simp add: u64_succ_def)
  ultimately have "length P \<le> n" using le by simp
  moreover have "rm_version m \<le> length P" if m: "m \<in> set P" for m
  proof -
    obtain j where "j < length P" "m = P ! j" using m by (metis in_set_conv_nth)
    then show ?thesis using numbered_nth [OF assms(2), of j] P by (simp add: nth_append)
  qed
  ultimately have "filter (\<lambda>m. n < rm_version m) P = []" by (fastforce simp: filter_empty_conv)
  then show ?thesis using P ms by simp
qed

lemma replayed_versions:
  assumes "numbered_from_one S"
  shows "map rm_version (filter (\<lambda>m. n < rm_version m) S) = [Suc n..<Suc n + length (filter (\<lambda>m. n < rm_version m) S)]"
proof -
  have "map rm_version (filter (\<lambda>m. n < rm_version m) S) = filter ((<) n) (map rm_version S)" by (simp add: filter_map o_def)
  also have "\<dots> = [Suc n..<Suc (length S)]" using assms by (simp add: numbered_from_one_def filter_upt)
  finally have e: "map rm_version (filter (\<lambda>m. n < rm_version m) S) = [Suc n..<Suc (length S)]" .
  then have "length (filter (\<lambda>m. n < rm_version m) S) = length S - n" by (metis diff_Suc_Suc length_map length_upt)
  then show ?thesis using e by (cases "n \<le> length S") simp_all
qed

text \<open>The clients that hold a room, and the channel a client listens on.\<close>

definition holders :: "HubState \<Rightarrow> RoomId \<Rightarrow> nat set" where
  "holders s room = {i. holds room (hs_client s i)}"

fun listens :: "phase \<Rightarrow> (channel \<times> nat) option" where
  "listens (Joined _ _ _ c pos) = Some (c, pos)"
| "listens (Live _ _ _ c pos) = Some (c, pos)"
| "listens _ = None"

text \<open>
  The first invariant: every entry counts exactly its holders, an entry without holders is about
  to be collected, and a holder listens on the channel of its room.
\<close>

definition guard_inv :: "HubState \<Rightarrow> bool" where
  "guard_inv s \<longleftrightarrow> finite {i. hs_client s i \<noteq> Idle}
     \<and> (\<forall>r e. dm_get (hs_rooms s) r = Some e \<longrightarrow> re_subscribers e = card (holders s r) \<and> re_sender e < hs_fresh s
          \<and> (re_subscribers e = 0 \<longrightarrow> (\<exists>i. hs_client s i = Leaving r)))
     \<and> (\<forall>i r. holds r (hs_client s i) \<longrightarrow>
          (\<exists>e. dm_get (hs_rooms s) r = Some e \<and> map_option fst (listens (hs_client s i)) = Some (re_sender e)))
     \<and> (\<forall>r r' e e'. dm_get (hs_rooms s) r = Some e \<longrightarrow> dm_get (hs_rooms s) r' = Some e' \<longrightarrow>
          re_sender e = re_sender e' \<longrightarrow> r = r')"

lemma guard_invD:
  assumes "guard_inv s"
  shows "finite {i. hs_client s i \<noteq> Idle}"
    and "dm_get (hs_rooms s) r = Some e \<Longrightarrow> re_subscribers e = card (holders s r)"
    and "dm_get (hs_rooms s) r = Some e \<Longrightarrow> re_sender e < hs_fresh s"
    and "dm_get (hs_rooms s) r = Some e \<Longrightarrow> re_subscribers e = 0 \<Longrightarrow> \<exists>i. hs_client s i = Leaving r"
    and "holds r (hs_client s i) \<Longrightarrow> \<exists>e. dm_get (hs_rooms s) r = Some e \<and> map_option fst (listens (hs_client s i)) = Some (re_sender e)"
    and "dm_get (hs_rooms s) r = Some e \<Longrightarrow> dm_get (hs_rooms s) r' = Some e' \<Longrightarrow> re_sender e = re_sender e' \<Longrightarrow> r = r'"
  using assms unfolding guard_inv_def by blast+

lemma guard_inv_stream [simp]: "guard_inv (s\<lparr>hs_stream := x\<rparr>) = guard_inv s"
  by (simp add: guard_inv_def holders_def)

lemma finite_holders: "guard_inv s \<Longrightarrow> finite (holders s r)"
  by (rule finite_subset [OF _ guard_invD(1)]) (auto simp: holders_def)

lemma holders_client:
  "holders (s\<lparr>hs_client := (hs_client s)(i := ph)\<rparr>) r = (if holds r ph then insert i (holders s r) else holders s r - {i})"
  by (auto simp: holders_def)

lemma finite_clients:
  "guard_inv s \<Longrightarrow> finite {j. ((hs_client s)(i := ph)) j \<noteq> Idle}"
  by (rule finite_subset [of _ "insert i {i. hs_client s i \<noteq> Idle}"]) (auto dest: guard_invD(1))

lemma guard_inv_client:
  assumes "guard_inv s" and "\<And>r. holds r ph = holds r (hs_client s i)" and "listens ph = listens (hs_client s i)"
    and "\<And>r. hs_client s i \<noteq> Leaving r"
  shows "guard_inv (s\<lparr>hs_client := (hs_client s)(i := ph)\<rparr>)"
proof -
  let ?s = "s\<lparr>hs_client := (hs_client s)(i := ph)\<rparr>"
  have h: "holders ?s r = holders s r" for r using assms(2) by (auto simp: holders_def)
  show ?thesis
    unfolding guard_inv_def h
  proof (intro conjI allI impI, goal_cases)
    case 1
    then show ?case using finite_clients [OF assms(1)] by simp
  next
    case (4 r e)
    then obtain j where j: "hs_client s j = Leaving r" using guard_invD(4) [OF assms(1)] by auto
    then have "j \<noteq> i" using assms(4) by auto
    then show ?case using j by auto
  next
    case (5 j r)
    then have "holds r (hs_client s j)" using assms(2) by (auto split: if_splits)
    then show ?case using guard_invD(5) [OF assms(1)] assms(3) by (cases "j = i") fastforce+
  next
    case (6 r r' e e')
    then show ?case using guard_invD(6) [OF assms(1), of r e r' e'] by simp
  qed (use guard_invD [OF assms(1)] in auto)
qed

lemma senders_update:
  assumes "guard_inv s" and "\<And>r. dm_get rooms' r = (if r = room then Some e else dm_get (hs_rooms s) r)"
    and "\<And>r e0. dm_get (hs_rooms s) r = Some e0 \<Longrightarrow> re_sender e0 = re_sender e \<longrightarrow> r = room"
    and "dm_get rooms' r1 = Some e1" "dm_get rooms' r2 = Some e2" "re_sender e1 = re_sender e2"
  shows "r1 = r2"
proof -
  note g = assms(4,5) [unfolded assms(2)]
  show ?thesis
  proof (cases "r1 = room")
    case r1: True
    show ?thesis
    proof (rule ccontr)
      assume "r1 \<noteq> r2"
      then have "r2 \<noteq> room" "dm_get (hs_rooms s) r2 = Some e2" "e1 = e" using r1 g by simp_all
      then show False using assms(3) [of r2 e2] assms(6) by simp
    qed
  next
    case r1: False
    then have s1: "dm_get (hs_rooms s) r1 = Some e1" using g(1) by simp
    show ?thesis
    proof (cases "r2 = room")
      case True
      then have "e2 = e" using g(2) by simp
      then show ?thesis using assms(3) [OF s1] assms(6) r1 by simp
    next
      case False
      then have "dm_get (hs_rooms s) r2 = Some e2" using g(2) by simp
      then show ?thesis using guard_invD(6) [OF assms(1) s1] assms(6) by simp
    qed
  qed
qed

lemma guard_inv_check: "guard_inv s \<Longrightarrow> hs_client s i = Idle \<Longrightarrow> guard_inv (s\<lparr>hs_client := (hs_client s)(i := Checked room since x)\<rparr>)"
  by (rule guard_inv_client) simp_all

lemma guard_inv_join:
  assumes "guard_inv s" and "hs_client s i = Admitted room since existed"
    and "enter_room (hs_fresh s) room (hs_rooms s) = (c, rooms')"
  shows "guard_inv (s\<lparr>hs_rooms := rooms', hs_fresh := hs_fresh s + 1,
      hs_client := (hs_client s)(i := Joined room since existed c pos)\<rparr>)" (is "guard_inv ?s")
proof -
  have i: "i \<notin> holders s r" for r using assms(2) by (simp add: holders_def)
  have h: "holders ?s r = (if r = room then insert i (holders s r) else holders s r)" for r
    using assms(2) by (auto simp: holders_def)
  have none: "holders s room = {}" if "dm_get (hs_rooms s) room = None"
    using that guard_invD(5) [OF assms(1)] by (fastforce simp: holders_def)
  obtain e where e: "\<And>r. dm_get rooms' r = (if r = room then Some e else dm_get (hs_rooms s) r)" "re_sender e = c"
    "re_subscribers e = card (insert i (holders s room))" "c = hs_fresh s \<and> dm_get (hs_rooms s) room = None
      \<or> (\<exists>e0. dm_get (hs_rooms s) room = Some e0 \<and> c = re_sender e0)"
  proof (cases "dm_get (hs_rooms s) room")
    case None
    then show ?thesis using assms(3) none that by (fastforce simp: enter_room_def)
  next
    case (Some e0)
    have "re_subscribers e0 = card (holders s room)" using guard_invD(2) [OF assms(1) Some] .
    then show ?thesis using assms(3) Some that [of "e0\<lparr>re_subscribers := re_subscribers e0 + 1\<rparr>"] i finite_holders [OF assms(1)]
      by (fastforce simp: enter_room_def)
  qed
  have old: "re_sender e' < hs_fresh s" if "dm_get (hs_rooms s) r = Some e'" for r e' using guard_invD(3) [OF assms(1) that] .
  have c: "c < hs_fresh s + 1" using e(4) old by fastforce
  show ?thesis
    unfolding guard_inv_def h
  proof (intro conjI allI impI, goal_cases)
    case 1
    then show ?case using finite_clients [OF assms(1)] by simp
  next
    case (2 r e')
    then show ?case using e guard_invD(2) [OF assms(1), of r e'] by (auto split: if_splits)
  next
    case (3 r e')
    then show ?case using e c old [of r e'] by (auto split: if_splits)
  next
    case (4 r e')
    then have "r \<noteq> room" using e finite_holders [OF assms(1)] by auto
    then have "\<exists>j. hs_client s j = Leaving r" using 4 e(1) guard_invD(4) [OF assms(1), of r e'] by simp
    then obtain j where "hs_client s j = Leaving r" ..
    then show ?case using assms(2) by (intro exI [of _ j]) auto
  next
    case (5 j r)
    then show ?case using e guard_invD(5) [OF assms(1), of r j] by (cases "j = i"; cases "r = room") auto
  next
    case (6 r1 r2 e1 e2)
    have "re_sender e0 = re_sender e \<longrightarrow> r = room" if "dm_get (hs_rooms s) r = Some e0" for r e0
      using e(2,4) old [OF that] guard_invD(6) [OF assms(1) that] by auto
    note key = this
    have 6: "dm_get rooms' r1 = Some e1" "dm_get rooms' r2 = Some e2" "re_sender e1 = re_sender e2" using 6 by simp_all
    show ?case by (rule senders_update [OF assms(1) e(1) _ 6]) (simp add: key)
  qed
qed

lemma guard_inv_leave:
  assumes "guard_inv s" and "holds room (hs_client s i)" and "guard_release room (hs_rooms s) = (collected, rooms')"
  shows "guard_inv (s\<lparr>hs_rooms := rooms', hs_client := (hs_client s)(i := if collected then Leaving room else Idle)\<rparr>)"
    (is "guard_inv ?s")
proof -
  have i: "i \<in> holders s room" using assms(2) by (simp add: holders_def)
  have other: "i \<notin> holders s r" if "r \<noteq> room" for r
    using that assms(2) by (cases "hs_client s i") (auto simp: holders_def)
  have nh: "\<not> holds r (if collected then Leaving room else Idle)" for r by simp
  have h: "holders ?s r = holders s r - {i}" for r using nh by (auto simp: holders_def)
  from guard_invD(5) [OF assms(1,2)] obtain e where e: "dm_get (hs_rooms s) room = Some e" by blast
  have n: "re_subscribers e - 1 = card (holders s room - {i})"
    using guard_invD(2) [OF assms(1) e] i finite_holders [OF assms(1)] by simp
  have r': "\<And>r. dm_get rooms' r = (if r = room then Some (e\<lparr>re_subscribers := re_subscribers e - 1\<rparr>) else dm_get (hs_rooms s) r)"
    and col: "collected \<longleftrightarrow> re_subscribers e - 1 = 0"
    using assms(3) e by (auto simp: guard_release_def Let_def)
  show ?thesis
    unfolding guard_inv_def h
  proof (intro conjI allI impI, goal_cases)
    case 1
    then show ?case using finite_clients [OF assms(1)] by simp
  next
    case (2 r e')
    then show ?case using r' n other [of r] guard_invD(2) [OF assms(1), of r e'] by (auto split: if_splits)
  next
    case (3 r e')
    then show ?case using r' e guard_invD(3) [OF assms(1)] by (auto split: if_splits)
  next
    case (4 r e')
    show ?case
    proof (cases "r = room")
      case True
      then have collected using 4 r' col by auto
      then show ?thesis using True by (intro exI [of _ i]) simp
    next
      case False
      then have "\<exists>j. hs_client s j = Leaving r" using 4 r' guard_invD(4) [OF assms(1), of r e'] by simp
      then obtain j where j: "hs_client s j = Leaving r" ..
      then have "j \<noteq> i" using assms(2) by auto
      then show ?thesis using j by (intro exI [of _ j]) simp
    qed
  next
    case (5 j r)
    then have j: "j \<noteq> i" "holds r (hs_client s j)" using nh by (auto split: if_splits)
    then show ?case using r' e guard_invD(5) [OF assms(1) j(2)] by (cases "r = room") auto
  next
    case (6 r1 r2 e1 e2)
    have "re_sender e0 = re_sender e \<longrightarrow> r = room" if "dm_get (hs_rooms s) r = Some e0" for r e0
      using guard_invD(6) [OF assms(1) that e] by blast
    note key = this
    have 6: "dm_get rooms' r1 = Some e1" "dm_get rooms' r2 = Some e2" "re_sender e1 = re_sender e2" using 6 by simp_all
    show ?case by (rule senders_update [OF assms(1) r' _ 6]) (simp add: key)
  qed
qed

lemma guard_inv_collect:
  assumes "guard_inv s" and "hs_client s i = Leaving room"
  shows "guard_inv (s\<lparr>hs_rooms := guard_collect room (hs_rooms s), hs_client := (hs_client s)(i := Idle)\<rparr>)" (is "guard_inv ?s")
proof -
  have h: "holders ?s r = holders s r" for r using assms(2) by (auto simp: holders_def)
  have r': "dm_get (guard_collect room (hs_rooms s)) r = (if r = room \<and> map_option re_subscribers (dm_get (hs_rooms s) room) = Some 0
      then None else dm_get (hs_rooms s) r)" for r
    by (auto simp: guard_collect_def split: option.splits)
  have keep: "dm_get (guard_collect room (hs_rooms s)) r = dm_get (hs_rooms s) r" if "holders s r \<noteq> {}" for r
  proof -
    have "re_subscribers e \<noteq> 0" if "dm_get (hs_rooms s) r = Some e" for e
      using guard_invD(2) [OF assms(1) that] finite_holders [OF assms(1)] \<open>holders s r \<noteq> {}\<close> by simp
    then show ?thesis unfolding r' by auto
  qed
  show ?thesis
    unfolding guard_inv_def h
  proof (intro conjI allI impI, goal_cases)
    case 1
    then show ?case using finite_clients [OF assms(1)] by simp
  next
    case (4 r e')
    then have "r \<noteq> room" and "\<exists>j. hs_client s j = Leaving r"
      using r' guard_invD(4) [OF assms(1), of r e'] by (auto split: if_splits)
    then obtain j where "hs_client s j = Leaving r" by blast
    then show ?case using assms(2) \<open>r \<noteq> room\<close> by (intro exI [of _ j]) auto
  next
    case (5 j r)
    then have j: "holds r (hs_client s j)" "j \<noteq> i" by (auto split: if_splits)
    then have "holders s r \<noteq> {}" by (auto simp: holders_def)
    then show ?case using keep [of r] j guard_invD(5) [OF assms(1) j(1)] by simp
  next
    case (6 r1 r2 e1 e2)
    then show ?case using r' guard_invD(6) [OF assms(1), of r1 e1 r2 e2] by (auto split: if_splits)
  qed (use r' guard_invD(2,3) [OF assms(1)] in \<open>auto split: if_splits\<close>)
qed

lemma stamp_get:
  assumes "stamp_and_retain h msg rooms = (Some (m, c), rooms')"
  obtains e where "dm_get rooms (rm_room msg) = Some e" "c = re_sender e" "m = msg\<lparr>rm_version := re_next_version e\<rparr>"
    "\<And>r. dm_get rooms' r = (if r = rm_room msg then Some (retain h m (e\<lparr>re_next_version := re_next_version e + 1\<rparr>)) else dm_get rooms r)"
  using assms by (auto simp: stamp_and_retain_def Let_def split: option.splits)

lemma guard_inv_stamp:
  assumes "guard_inv s" and "stamp_and_retain h msg (hs_rooms s) = (Some (m, c), rooms')"
  shows "guard_inv (s\<lparr>hs_rooms := rooms', hs_flight := fl, hs_stamped := st\<rparr>)" (is "guard_inv ?s")
proof -
  obtain e where e: "dm_get (hs_rooms s) (rm_room msg) = Some e"
    and r': "\<And>r. dm_get rooms' r = (if r = rm_room msg then Some (retain h m (e\<lparr>re_next_version := re_next_version e + 1\<rparr>)) else dm_get (hs_rooms s) r)"
    using stamp_get [OF assms(2)] by metis
  have h: "holders ?s r = holders s r" for r by (simp add: holders_def)
  have bwd: "\<exists>e0. dm_get (hs_rooms s) r = Some e0 \<and> re_sender e' = re_sender e0 \<and> re_subscribers e' = re_subscribers e0"
    if "dm_get rooms' r = Some e'" for r e' using that r' e by (auto split: if_splits)
  have forth: "\<exists>e0. dm_get rooms' r = Some e0 \<and> re_sender e0 = re_sender e'" if "dm_get (hs_rooms s) r = Some e'" for r e'
    using that r' e by auto
  show ?thesis
    unfolding guard_inv_def h
  proof (intro conjI allI impI, goal_cases)
    case 1
    then show ?case using guard_invD(1) [OF assms(1)] by simp
  next
    case (4 r e')
    then show ?case using bwd [of r e'] guard_invD(4) [OF assms(1), of r] by auto
  next
    case (5 j r)
    then show ?case using guard_invD(5) [OF assms(1), of r j] forth by fastforce
  next
    case (6 r1 r2 e1 e2)
    then obtain e1' e2' where "dm_get (hs_rooms s) r1 = Some e1'" "dm_get (hs_rooms s) r2 = Some e2'" "re_sender e1' = re_sender e2'"
      using bwd [of r1 e1] bwd [of r2 e2] by auto
    then show ?case by (rule guard_invD(6) [OF assms(1)])
  qed (use bwd guard_invD(2,3) [OF assms(1)] in fastforce)+
qed

lemma guard_inv_reach: "hub_reach h s \<Longrightarrow> guard_inv s"
proof (induction rule: hub_reach.induct)
  case reach_start
  then show ?case by (simp add: guard_inv_def hub_start_def)
next
  case (reach_step s s')
  note inv = reach_step.IH
  from reach_step.hyps(2) show ?case
  proof (cases rule: hub_step.cases)
    case (st_check i room since)
    then show ?thesis using guard_inv_check [OF inv] by simp
  next
    case (st_send xs c m ys)
    then show ?thesis using inv by (simp add: guard_inv_def holders_def)
  next
    case (st_stamp msg m c rooms')
    then show ?thesis using guard_inv_stamp [OF inv] by simp
  next
    case (st_leave room i collected rooms')
    then show ?thesis using guard_inv_leave [OF inv] by simp
  next
    case (st_collect i room)
    then show ?thesis using guard_inv_collect [OF inv] by simp
  next
    case (st_join i room since existed c rooms')
    then show ?thesis using guard_inv_join [OF inv] by simp
  qed (auto intro!: guard_inv_client [OF inv] simp: inv)
qed

text \<open>
  The second invariant: the messages stamped in the lifetime of a channel are numbered from one,
  every entry keeps a window of them, and each of them is either sent or on its way.
\<close>

definition history_inv :: "InMemoryHub \<Rightarrow> HubState \<Rightarrow> bool" where
  "history_inv h s \<longleftrightarrow> (\<forall>c. numbered_from_one (hs_stamped s c))
     \<and> (\<forall>c. hs_fresh s \<le> c \<longrightarrow> hs_stamped s c = [])
     \<and> (\<forall>r e. dm_get (hs_rooms s) r = Some e \<longrightarrow> entry_ok h r (hs_stamped s (re_sender e)) e)
     \<and> (\<forall>c. mset (hs_stamped s c) = mset (hs_log s c) + mset (map snd (filter (\<lambda>x. fst x = c) (hs_flight s))))"

lemma history_invD:
  assumes "history_inv h s"
  shows "numbered_from_one (hs_stamped s c)" and "hs_fresh s \<le> c \<Longrightarrow> hs_stamped s c = []"
    and "dm_get (hs_rooms s) r = Some e \<Longrightarrow> entry_ok h r (hs_stamped s (re_sender e)) e"
    and "mset (hs_stamped s c) = mset (hs_log s c) + mset (map snd (filter (\<lambda>x. fst x = c) (hs_flight s)))"
  using assms unfolding history_inv_def by blast+

lemma history_inv_stream [simp]: "history_inv h (s\<lparr>hs_stream := x\<rparr>) = history_inv h s"
  by (simp add: history_inv_def)

lemma numbered_snoc: "numbered_from_one S \<Longrightarrow> rm_version m = Suc (length S) \<Longrightarrow> numbered_from_one (S @ [m])"
  by (simp add: numbered_from_one_def)

lemma entry_ok_subscribers [simp]: "entry_ok h room S (e\<lparr>re_subscribers := n\<rparr>) = entry_ok h room S e"
  by (simp add: entry_ok_def)

lemma history_inv_join:
  assumes "history_inv h s" and "enter_room (hs_fresh s) room (hs_rooms s) = (c, rooms')"
  shows "history_inv h (s\<lparr>hs_rooms := rooms', hs_fresh := hs_fresh s + 1, hs_client := cl\<rparr>)"
proof -
  have "entry_ok h r (hs_stamped s (re_sender e)) e" if e: "dm_get rooms' r = Some e" for r e
  proof (cases "dm_get (hs_rooms s) room")
    case None
    then have "r = room \<and> e = \<lparr>re_sender = hs_fresh s, re_subscribers = 1, re_next_version = 1, re_backlog = [], re_backlog_bytes = 0\<rparr>
        \<or> dm_get (hs_rooms s) r = Some e"
      using e assms(2) by (auto simp: enter_room_def split: if_splits)
    then show ?thesis
      using history_invD(3) [OF assms(1)] history_invD(2) [OF assms(1) order_refl]
      by (auto simp: entry_ok_def payload_bytes_def)
  next
    case (Some e0)
    then have "r = room \<and> e = e0\<lparr>re_subscribers := re_subscribers e0 + 1\<rparr> \<or> dm_get (hs_rooms s) r = Some e"
      using e assms(2) by (auto simp: enter_room_def split: if_splits)
    then show ?thesis using history_invD(3) [OF assms(1)] Some by auto
  qed
  then show ?thesis using assms(1) by (simp add: history_inv_def)
qed

lemma history_inv_stamp:
  assumes "history_inv h s" and "guard_inv s" and "stamp_and_retain h msg (hs_rooms s) = (Some (m, c), rooms')"
  shows "history_inv h (s\<lparr>hs_rooms := rooms', hs_flight := hs_flight s @ [(c, m)], hs_stamped := (hs_stamped s)(c := hs_stamped s c @ [m])\<rparr>)"
proof -
  from stamp_get [OF assms(3)] obtain e where e: "dm_get (hs_rooms s) (rm_room msg) = Some e" "c = re_sender e"
    "m = msg\<lparr>rm_version := re_next_version e\<rparr>"
    and r': "\<And>r. dm_get rooms' r = (if r = rm_room msg then Some (retain h m (e\<lparr>re_next_version := re_next_version e + 1\<rparr>)) else dm_get (hs_rooms s) r)"
    by metis
  have ok: "entry_ok h (rm_room msg) (hs_stamped s c) e" using history_invD(3) [OF assms(1) e(1)] e(2) by simp
  have "rm_version m = Suc (length (hs_stamped s c))" using ok e(3) by (simp add: entry_ok_def)
  then have num: "numbered_from_one (hs_stamped s c @ [m])" by (rule numbered_snoc [OF history_invD(1) [OF assms(1)]])
  have fresh: "c < hs_fresh s" using guard_invD(3) [OF assms(2) e(1)] e(2) by simp
  have "entry_ok h (rm_room msg) (hs_stamped s c @ [m]) (retain h m (e\<lparr>re_next_version := re_next_version e + 1\<rparr>))"
    by (rule retain_entry_ok [OF ok]) (simp add: e(3))
  moreover have "re_sender e' \<noteq> c" if "dm_get (hs_rooms s) r = Some e'" "r \<noteq> rm_room msg" for r e'
    using guard_invD(6) [OF assms(2) that(1) e(1)] that(2) e(2) by auto
  ultimately show ?thesis using assms(1) num fresh r' e(2) by (auto simp: history_inv_def)
qed

lemma history_inv_reach: "hub_reach h s \<Longrightarrow> history_inv h s"
proof (induction rule: hub_reach.induct)
  case reach_start
  then show ?case by (simp add: history_inv_def hub_start_def numbered_from_one_def)
next
  case (reach_step s s')
  note inv = reach_step.IH
  from reach_step.hyps(2) show ?case
  proof (cases rule: hub_step.cases)
    case (st_send xs c m ys)
    then show ?thesis using inv by (auto simp: history_inv_def)
  next
    case (st_stamp msg m c rooms')
    then show ?thesis using history_inv_stamp [OF inv guard_inv_reach [OF reach_step.hyps(1)]] by simp
  next
    case (st_leave room i collected rooms')
    have "entry_ok h r (hs_stamped s (re_sender e)) e" if "dm_get rooms' r = Some e" for r e
      using that st_leave(3) history_invD(3) [OF inv]
      by (auto simp: guard_release_def Let_def split: option.splits if_splits)
    then show ?thesis using st_leave inv by (simp add: history_inv_def)
  next
    case (st_collect i room)
    then show ?thesis using inv by (auto simp: history_inv_def guard_collect_def split: option.splits if_splits)
  next
    case (st_join i room since existed c rooms')
    then show ?thesis using history_inv_join [OF inv] by simp
  qed (use inv in \<open>auto simp: history_inv_def\<close>)
qed

text \<open>
  The third invariant: a client that was told its backlog was replayed has, in the replay and in
  what its channel carries from its position on, every message of the room after the version it
  named.
\<close>

definition resumed :: "HubState \<Rightarrow> nat \<Rightarrow> RealtimeMessage list \<Rightarrow> channel \<Rightarrow> nat \<Rightarrow> bool" where
  "resumed s n ms c pos \<longleftrightarrow> map rm_version ms = [Suc n..<Suc n + length ms]
     \<and> (\<forall>m \<in> set (hs_stamped s c). n < rm_version m \<longrightarrow>
          m \<in> set ms \<or> m \<in> set (drop pos (hs_log s c)) \<or> (c, m) \<in> set (hs_flight s))"

definition listen_inv :: "HubState \<Rightarrow> bool" where
  "listen_inv s \<longleftrightarrow> (\<forall>i c pos. listens (hs_client s i) = Some (c, pos) \<longrightarrow> pos \<le> length (hs_log s c))
     \<and> (\<forall>i room n ms c pos. hs_client s i = Live room (Some n) (Replayed ms) c pos \<longrightarrow> resumed s n ms c pos)"

lemma listen_invD:
  assumes "listen_inv s"
  shows "listens (hs_client s i) = Some (c, pos) \<Longrightarrow> pos \<le> length (hs_log s c)"
    and "hs_client s i = Live room (Some n) (Replayed ms) c pos \<Longrightarrow> resumed s n ms c pos"
  using assms unfolding listen_inv_def by blast+

lemma listen_inv_stream [simp]: "listen_inv (s\<lparr>hs_stream := x\<rparr>) = listen_inv s"
  by (simp add: listen_inv_def resumed_def)

lemma listen_inv_client:
  assumes "listen_inv s" and "\<And>c pos. listens ph = Some (c, pos) \<Longrightarrow> pos \<le> length (hs_log s c)"
    and "\<And>room n ms c pos. ph = Live room (Some n) (Replayed ms) c pos \<Longrightarrow> resumed s n ms c pos"
  shows "listen_inv (s\<lparr>hs_client := (hs_client s)(i := ph)\<rparr>)"
  using assms unfolding listen_inv_def resumed_def by simp

lemma resumed_read:
  assumes "guard_inv s" and "history_inv h s" and "hs_client s i = Joined room (Some n) existed c pos"
    and "recover h room (Some n) existed (hs_rooms s) = Replayed ms"
  shows "resumed s n ms c pos"
proof -
  obtain e where e: "dm_get (hs_rooms s) room = Some e" "c = re_sender e"
    using guard_invD(5) [OF assms(1), of room i] assms(3) by auto
  have ms: "ms = filter (\<lambda>m. n < rm_version m) (hs_stamped s c)"
    using recover_complete [OF history_invD(3) [OF assms(2) e(1)] history_invD(1) [OF assms(2)] e(1) assms(4)] e(2) by simp
  show ?thesis using replayed_versions [OF history_invD(1) [OF assms(2)], of n c] unfolding resumed_def ms by simp
qed

lemma resumed_stamp:
  assumes "resumed s n ms c pos"
  shows "resumed (s\<lparr>hs_rooms := rooms', hs_flight := hs_flight s @ [(c', m)], hs_stamped := (hs_stamped s)(c' := hs_stamped s c' @ [m])\<rparr>) n ms c pos"
  using assms by (auto simp: resumed_def)

lemma resumed_send:
  assumes "resumed s n ms c pos" and "pos \<le> length (hs_log s c)" and "hs_flight s = xs @ (c', m) # ys"
  shows "resumed (s\<lparr>hs_flight := xs @ ys, hs_log := (hs_log s)(c' := hs_log s c' @ [m])\<rparr>) n ms c pos"
  using assms by (auto simp: resumed_def)

lemma listen_inv_reach: "hub_reach h s \<Longrightarrow> listen_inv s"
proof (induction rule: hub_reach.induct)
  case reach_start
  then show ?case by (simp add: listen_inv_def hub_start_def)
next
  case (reach_step s s')
  note inv = reach_step.IH and pos = listen_invD(1) [OF reach_step.IH]
  note G = guard_inv_reach [OF reach_step.hyps(1)] and H = history_inv_reach [OF reach_step.hyps(1)]
  have rooms: "listen_inv (t\<lparr>hs_rooms := rs\<rparr>) = listen_inv t" "listen_inv (t\<lparr>hs_fresh := f\<rparr>) = listen_inv t" for t rs f
    by (simp_all add: listen_inv_def resumed_def)
  from reach_step.hyps(2) show ?case
  proof (cases rule: hub_step.cases)
    case (st_read i room since existed c p)
    show ?thesis unfolding st_read(1)
    proof (rule listen_inv_client [OF inv])
      fix r n ms c' p' assume "Live room since (recover h room since existed (hs_rooms s)) c p = Live r (Some n) (Replayed ms) c' p'"
      then show "resumed s n ms c' p'" using resumed_read [OF G H, of i room n existed c p ms] st_read(2) by auto
    qed (use pos [of i] st_read(2) in auto)
  next
    case (st_stamp msg m c rooms')
    then show ?thesis using inv resumed_stamp unfolding listen_inv_def by fastforce
  next
    case (st_send xs c m ys)
    have "resumed s' n ms c' p" if "hs_client s' i = Live room (Some n) (Replayed ms) c' p" for i room n ms c' p
    proof -
      have l: "hs_client s i = Live room (Some n) (Replayed ms) c' p" using that st_send(1) by simp
      show ?thesis unfolding st_send(1)
        by (rule resumed_send [OF listen_invD(2) [OF inv l] _ st_send(2)]) (use pos [of i] l in simp)
    qed
    moreover have "p \<le> length (hs_log s' c')" if "listens (hs_client s' i) = Some (c', p)" for i c' p
      using pos [of i c' p] that st_send(1) by auto
    ultimately show ?thesis unfolding listen_inv_def by blast
  next
    case (st_join i room since existed c rooms')
    have "listen_inv (s\<lparr>hs_client := (hs_client s)(i := Joined room since existed c (length (hs_log s c)))\<rparr>)"
      by (rule listen_inv_client [OF inv]) auto
    then show ?thesis unfolding st_join(1) using inv by (simp add: listen_inv_def resumed_def)
  next
    case (st_leave room i collected rooms')
    have "listen_inv (s\<lparr>hs_client := (hs_client s)(i := if collected then Leaving room else Idle)\<rparr>)"
      by (rule listen_inv_client [OF inv]) (auto split: if_splits)
    then show ?thesis unfolding st_leave(1) by (simp add: listen_inv_def resumed_def)
  next
    case (st_collect i room)
    have "listen_inv (s\<lparr>hs_client := (hs_client s)(i := Idle)\<rparr>)" by (rule listen_inv_client [OF inv]) auto
    then show ?thesis unfolding st_collect(1) by (simp add: listen_inv_def resumed_def)
  qed (auto intro!: listen_inv_client [OF inv] simp: inv)
qed

text \<open>
  The fourth invariant: what a receiver has passed, from the position it was created at, are the
  messages its stream handed out and those it skipped; it reports how many it skipped, and skips
  only when more messages than the capacity have been sent since it was created.
\<close>

fun reported_skips :: "'m RecvResult list \<Rightarrow> nat" where
  "reported_skips [] = 0"
| "reported_skips (Lagged k # rs) = k + reported_skips rs"
| "reported_skips (_ # rs) = reported_skips rs"

lemma reported_skips_append [simp]: "reported_skips (rs @ rs') = reported_skips rs + reported_skips rs'"
  by (induction rs rule: reported_skips.induct) simp_all

definition stream_ok :: "nat \<Rightarrow> RealtimeMessage list \<Rightarrow> nat \<Rightarrow> Receiver \<Rightarrow> bool" where
  "stream_ok capacity lg pos r \<longleftrightarrow> pos \<le> rc_cursor r \<and> rc_cursor r \<le> length lg \<and> Closed \<notin> set (rc_answers r)
     \<and> mset (take (rc_cursor r - pos) (drop pos lg)) = mset (room_stream_items (rc_answers r)) + mset (rc_skipped r)
     \<and> length (rc_skipped r) = reported_skips (rc_answers r)
     \<and> (rc_skipped r \<noteq> [] \<longrightarrow> pos + capacity < length lg)"

lemma room_stream_items_open:
  assumes "Closed \<notin> set rs"
  shows "room_stream_items rs = List.map_filter received rs"
proof -
  have "takeWhile (\<lambda>r. r \<noteq> Closed) rs = rs" using assms by (simp add: takeWhile_eq_all_conv) blast
  then show ?thesis by (simp only: room_stream_items_received)
qed

lemma stream_ok_start: "stream_ok capacity lg (length lg) (receiver_from (length lg))"
  by (simp add: stream_ok_def receiver_from_def room_stream_items_received map_filter_simps)

lemma stream_ok_snoc: "stream_ok capacity lg pos r \<Longrightarrow> stream_ok capacity (lg @ [m]) pos r"
  by (auto simp: stream_ok_def)

lemma taken_further:
  assumes "pos \<le> cur" and "cur + k \<le> length lg"
  shows "take (cur + k - pos) (drop pos lg) = take (cur - pos) (drop pos lg) @ take k (drop cur lg)"
proof -
  have "cur + k - pos = (cur - pos) + k" using assms by simp
  moreover have "drop (cur - pos) (drop pos lg) = drop cur lg" using assms by simp
  ultimately show ?thesis by (simp only: take_add)
qed

lemma stream_ok_next:
  assumes "stream_ok capacity lg pos r" and "rc_cursor r < length lg"
  shows "stream_ok capacity lg pos (receive_next lg r)"
proof -
  have "take 1 (drop (rc_cursor r) lg) = [lg ! rc_cursor r]" using assms(2) by (simp add: Cons_nth_drop_Suc [symmetric])
  then show ?thesis using assms taken_further [of pos "rc_cursor r" 1 lg]
    by (auto simp: stream_ok_def receive_next_def room_stream_items_open map_filter_def received_def)
qed

lemma stream_ok_lag:
  assumes "stream_ok capacity lg pos r" and "0 < k" and "rc_cursor r + k + capacity \<le> length lg"
  shows "stream_ok capacity lg pos (receive_lag lg k r)"
  using assms taken_further [of pos "rc_cursor r" k lg]
  by (auto simp: stream_ok_def receive_lag_def room_stream_items_open map_filter_def received_def)

definition stream_inv :: "InMemoryHub \<Rightarrow> HubState \<Rightarrow> bool" where
  "stream_inv h s \<longleftrightarrow> (\<forall>i c pos. listens (hs_client s i) = Some (c, pos) \<longrightarrow>
     stream_ok (hub_capacity h) (hs_log s c) pos (hs_stream s i))"

lemma stream_inv_reach: "hub_reach h s \<Longrightarrow> stream_inv h s"
proof (induction rule: hub_reach.induct)
  case reach_start
  then show ?case by (simp add: stream_inv_def hub_start_def)
next
  case (reach_step s s')
  have inv: "stream_ok (hub_capacity h) (hs_log s c) pos (hs_stream s i)"
    if "listens (hs_client s i) = Some (c, pos)" for i c pos
    using reach_step.IH that by (simp add: stream_inv_def)
  from reach_step.hyps(2) show ?case
  proof (cases rule: hub_step.cases)
    case (st_recv i room since b c pos)
    then have "stream_ok (hub_capacity h) (hs_log s c) pos (receive_next (hs_log s c) (hs_stream s i))"
      using inv [of i] by (simp add: stream_ok_next)
    then show ?thesis using st_recv inv by (simp add: stream_inv_def)
  next
    case (st_lag i room since b c pos k)
    then have "stream_ok (hub_capacity h) (hs_log s c) pos (receive_lag (hs_log s c) k (hs_stream s i))"
      using inv [of i] by (simp add: stream_ok_lag)
    then show ?thesis using st_lag inv by (simp add: stream_inv_def)
  qed (use inv in \<open>auto simp: stream_inv_def stream_ok_start stream_ok_snoc split: if_splits\<close>)
qed

section \<open>Properties\<close>

text \<open>
  C18: Rooms are neither leaked nor lost. In every reachable state the entry of a room counts exactly
  the clients that have joined and not left; a room somebody has joined is tracked, on the channel
  that client listens on; a tracked room without a member is being left, its collection still to
  come; and when no client is between the two sections of leaving, the tracked rooms are exactly
  those with a member. The number of rooms is not bounded here: the check against the ceiling and the
  registration are two sections, and subscriptions that race can pass the check together.
\<close>

theorem rooms_follow_members:
  assumes "hub_reach h s"
  shows "(\<forall>r e. dm_get (hs_rooms s) r = Some e \<longrightarrow> re_subscribers e = card (holders s r))
    \<and> (\<forall>i r. holds r (hs_client s i) \<longrightarrow>
         (\<exists>e. dm_get (hs_rooms s) r = Some e \<and> map_option fst (listens (hs_client s i)) = Some (re_sender e)))
    \<and> (\<forall>r. dm_get (hs_rooms s) r \<noteq> None \<longrightarrow> holders s r = {} \<longrightarrow> (\<exists>i. hs_client s i = Leaving r))
    \<and> ((\<forall>i r. hs_client s i \<noteq> Leaving r) \<longrightarrow> {r. dm_get (hs_rooms s) r \<noteq> None} = {r. holders s r \<noteq> {}})"
proof (intro conjI allI impI)
  note inv = guard_inv_reach [OF assms]
  show "re_subscribers e = card (holders s r)" if "dm_get (hs_rooms s) r = Some e" for r e
    by (rule guard_invD(2) [OF inv that])
  show "\<exists>e. dm_get (hs_rooms s) r = Some e \<and> map_option fst (listens (hs_client s i)) = Some (re_sender e)"
    if "holds r (hs_client s i)" for i r by (rule guard_invD(5) [OF inv that])
  show "\<exists>i. hs_client s i = Leaving r" if "dm_get (hs_rooms s) r \<noteq> None" "holders s r = {}" for r
    using that guard_invD(2,4) [OF inv, of r] by fastforce
  show "{r. dm_get (hs_rooms s) r \<noteq> None} = {r. holders s r \<noteq> {}}" if q: "\<forall>i r. hs_client s i \<noteq> Leaving r"
  proof -
    have "holders s r \<noteq> {}" if "dm_get (hs_rooms s) r = Some e" for r e
      using guard_invD(2,4) [OF inv that] q by fastforce
    moreover have "dm_get (hs_rooms s) r \<noteq> None" if "holders s r \<noteq> {}" for r
      using that guard_invD(5) [OF inv] by (fastforce simp: holders_def)
    ultimately show ?thesis by auto
  qed
qed

text \<open>
  C26: A room retains a window of its latest messages: their versions are consecutive and end just
  below the next version to hand out, they are at most as many and hold at most as many bytes as
  the limits say, the running byte count is exact, and all of them belong to the room.
\<close>

theorem backlog_is_window:
  assumes "hub_reach h s" and "dm_get (hs_rooms s) room = Some e"
  shows "map rm_version (re_backlog e) = [re_next_version e - length (re_backlog e)..<re_next_version e]
    \<and> length (re_backlog e) < re_next_version e
    \<and> length (re_backlog e) \<le> hub_backlog h \<and> payload_bytes (re_backlog e) \<le> hub_max_backlog_bytes h
    \<and> re_backlog_bytes e = payload_bytes (re_backlog e) \<and> list_all (\<lambda>m. rm_room m = room) (re_backlog e)"
proof -
  let ?S = "hs_stamped s (re_sender e)"
  have ok: "entry_ok h room ?S e" and num: "numbered_from_one ?S"
    using history_invD(1,3) [OF history_inv_reach [OF assms(1)]] assms(2) by auto
  obtain P where P: "?S = P @ re_backlog e" using ok by (auto simp: entry_ok_def suffix_def)
  have n: "re_next_version e = Suc (length P + length (re_backlog e))" using ok arg_cong [OF P, of length] by (simp add: entry_ok_def)
  have "map rm_version (re_backlog e) ! i = [re_next_version e - length (re_backlog e)..<re_next_version e] ! i"
    if "i < length (re_backlog e)" for i
    using numbered_nth [OF num, of "length P + i"] that n unfolding P by (simp add: nth_append del: upt_Suc)
  then have "map rm_version (re_backlog e) = [re_next_version e - length (re_backlog e)..<re_next_version e]"
    by (intro nth_equalityI) (simp_all add: n del: upt_Suc)
  then show ?thesis using ok n P by (auto simp: entry_ok_def list_all_iff)
qed

text \<open>
  C5: Within one life of a room, resuming after version \<open>n\<close> loses nothing unnoticed. Whatever
  publications and other clients do in between, a client that was told its backlog was replayed got
  the versions from \<open>n + 1\<close> on without a gap, and every message stamped with a later version since
  the room was last created was in the replay, or was handed out by the client's stream, or waits in
  its channel, or is about to be sent into it, or was skipped because the receiver fell behind. The
  receiver reports how many it skipped, and skips none as long as no more messages than the
  capacity have been sent since the client joined. The promise speaks of the numbering of the
  room's present life; what a version of an earlier life leads to is
  \<open>stale_resume_told_up_to_date\<close>.
\<close>

theorem resume_loses_nothing:
  assumes "hub_reach h s" and "hs_client s i = Live room (Some n) (Replayed ms) c pos"
  shows "map rm_version ms = [n + 1..<n + 1 + length ms]
    \<and> (\<exists>e. dm_get (hs_rooms s) room = Some e \<and> re_sender e = c)
    \<and> list_all (\<lambda>m. n < rm_version m \<longrightarrow> m \<in> set ms
          \<or> m \<in> set (room_stream_items (rc_answers (hs_stream s i)))
          \<or> m \<in> set (drop (rc_cursor (hs_stream s i)) (hs_log s c)) \<or> (c, m) \<in> set (hs_flight s)
          \<or> m \<in> set (rc_skipped (hs_stream s i)))
        (hs_stamped s c)
    \<and> length (rc_skipped (hs_stream s i)) = reported_skips (rc_answers (hs_stream s i))
    \<and> (rc_skipped (hs_stream s i) \<noteq> [] \<longrightarrow> hub_capacity h < length (drop pos (hs_log s c)))"
proof -
  let ?r = "hs_stream s i"
  have res: "resumed s n ms c pos" using listen_invD(2) [OF listen_inv_reach [OF assms(1)] assms(2)] .
  have ent: "\<exists>e. dm_get (hs_rooms s) room = Some e \<and> re_sender e = c"
    using guard_invD(5) [OF guard_inv_reach [OF assms(1)], of room i] assms(2) by auto
  have str: "stream_ok (hub_capacity h) (hs_log s c) pos ?r"
    using stream_inv_reach [OF assms(1)] assms(2) by (simp add: stream_inv_def)
  have "drop pos (hs_log s c) = take (rc_cursor ?r - pos) (drop pos (hs_log s c)) @ drop (rc_cursor ?r) (hs_log s c)"
    using str append_take_drop_id [of "rc_cursor ?r - pos" "drop pos (hs_log s c)"] by (simp add: stream_ok_def)
  moreover have "set (take (rc_cursor ?r - pos) (drop pos (hs_log s c))) = set (room_stream_items (rc_answers ?r)) \<union> set (rc_skipped ?r)"
    using str by (metis set_mset_mset set_mset_union stream_ok_def)
  ultimately have "set (drop pos (hs_log s c))
      = set (room_stream_items (rc_answers ?r)) \<union> set (rc_skipped ?r) \<union> set (drop (rc_cursor ?r) (hs_log s c))"
    by (metis set_append)
  then show ?thesis using res ent str by (auto simp: resumed_def list_all_iff stream_ok_def)
qed

section \<open>Runs\<close>

text \<open>A schedule as a list of actions, and the state it leads to.\<close>

datatype action =
    Do_check nat RoomId "nat option"
  | Do_admit nat
  | Do_join nat
  | Do_read nat
  | Do_leave nat
  | Do_collect nat
  | Do_stamp RealtimeMessage
  | Do_send nat
  | Do_recv nat
  | Do_lag nat nat

fun hub_exec :: "InMemoryHub \<Rightarrow> action \<Rightarrow> HubState \<Rightarrow> HubState option" where
  "hub_exec h (Do_check i room since) s = (case hs_client s i of
     Idle \<Rightarrow> Some (s\<lparr>hs_client := (hs_client s)(i := Checked room since (dm_get (hs_rooms s) room \<noteq> None))\<rparr>) | _ \<Rightarrow> None)"
| "hub_exec h (Do_admit i) s = (case hs_client s i of
     Checked room since existed \<Rightarrow> if over_capacity h room (hs_rooms s) then None
       else Some (s\<lparr>hs_client := (hs_client s)(i := Admitted room since existed)\<rparr>) | _ \<Rightarrow> None)"
| "hub_exec h (Do_join i) s = (case hs_client s i of
     Admitted room since existed \<Rightarrow> (case enter_room (hs_fresh s) room (hs_rooms s) of (c, rooms') \<Rightarrow>
       Some (s\<lparr>hs_rooms := rooms', hs_fresh := hs_fresh s + 1,
         hs_client := (hs_client s)(i := Joined room since existed c (length (hs_log s c))),
         hs_stream := (hs_stream s)(i := receiver_from (length (hs_log s c)))\<rparr>)) | _ \<Rightarrow> None)"
| "hub_exec h (Do_read i) s = (case hs_client s i of
     Joined room since existed c pos \<Rightarrow>
       Some (s\<lparr>hs_client := (hs_client s)(i := Live room since (recover h room since existed (hs_rooms s)) c pos)\<rparr>) | _ \<Rightarrow> None)"
| "hub_exec h (Do_leave i) s = (case hs_client s i of
     Live room since b c pos \<Rightarrow> (case guard_release room (hs_rooms s) of (collected, rooms') \<Rightarrow>
       Some (s\<lparr>hs_rooms := rooms', hs_client := (hs_client s)(i := if collected then Leaving room else Idle)\<rparr>)) | _ \<Rightarrow> None)"
| "hub_exec h (Do_collect i) s = (case hs_client s i of
     Leaving room \<Rightarrow> Some (s\<lparr>hs_rooms := guard_collect room (hs_rooms s), hs_client := (hs_client s)(i := Idle)\<rparr>) | _ \<Rightarrow> None)"
| "hub_exec h (Do_stamp msg) s = (case stamp_and_retain h msg (hs_rooms s) of
     (Some (m, c), rooms') \<Rightarrow> Some (s\<lparr>hs_rooms := rooms', hs_flight := hs_flight s @ [(c, m)],
       hs_stamped := (hs_stamped s)(c := hs_stamped s c @ [m])\<rparr>) | _ \<Rightarrow> None)"
| "hub_exec h (Do_send k) s = (if k < length (hs_flight s) then
     (case hs_flight s ! k of (c, m) \<Rightarrow> Some (s\<lparr>hs_flight := take k (hs_flight s) @ drop (Suc k) (hs_flight s),
       hs_log := (hs_log s)(c := hs_log s c @ [m])\<rparr>)) else None)"
| "hub_exec h (Do_recv i) s = (case hs_client s i of
     Live room since b c pos \<Rightarrow> if rc_cursor (hs_stream s i) < length (hs_log s c)
       then Some (s\<lparr>hs_stream := (hs_stream s)(i := receive_next (hs_log s c) (hs_stream s i))\<rparr>) else None | _ \<Rightarrow> None)"
| "hub_exec h (Do_lag i k) s = (case hs_client s i of
     Live room since b c pos \<Rightarrow> if 0 < k \<and> rc_cursor (hs_stream s i) + k + hub_capacity h \<le> length (hs_log s c)
       then Some (s\<lparr>hs_stream := (hs_stream s)(i := receive_lag (hs_log s c) k (hs_stream s i))\<rparr>) else None | _ \<Rightarrow> None)"

fun hub_run :: "InMemoryHub \<Rightarrow> action list \<Rightarrow> HubState \<Rightarrow> HubState option" where
  "hub_run h [] s = Some s"
| "hub_run h (a # as) s = (case hub_exec h a s of Some s' \<Rightarrow> hub_run h as s' | None \<Rightarrow> None)"

lemma hub_exec_step:
  assumes "hub_exec h a s = Some s'"
  shows "hub_step h s s'"
proof (cases a)
  case (Do_check i room since)
  then show ?thesis using assms st_check [of s i h room since] by (auto split: phase.splits)
next
  case (Do_join i)
  then show ?thesis using assms st_join [of s i _ _ _ _ _ h] by (auto split: phase.splits prod.splits)
next
  case (Do_leave i)
  then show ?thesis using assms st_leave [of _ s i _ _ h] by (fastforce split: phase.splits prod.splits)
next
  case (Do_send k)
  have "hs_flight s = take k (hs_flight s) @ hs_flight s ! k # drop (Suc k) (hs_flight s)" if "k < length (hs_flight s)"
    using that by (rule id_take_nth_drop)
  then show ?thesis using assms Do_send by (auto split: if_splits prod.splits intro!: st_send)
qed (use assms in \<open>auto split: phase.splits prod.splits option.splits if_splits intro: hub_step.intros\<close>)

lemma hub_run_reach: "hub_reach h s \<Longrightarrow> hub_run h as s = Some s' \<Longrightarrow> hub_reach h s'"
  by (induction as arbitrary: s) (auto split: option.splits dest: hub_exec_step intro: reach_step)

definition ends_in :: "InMemoryHub \<Rightarrow> action list \<Rightarrow> (HubState \<Rightarrow> bool) \<Rightarrow> bool" where
  "ends_in h as P \<longleftrightarrow> (case hub_run h as hub_start of Some s \<Rightarrow> P s | None \<Rightarrow> False)"

lemma ends_inE: "ends_in h as P \<Longrightarrow> (\<And>s. hub_reach h s \<Longrightarrow> P s \<Longrightarrow> Q) \<Longrightarrow> Q"
  using hub_run_reach [OF reach_start] by (fastforce simp: ends_in_def split: option.splits)

definition small_hub :: InMemoryHub where
  "small_hub = \<lparr>hub_capacity = 4, hub_max_rooms = 2, hub_backlog = 4, hub_max_backlog_bytes = 10\<rparr>"

abbreviation note_of :: "nat \<Rightarrow> RealtimeMessage" where
  "note_of n \<equiv> RealtimeMessage_new ''g'' ''move'' [n]"

definition enter_as :: "nat \<Rightarrow> nat option \<Rightarrow> action list" where
  "enter_as i since = [Do_check i ''g'' since, Do_admit i, Do_join i, Do_read i]"

text \<open>Client 0 watches two publications, the second still on its way when client 1 resumes after the first.\<close>

definition resume_schedule :: "action list" where
  "resume_schedule = enter_as 0 None @ [Do_stamp (note_of 1), Do_send 0, Do_stamp (note_of 2)] @ enter_as 1 (Some 1) @ [Do_stamp (note_of 3), Do_send 1]"

lemmas run_defs = Let_def ends_in_def enter_as_def hub_start_def small_hub_def over_capacity_def enter_room_def recover_def
  stamp_and_retain_def retain_def guard_release_def guard_collect_def u64_succ_def RealtimeMessage_new_def
  dm_get_def dm_insert_def dm_remove_def

lemma resume_run:
  "ends_in small_hub resume_schedule (\<lambda>s. hs_client s 1 = Live ''g'' (Some 1) (Replayed [(note_of 2)\<lparr>rm_version := 2\<rparr>]) 0 1
     \<and> map rm_version (hs_log s 0) = [1, 3] \<and> map rm_version (hs_stamped s 0) = [1, 2, 3]
     \<and> map_option re_subscribers (dm_get (hs_rooms s) ''g'') = Some 2)"
  by (simp add: run_defs resume_schedule_def)

text \<open>
  The same client after five more publications, of which its receiver, five behind on a channel of
  four, skips the first and hands out the second.
\<close>

definition lagging_schedule :: "action list" where
  "lagging_schedule = resume_schedule @ concat (map (\<lambda>k. [Do_stamp (note_of k), Do_send 1]) [4, 5, 6, 7]) @ [Do_lag 1 1, Do_recv 1]"

lemma lagging_run:
  "ends_in small_hub lagging_schedule (\<lambda>s. hs_client s 1 = Live ''g'' (Some 1) (Replayed [(note_of 2)\<lparr>rm_version := 2\<rparr>]) 0 1
     \<and> hs_stream s 1 = \<lparr>rc_cursor = 3, rc_answers = [Lagged 1, Received ((note_of 4)\<lparr>rm_version := 4\<rparr>)],
          rc_skipped = [(note_of 3)\<lparr>rm_version := 3\<rparr>]\<rparr>)"
  by (simp add: run_defs resume_schedule_def lagging_schedule_def receiver_from_def receive_next_def receive_lag_def)

theorem resume_loses_nothing_witness:
  "\<exists>s. hub_reach small_hub s \<and> hs_client s 1 = Live ''g'' (Some 1) (Replayed [(note_of 2)\<lparr>rm_version := 2\<rparr>]) 0 1
     \<and> list_all (\<lambda>m. rm_version m \<le> 1 \<or> m = (note_of 2)\<lparr>rm_version := 2\<rparr> \<or> m = (note_of 4)\<lparr>rm_version := 4\<rparr>
          \<or> m \<in> set (drop 3 (hs_log s 0)) \<or> (0, m) \<in> set (hs_flight s) \<or> m = (note_of 3)\<lparr>rm_version := 3\<rparr>)
          (hs_stamped s 0)
     \<and> 4 < length (drop 1 (hs_log s 0))"
proof (rule ends_inE [OF lagging_run], elim conjE)
  fix s assume r: "hub_reach small_hub s" and l: "hs_client s 1 = Live ''g'' (Some 1) (Replayed [(note_of 2)\<lparr>rm_version := 2\<rparr>]) 0 1"
    and st: "hs_stream s 1 = \<lparr>rc_cursor = 3, rc_answers = [Lagged 1, Received ((note_of 4)\<lparr>rm_version := 4\<rparr>)],
          rc_skipped = [(note_of 3)\<lparr>rm_version := 3\<rparr>]\<rparr>"
  note p = resume_loses_nothing [OF r l, unfolded st]
  have "list_all (\<lambda>m. rm_version m \<le> 1 \<or> m = (note_of 2)\<lparr>rm_version := 2\<rparr> \<or> m = (note_of 4)\<lparr>rm_version := 4\<rparr>
          \<or> m \<in> set (drop 3 (hs_log s 0)) \<or> (0, m) \<in> set (hs_flight s) \<or> m = (note_of 3)\<lparr>rm_version := 3\<rparr>) (hs_stamped s 0)"
    using p by (auto simp: list_all_iff imp_conv_disj not_less room_stream_items_received map_filter_def received_def)
  moreover have "4 < length (drop 1 (hs_log s 0))" using p by (simp add: small_hub_def)
  ultimately show ?thesis using r l by blast
qed

theorem rooms_follow_members_witness:
  "\<exists>s. hub_reach small_hub s \<and> card (holders s ''g'') = 2"
proof (rule ends_inE [OF resume_run], elim conjE)
  fix s assume r: "hub_reach small_hub s" and "map_option re_subscribers (dm_get (hs_rooms s) ''g'') = Some 2"
  then obtain e where "dm_get (hs_rooms s) ''g'' = Some e" "re_subscribers e = 2" by auto
  then show ?thesis using rooms_follow_members [OF r] r by metis
qed

theorem backlog_is_window_witness:
  "\<exists>s. hub_reach small_hub s \<and> map_option (map rm_version \<circ> re_backlog) (dm_get (hs_rooms s) ''g'') = Some [2, 3, 4, 5]"
proof -
  have "ends_in small_hub (enter_as 0 None @ map (Do_stamp \<circ> note_of) [1, 2, 3, 4, 5])
      (\<lambda>s. map_option (\<lambda>e. (length (re_backlog e), re_next_version e)) (dm_get (hs_rooms s) ''g'') = Some (4, 6))"
    by (simp add: run_defs)
  then show ?thesis
  proof (rule ends_inE)
    fix s assume r: "hub_reach small_hub s"
      and "map_option (\<lambda>e. (length (re_backlog e), re_next_version e)) (dm_get (hs_rooms s) ''g'') = Some (4, 6)"
    then obtain e where e: "dm_get (hs_rooms s) ''g'' = Some e" "length (re_backlog e) = 4" "re_next_version e = 6" by auto
    have "map rm_version (re_backlog e) = [2, 3, 4, 5]" using backlog_is_window [OF r e(1)] e(2,3) by (simp add: upt_rec)
    then show ?thesis using r e(1) by (intro exI [of _ s]) simp
  qed
qed

text \<open>
  A version from an earlier life of a room is taken for one of its present life. When the last
  member leaves, the room is collected, and the next one to join starts its numbering again; a
  client that then resumes after a version the new life has not yet passed is told that nothing was
  missed, although it has seen none of the messages published since.
\<close>

theorem stale_resume_told_up_to_date:
  assumes "hub_reach h s" and "dm_get (hs_rooms s) room = Some e" and "re_backlog e \<noteq> []"
    and "re_next_version e \<le> n + 1" and "n + 1 < 2 ^ 64"
  shows "recover h room (Some n) True (hs_rooms s) = Replayed [] \<and> hs_stamped s (re_sender e) \<noteq> []"
proof -
  let ?S = "hs_stamped s (re_sender e)"
  have ok: "entry_ok h room ?S e" and num: "numbered_from_one ?S"
    using history_invD(1,3) [OF history_inv_reach [OF assms(1)]] assms(2) by auto
  have le: "rm_version m \<le> n" if m: "m \<in> set ?S" for m
  proof -
    obtain j where "j < length ?S" "m = ?S ! j" using m by (metis in_set_conv_nth)
    then show ?thesis using numbered_nth [OF num, of j] assms(4) ok by (simp add: entry_ok_def)
  qed
  have bl: "set (re_backlog e) \<subseteq> set ?S" using ok by (auto simp: entry_ok_def suffix_def)
  obtain b bs where b: "re_backlog e = b # bs" using assms(3) by (cases "re_backlog e") auto
  have "\<not> u64_succ n < rm_version b" using le [of b] bl b assms(5) by (auto simp: u64_succ_def)
  moreover have "filter (\<lambda>m. n < rm_version m) (re_backlog e) = []" using le bl by (fastforce simp: filter_empty_conv)
  moreover have "hub_backlog h \<noteq> 0" using ok b by (auto simp: entry_ok_def)
  ultimately show ?thesis using assms(2) b bl by (auto simp: recover_def)
qed

theorem stale_resume_told_up_to_date_witness:
  "\<exists>s. hub_reach small_hub s \<and> hs_client s 0 = Live ''g'' (Some 2) (Replayed []) 1 1
     \<and> map rm_payload (hs_log s 1) = [[9]] \<and> recover small_hub ''g'' (Some 2) True (hs_rooms s) = Replayed []"
proof -
  have "ends_in small_hub (enter_as 0 None @ [Do_stamp (note_of 1), Do_send 0, Do_stamp (note_of 2), Do_send 0, Do_leave 0, Do_collect 0]
        @ enter_as 1 None @ [Do_stamp (note_of 9), Do_send 0] @ enter_as 0 (Some 2))
      (\<lambda>s. hs_client s 0 = Live ''g'' (Some 2) (Replayed []) 1 1 \<and> map rm_payload (hs_log s 1) = [[9]]
        \<and> map_option (\<lambda>e. (re_backlog e \<noteq> [], re_next_version e)) (dm_get (hs_rooms s) ''g'') = Some (True, 2))"
    by (simp add: run_defs)
  then show ?thesis
  proof (rule ends_inE, elim conjE)
    fix s assume r: "hub_reach small_hub s" and l: "hs_client s 0 = Live ''g'' (Some 2) (Replayed []) 1 1" "map rm_payload (hs_log s 1) = [[9]]"
      and "map_option (\<lambda>e. (re_backlog e \<noteq> [], re_next_version e)) (dm_get (hs_rooms s) ''g'') = Some (True, 2)"
    then obtain e where "dm_get (hs_rooms s) ''g'' = Some e" "re_backlog e \<noteq> []" "re_next_version e \<le> 2 + 1" by auto
    from stale_resume_told_up_to_date [OF r this] r l show ?thesis by auto
  qed
qed

text \<open>
  Versions are handed out under the lock of the room, but messages are sent after it is released:
  two concurrent publications can reach every subscriber in the opposite order of their versions.
\<close>

theorem live_order_can_invert:
  "\<exists>s. hub_reach small_hub s \<and> hs_client s 0 = Live ''g'' None Unavailable 0 0 \<and> map rm_version (hs_log s 0) = [2, 1]"
proof -
  have "ends_in small_hub (enter_as 0 None @ [Do_stamp (note_of 1), Do_stamp (note_of 2), Do_send 1, Do_send 0])
      (\<lambda>s. hs_client s 0 = Live ''g'' None Unavailable 0 0 \<and> map rm_version (hs_log s 0) = [2, 1])"
    by (simp add: run_defs)
  then show ?thesis by (rule ends_inE) (rule exI, rule conjI)
qed

text \<open>The documented characters of a room identifier, written out.\<close>

definition room_id_alphabet :: string where
  "room_id_alphabet = ''abcdefghijklmnopqrstuvwxyzABCDEFGHIJKLMNOPQRSTUVWXYZ0123456789:-_./''"

lemma alphabet_codes:
  "map of_char room_id_alphabet = [97..<123] @ [65..<91] @ [48..<58] @ [58, 45, 95, 46, 47 :: nat]"
  by (simp add: room_id_alphabet_def upt_rec)

lemma allowed_characters: "c \<in> set room_id_alphabet \<longleftrightarrow> is_allowed c"
proof -
  have inj: "c = d \<longleftrightarrow> (of_char c :: nat) = of_char d" for d :: char by simp
  have "c \<in> set room_id_alphabet \<longleftrightarrow> (of_char c :: nat) \<in> set (map of_char room_id_alphabet)" by auto
  also have "\<dots> \<longleftrightarrow> is_allowed c"
    unfolding alphabet_codes is_allowed_def is_ascii_alphanumeric_def Let_def insert_iff empty_iff inj
      set_append set_upt Un_iff atLeastLessThan_iff list.set by auto
  finally show ?thesis .
qed

lemma find_first: "find P s = Some c \<longleftrightarrow> (\<exists>xs ys. s = xs @ c # ys \<and> (\<forall>x \<in> set xs. \<not> P x) \<and> P c)"
proof
  assume f: "find P s = Some c"
  then obtain b ys where "dropWhile (\<lambda>x. \<not> P x) s = b # ys" "c = b"
    by (cases "dropWhile (\<lambda>x. \<not> P x) s") (auto simp: find_dropWhile comp_def)
  moreover have "P b" using \<open>dropWhile (\<lambda>x. \<not> P x) s = b # ys\<close> by (simp add: dropWhile_eq_Cons_conv)
  ultimately show "\<exists>xs ys. s = xs @ c # ys \<and> (\<forall>x \<in> set xs. \<not> P x) \<and> P c"
    using takeWhile_dropWhile_id [of "\<lambda>x. \<not> P x" s] set_takeWhileD [of _ "\<lambda>x. \<not> P x" s] by metis
next
  assume "\<exists>xs ys. s = xs @ c # ys \<and> (\<forall>x \<in> set xs. \<not> P x) \<and> P c"
  then show "find P s = Some c" by (auto simp: find_dropWhile)
qed

lemma is_allowed_range: "is_allowed c \<Longrightarrow> 45 \<le> (of_char c :: nat) \<and> (of_char c :: nat) \<le> 122"
  by (auto simp: is_allowed_def is_ascii_alphanumeric_def Let_def)

text \<open>
  C39: A room identifier is accepted exactly if it is not empty, has at most 128 bytes and each of its
  characters is one of the ASCII letters and digits or of \<open>: - _ . /\<close>, which the statement lists; an
  accepted identifier is kept as it is. An empty one, one of more than 128 bytes, and one with any
  other character, of which the first is named, are refused for that reason. Characters are modelled
  up to U+00FF.
\<close>

theorem room_id_shape:
  "(RoomId_parse s = Ok r) = (r = s \<and> s \<noteq> [] \<and> length s \<le> 128 \<and> set s \<subseteq> set room_id_alphabet)
   \<and> (RoomId_parse s = Err EmptyRoomId) = (s = [])
   \<and> (RoomId_parse s = Err (TooLong n)) = (128 < utf8_len s \<and> n = utf8_len s)
   \<and> (RoomId_parse s = Err (DisallowedCharacter c)) = (utf8_len s \<le> 128
        \<and> (\<exists>xs ys. s = xs @ c # ys \<and> set xs \<subseteq> set room_id_alphabet \<and> c \<notin> set room_id_alphabet))"
proof -
  have f: "find (\<lambda>c. \<not> is_allowed c) s = None \<longleftrightarrow> set s \<subseteq> set room_id_alphabet"
    by (auto simp: find_None_iff allowed_characters)
  have l: "utf8_len s = length s" if "set s \<subseteq> set room_id_alphabet"
    by (rule utf8_len_ascii) (use that is_allowed_range in \<open>fastforce simp: list_all_iff allowed_characters\<close>)
  have d: "(\<exists>xs ys. s = xs @ c # ys \<and> set xs \<subseteq> set room_id_alphabet \<and> c \<notin> set room_id_alphabet)
      \<longleftrightarrow> find (\<lambda>c. \<not> is_allowed c) s = Some c"
    unfolding find_first by (simp add: subset_eq allowed_characters)
  have e: "utf8_len [] = 0" by (simp add: utf8_len_def)
  show ?thesis unfolding d
    using l f e by (auto simp: RoomId_parse_def MAX_ROOM_ID_LEN_def split: option.splits)
qed

section \<open>A hub without a backlog\<close>

text \<open>The provided \<open>subscribe_since\<close> of a hub without a backlog.\<close>

definition default_subscribe_since :: "('r \<Rightarrow> ('w, 'e, 's) op) \<Rightarrow> 'r \<Rightarrow> nat option \<Rightarrow> ('w, 'e, Backlog \<times> 's) op" where
  "default_subscribe_since subscribe room since w = (case subscribe room w of
       (Err e, w') \<Rightarrow> (Err e, w')
     | (Ok strm, w') \<Rightarrow> (Ok (Unavailable, strm), w'))"

end
