(* ===== verification/Socket.thy ===== *)
theory Socket
  imports Hub
begin

text \<open>
  \<open>crates/pharos-realtime/src/auth.rs\<close> and \<open>ws.rs\<close>: the WebSocket connection between a client and a
  room. The sockets, the timers and the four interfaces of the embedding application (hub,
  authenticator, authorizer, message handler) are the operations of a dictionary; the branches of the
  \<open>select!\<close> loop are a datatype, and a run of the connection is driven by an arbitrary list of them.
\<close>

section \<open>Identities, access and errors\<close>

type_synonym Identity = string

datatype Access = Subscribe | Publish

fun Access_as_str :: "Access \<Rightarrow> string" where
  "Access_as_str Subscribe = ''subscribe''"
| "Access_as_str Publish = ''publish''"

definition forbidden :: "Identity \<Rightarrow> RoomId \<Rightarrow> RealtimeError" where
  "forbidden identity room = Forbidden identity room"

text \<open>
  The status of a refusal and its body, the canonical reason phrase of the status, which the \<open>http\<close> crate
  provides and which is a parameter here.
\<close>

fun RealtimeError_status :: "RealtimeError \<Rightarrow> nat" where
  "RealtimeError_status (Unauthorized _) = 401"
| "RealtimeError_status (Forbidden _ _) = 403"
| "RealtimeError_status (InvalidRoom _) = 400"
| "RealtimeError_status (Capacity _) = 503"
| "RealtimeError_status (PublishFailed _) = 500"
| "RealtimeError_status (SubscribeFailed _) = 500"
| "RealtimeError_status (TransportFailed _) = 500"

definition RealtimeError_into_response :: "(nat \<Rightarrow> string option) \<Rightarrow> RealtimeError \<Rightarrow> nat \<times> string" where
  "RealtimeError_into_response canonical_reason e =
     (let status = RealtimeError_status e
      in (status, case canonical_reason status of Some reason \<Rightarrow> reason | None \<Rightarrow> ''realtime error''))"

section \<open>Configuration and rate limit\<close>

record RealtimeConfig =
  max_message_size :: nat
  max_frame_size :: nat
  revalidate_every :: duration
  heartbeat_every :: duration
  heartbeat_timeout :: duration
  io_timeout :: duration
  max_inbound_frames_per_second :: nat

definition RealtimeConfig_default :: RealtimeConfig where
  "RealtimeConfig_default =
     \<lparr>max_message_size = 64 * 1024, max_frame_size = 64 * 1024, revalidate_every = 60 * 10 ^ 9,
      heartbeat_every = 20 * 10 ^ 9, heartbeat_timeout = 60 * 10 ^ 9, io_timeout = 30 * 10 ^ 9,
      max_inbound_frames_per_second = 50\<rparr>"

text \<open>The token bucket; its \<open>f64\<close> fields are computed in the reals.\<close>

record InboundRateLimiter =
  lim_capacity :: real
  lim_tokens :: real
  lim_refill_per_sec :: real
  lim_last_refill :: instant

definition InboundRateLimiter_new :: "nat \<Rightarrow> instant \<Rightarrow> InboundRateLimiter" where
  "InboundRateLimiter_new rate_per_sec now =
     (let capacity = real (max rate_per_sec 1)
      in \<lparr>lim_capacity = capacity, lim_tokens = capacity, lim_refill_per_sec = capacity, lim_last_refill = now\<rparr>)"

definition saturating_duration_since :: "instant \<Rightarrow> instant \<Rightarrow> duration" where
  "saturating_duration_since later earlier = max 0 (later - earlier)"

definition try_acquire :: "instant \<Rightarrow> InboundRateLimiter \<Rightarrow> bool \<times> InboundRateLimiter" where
  "try_acquire now l =
     (let elapsed = as_secs (saturating_duration_since now (lim_last_refill l));
          l1 = l\<lparr>lim_tokens := min (lim_tokens l + elapsed * lim_refill_per_sec l) (lim_capacity l), lim_last_refill := now\<rparr>
      in if 1 \<le> lim_tokens l1 then (True, l1\<lparr>lim_tokens := lim_tokens l1 - 1\<rparr>) else (False, l1))"

section \<open>The connection\<close>

record Reply =
  rp_kind :: string
  rp_payload :: bytes

datatype WsMessage = Text bytes | Binary bytes | Ping bytes | Pong bytes | Close

text \<open>
  What the connection uses: the monotonic clock, the hub, the sink under \<open>timeout\<close> (\<open>None\<close> when the time
  is up), the authenticator on the request parts, the authorizer, and the handler under \<open>timeout\<close>.
\<close>

record ('w, 'p) SocketEnv =
  instant_now :: "'w \<Rightarrow> instant \<times> 'w"
  subscribe_room :: "RoomId \<Rightarrow> nat option \<Rightarrow> ('w, RealtimeError, Backlog) op"
  send_frame :: "duration \<Rightarrow> WsMessage \<Rightarrow> 'w \<Rightarrow> (string + unit) option \<times> 'w"
  close_sink :: "duration \<Rightarrow> 'w \<Rightarrow> 'w"
  authenticate :: "'p \<Rightarrow> ('w, RealtimeError, Identity) op"
  authorize :: "Identity \<Rightarrow> RoomId \<Rightarrow> Access \<Rightarrow> ('w, RealtimeError, unit) op"
  on_message :: "duration \<Rightarrow> Identity \<Rightarrow> RoomId \<Rightarrow> bytes \<Rightarrow> 'w \<Rightarrow> (RealtimeError + Reply option) option \<times> 'w"

datatype CloseReason = ClientGone | RoomClosed | RoomRefused | Revoked | Timeout | Unresponsive

fun CloseReason_as_str :: "CloseReason \<Rightarrow> string" where
  "CloseReason_as_str ClientGone = ''client_gone''"
| "CloseReason_as_str RoomClosed = ''room_closed''"
| "CloseReason_as_str RoomRefused = ''subscribe_failed''"
| "CloseReason_as_str Revoked = ''revoked''"
| "CloseReason_as_str Timeout = ''timeout''"
| "CloseReason_as_str Unresponsive = ''unresponsive''"

record 'p Connection =
  cn_config :: RealtimeConfig
  cn_parts :: 'p
  cn_identity :: Identity
  cn_room :: RoomId
  cn_since :: "nat option"

definition upgrade_since ::
    "('w, 'p) SocketEnv \<Rightarrow> RealtimeConfig \<Rightarrow> 'p \<Rightarrow> RoomId \<Rightarrow> nat option \<Rightarrow> ('w, RealtimeError, 'p Connection) op" where
  "upgrade_since S cfg parts room since w = (case authenticate S parts w of
       (Err e, w1) \<Rightarrow> (Err e, w1)
     | (Ok identity, w1) \<Rightarrow> (case authorize S identity room Subscribe w1 of
           (Err e, w2) \<Rightarrow> (Err e, w2)
         | (Ok _, w2) \<Rightarrow> (Ok \<lparr>cn_config = cfg, cn_parts = parts, cn_identity = identity, cn_room = room, cn_since = since\<rparr>, w2)))"

definition upgrade ::
    "('w, 'p) SocketEnv \<Rightarrow> RealtimeConfig \<Rightarrow> 'p \<Rightarrow> RoomId \<Rightarrow> ('w, RealtimeError, 'p Connection) op" where
  "upgrade S cfg parts room = upgrade_since S cfg parts room None"

definition send_bounded :: "('w, 'p) SocketEnv \<Rightarrow> 'p Connection \<Rightarrow> WsMessage \<Rightarrow> ('w, CloseReason, unit) op" where
  "send_bounded S c message w = (case send_frame S (io_timeout (cn_config c)) message w of
       (Some (Ok _), w1) \<Rightarrow> (Ok (), w1)
     | (Some (Err _), w1) \<Rightarrow> (Err ClientGone, w1)
     | (None, w1) \<Rightarrow> (Err Unresponsive, w1))"

definition still_authorized :: "('w, 'p) SocketEnv \<Rightarrow> 'p Connection \<Rightarrow> 'w \<Rightarrow> bool \<times> 'w" where
  "still_authorized S c w = (case authenticate S (cn_parts c) w of
       (Err _, w1) \<Rightarrow> (False, w1)
     | (Ok identity, w1) \<Rightarrow>
         if identity \<noteq> cn_identity c then (False, w1)
         else (case authorize S (cn_identity c) (cn_room c) Subscribe w1 of
             (Err _, w2) \<Rightarrow> (False, w2)
           | (Ok _, w2) \<Rightarrow> (True, w2)))"

text \<open>The loop that replays what the client missed.\<close>

fun send_missed :: "('w, 'p) SocketEnv \<Rightarrow> 'p Connection \<Rightarrow> RealtimeMessage list \<Rightarrow> ('w, CloseReason, unit) op" where
  "send_missed S c [] w = (Ok (), w)"
| "send_missed S c (m # ms) w = (case send_bounded S c (Binary (rm_payload m)) w of
       (Err reason, w1) \<Rightarrow> (Err reason, w1)
     | (Ok _, w1) \<Rightarrow> send_missed S c ms w1)"

fun replay_backlog :: "('w, 'p) SocketEnv \<Rightarrow> 'p Connection \<Rightarrow> Backlog \<Rightarrow> ('w, CloseReason, unit) op" where
  "replay_backlog S c (Replayed missed) w = send_missed S c missed w"
| "replay_backlog S c (Gap _) w = (Ok (), w)"
| "replay_backlog S c Unavailable w = (Ok (), w)"

text \<open>The branch that is ready: what the subscription or the socket yielded, or which timer ticked.\<close>

datatype ready =
    Outbound "RealtimeMessage option"
  | Inbound "(string + WsMessage) option"
  | RevalidateTick
  | HeartbeatTick

record pump_state =
  pm_last_seen :: instant
  pm_limiter :: InboundRateLimiter

text \<open>An inbound data frame once it is known to be one: rate limit, authorization, handler, reply.\<close>

definition handle_frame ::
    "('w, 'p) SocketEnv \<Rightarrow> 'p Connection \<Rightarrow> bytes \<Rightarrow> pump_state \<Rightarrow> 'w \<Rightarrow> (CloseReason option \<times> pump_state) \<times> 'w" where
  "handle_frame S c pl st w =
     (let (now, w1) = instant_now S w;
          (admitted, limiter) = try_acquire now (pm_limiter st);
          st' = st\<lparr>pm_limiter := limiter\<rparr>
      in if \<not> admitted then ((None, st'), w1)
         else (case authorize S (cn_identity c) (cn_room c) Publish w1 of
             (Err _, w2) \<Rightarrow> ((None, st'), w2)
           | (Ok _, w2) \<Rightarrow>
               (case on_message S (io_timeout (cn_config c)) (cn_identity c) (cn_room c) pl w2 of
                  (None, w3) \<Rightarrow> ((Some Unresponsive, st'), w3)
                | (Some (Err _), w3) \<Rightarrow> ((None, st'), w3)
                | (Some (Ok None), w3) \<Rightarrow> ((None, st'), w3)
                | (Some (Ok (Some reply)), w3) \<Rightarrow>
                    (case send_bounded S c (Binary (rp_payload reply)) w3 of
                       (Err reason, w4) \<Rightarrow> ((Some reason, st'), w4)
                     | (Ok _, w4) \<Rightarrow> ((None, st'), w4)))))"

text \<open>One turn of the loop; \<open>Some reason\<close> is a \<open>break\<close>.\<close>

fun pump_step ::
    "('w, 'p) SocketEnv \<Rightarrow> 'p Connection \<Rightarrow> ready \<Rightarrow> pump_state \<Rightarrow> 'w \<Rightarrow> (CloseReason option \<times> pump_state) \<times> 'w" where
  "pump_step S c (Outbound None) st w = ((Some RoomClosed, st), w)"
| "pump_step S c (Outbound (Some message)) st w = (case send_bounded S c (Binary (rm_payload message)) w of
       (Err reason, w1) \<Rightarrow> ((Some reason, st), w1)
     | (Ok _, w1) \<Rightarrow> ((None, st), w1))"
| "pump_step S c (Inbound None) st w = ((Some ClientGone, st), w)"
| "pump_step S c (Inbound (Some frame)) st w =
     (let (now, w1) = instant_now S w; st' = st\<lparr>pm_last_seen := now\<rparr>
      in case frame of
           Ok (Binary pl) \<Rightarrow> handle_frame S c pl st' w1
         | Ok (Text pl) \<Rightarrow> handle_frame S c pl st' w1
         | Ok (Ping _) \<Rightarrow> ((None, st'), w1)
         | Ok (Pong _) \<Rightarrow> ((None, st'), w1)
         | Ok Close \<Rightarrow> ((Some ClientGone, st'), w1)
         | Err _ \<Rightarrow> ((Some ClientGone, st'), w1))"
| "pump_step S c RevalidateTick st w = (case still_authorized S c w of
       (True, w1) \<Rightarrow> ((None, st), w1)
     | (False, w1) \<Rightarrow> ((Some Revoked, st), snd (send_bounded S c Close w1)))"
| "pump_step S c HeartbeatTick st w =
     (let (now, w1) = instant_now S w
      in if heartbeat_timeout (cn_config c) \<le> saturating_duration_since now (pm_last_seen st)
         then ((Some Timeout, st), snd (send_bounded S c Close w1))
         else (case send_bounded S c (Ping []) w1 of
             (Err reason, w2) \<Rightarrow> ((Some reason, st), w2)
           | (Ok _, w2) \<Rightarrow> ((None, st), w2)))"

text \<open>The loop over the branches that become ready; without a \<open>break\<close> the connection is still open.\<close>

fun pump ::
    "('w, 'p) SocketEnv \<Rightarrow> 'p Connection \<Rightarrow> ready list \<Rightarrow> pump_state \<Rightarrow> 'w \<Rightarrow> (CloseReason option \<times> pump_state) \<times> 'w" where
  "pump S c [] st w = ((None, st), w)"
| "pump S c (r # rs) st w = (case pump_step S c r st w of
       ((Some reason, st'), w') \<Rightarrow> ((Some reason, st'), w')
     | ((None, st'), w') \<Rightarrow> pump S c rs st' w')"

definition open_pump :: "('w, 'p) SocketEnv \<Rightarrow> 'p Connection \<Rightarrow> 'w \<Rightarrow> pump_state \<times> 'w" where
  "open_pump S c w =
     (let (seen, w1) = instant_now S w; (now, w2) = instant_now S w1
      in (\<lparr>pm_last_seen = seen, pm_limiter = InboundRateLimiter_new (max_inbound_frames_per_second (cn_config c)) now\<rparr>, w2))"

definition connection_run :: "('w, 'p) SocketEnv \<Rightarrow> 'p Connection \<Rightarrow> ready list \<Rightarrow> 'w \<Rightarrow> CloseReason option \<times> 'w" where
  "connection_run S c rs w = (case subscribe_room S (cn_room c) (cn_since c) w of
       (Err _, w1) \<Rightarrow> (Some RoomRefused, snd (send_bounded S c Close w1))
     | (Ok backlog, w1) \<Rightarrow> (case replay_backlog S c backlog w1 of
           (Err reason, w2) \<Rightarrow> (Some reason, w2)
         | (Ok _, w2) \<Rightarrow>
             (let (st, w3) = open_pump S c w2
              in case pump S c rs st w3 of
                   ((None, _), w4) \<Rightarrow> (None, w4)
                 | ((Some reason, _), w4) \<Rightarrow> (Some reason, close_sink S (io_timeout (cn_config c)) w4))))"

text \<open>A request that is upgraded and then served.\<close>

definition serve ::
    "('w, 'p) SocketEnv \<Rightarrow> RealtimeConfig \<Rightarrow> 'p \<Rightarrow> RoomId \<Rightarrow> nat option \<Rightarrow> ready list \<Rightarrow> ('w, RealtimeError, CloseReason option) op" where
  "serve S cfg parts room since rs w = (case upgrade_since S cfg parts room since w of
       (Err e, w1) \<Rightarrow> (Err e, w1)
     | (Ok c, w1) \<Rightarrow> (let (reason, w2) = connection_run S c rs w1 in (Ok reason, w2)))"

section \<open>An observed world\<close>

text \<open>
  A world that records every call of the connection, newest first, and answers each by an arbitrary
  function of what happened before; its clock is an arbitrary sequence of readings.
\<close>

datatype call =
    CalledSubscribe RoomId "nat option"
  | CalledAuthenticate "RealtimeError + Identity"
  | CalledAuthorize Identity RoomId Access "RealtimeError + unit"
  | CalledOnMessage Identity RoomId bytes
  | CalledSend WsMessage
  | CalledCloseSink

record 'p Answers =
  an_hub :: "RoomId \<Rightarrow> nat option \<Rightarrow> call list \<Rightarrow> RealtimeError + Backlog"
  an_authenticate :: "'p \<Rightarrow> call list \<Rightarrow> RealtimeError + Identity"
  an_authorize :: "Identity \<Rightarrow> RoomId \<Rightarrow> Access \<Rightarrow> call list \<Rightarrow> RealtimeError + unit"
  an_on_message :: "Identity \<Rightarrow> RoomId \<Rightarrow> bytes \<Rightarrow> call list \<Rightarrow> (RealtimeError + Reply option) option"
  an_send :: "WsMessage \<Rightarrow> call list \<Rightarrow> (string + unit) option"
  an_clock :: "nat \<Rightarrow> instant"

record Observed =
  ob_past :: "call list"
  ob_tick :: nat

definition noted :: "call \<Rightarrow> Observed \<Rightarrow> Observed" where
  "noted call w = w\<lparr>ob_past := call # ob_past w\<rparr>"

definition observed_env :: "'p Answers \<Rightarrow> (Observed, 'p) SocketEnv" where
  "observed_env A = \<lparr>
     instant_now = \<lambda>w. (an_clock A (ob_tick w), w\<lparr>ob_tick := ob_tick w + 1\<rparr>),
     subscribe_room = \<lambda>r n w. (an_hub A r n (ob_past w), noted (CalledSubscribe r n) w),
     send_frame = \<lambda>d m w. (an_send A m (ob_past w), noted (CalledSend m) w),
     close_sink = \<lambda>d w. noted CalledCloseSink w,
     authenticate = \<lambda>p w. (let x = an_authenticate A p (ob_past w) in (x, noted (CalledAuthenticate x) w)),
     authorize = \<lambda>i r a w. (let x = an_authorize A i r a (ob_past w) in (x, noted (CalledAuthorize i r a x) w)),
     on_message = \<lambda>d i r pl w. (an_on_message A i r pl (ob_past w), noted (CalledOnMessage i r pl) w)\<rparr>"

lemma noted_simps [simp]: "ob_past (noted x w) = x # ob_past w" "ob_tick (noted x w) = ob_tick w"
  by (simp_all add: noted_def)

lemma observed_simps [simp]:
  "instant_now (observed_env A) w = (an_clock A (ob_tick w), w\<lparr>ob_tick := ob_tick w + 1\<rparr>)"
  "subscribe_room (observed_env A) r n w = (an_hub A r n (ob_past w), noted (CalledSubscribe r n) w)"
  "send_frame (observed_env A) d m w = (an_send A m (ob_past w), noted (CalledSend m) w)"
  "close_sink (observed_env A) d w = noted CalledCloseSink w"
  "authenticate (observed_env A) p w = (an_authenticate A p (ob_past w), noted (CalledAuthenticate (an_authenticate A p (ob_past w))) w)"
  "authorize (observed_env A) i r a w = (an_authorize A i r a (ob_past w), noted (CalledAuthorize i r a (an_authorize A i r a (ob_past w))) w)"
  "on_message (observed_env A) d i r pl w = (an_on_message A i r pl (ob_past w), noted (CalledOnMessage i r pl) w)"
  by (simp_all add: observed_env_def Let_def)

section \<open>Nothing without a valid approval\<close>

text \<open>The last authentication and the last subscribe authorization of a history.\<close>

fun last_authn :: "call list \<Rightarrow> (RealtimeError + Identity) option" where
  "last_authn [] = None"
| "last_authn (CalledAuthenticate x # past) = Some x"
| "last_authn (_ # past) = last_authn past"

fun last_subscribe :: "call list \<Rightarrow> (Identity \<times> RoomId \<times> (RealtimeError + unit)) option" where
  "last_subscribe [] = None"
| "last_subscribe (CalledAuthorize i r Subscribe x # past) = Some (i, r, x)"
| "last_subscribe (_ # past) = last_subscribe past"

definition approved :: "Identity \<Rightarrow> RoomId \<Rightarrow> call list \<Rightarrow> bool" where
  "approved i room past \<longleftrightarrow> last_authn past = Some (Ok i) \<and> last_subscribe past = Some (i, room, Ok ())"

text \<open>
  What a call of a connection of \<open>i\<close> to \<open>room\<close> may be, given the calls before it: the room is joined and a
  payload or a ping is sent only while the approval stands, and the handler gets a frame only directly after
  the authorizer admitted that identity to publish in that room.
\<close>

fun call_ok :: "Identity \<Rightarrow> RoomId \<Rightarrow> call list \<Rightarrow> call \<Rightarrow> bool" where
  "call_ok i room past (CalledSubscribe r n) \<longleftrightarrow> r = room \<and> approved i room past"
| "call_ok i room past (CalledAuthorize j r a x) \<longleftrightarrow> j = i \<and> r = room"
| "call_ok i room past (CalledOnMessage j r pl) \<longleftrightarrow>
     j = i \<and> r = room \<and> approved i room past \<and> take 1 past = [CalledAuthorize i room Publish (Ok ())]"
| "call_ok i room past (CalledSend (Binary pl)) \<longleftrightarrow> approved i room past"
| "call_ok i room past (CalledSend (Ping pl)) \<longleftrightarrow> approved i room past"
| "call_ok i room past (CalledSend (Text pl)) \<longleftrightarrow> False"
| "call_ok i room past (CalledSend (Pong pl)) \<longleftrightarrow> False"
| "call_ok i room past _ \<longleftrightarrow> True"

fun guarded :: "Identity \<Rightarrow> RoomId \<Rightarrow> call list \<Rightarrow> bool" where
  "guarded i room [] \<longleftrightarrow> True"
| "guarded i room (x # past) \<longleftrightarrow> call_ok i room past x \<and> guarded i room past"

lemma approved_Cons [simp]:
  "approved i room (CalledSend m # past) \<longleftrightarrow> approved i room past"
  "approved i room (CalledSubscribe r n # past) \<longleftrightarrow> approved i room past"
  "approved i room (CalledOnMessage j r pl # past) \<longleftrightarrow> approved i room past"
  "approved i room (CalledAuthorize j r Publish x # past) \<longleftrightarrow> approved i room past"
  by (simp_all add: approved_def)

lemma send_bounded_observed:
  assumes "send_bounded (observed_env A) c m w = (x, w')"
  shows "w' = noted (CalledSend m) w"
  using assms by (auto simp: send_bounded_def split: option.splits sum.splits)

text \<open>Before a turn of the loop the approval of the connection stands.\<close>

definition standing :: "'p Connection \<Rightarrow> Observed \<Rightarrow> bool" where
  "standing c w \<longleftrightarrow> approved (cn_identity c) (cn_room c) (ob_past w) \<and> guarded (cn_identity c) (cn_room c) (ob_past w)"

lemma handle_frame_guarded:
  assumes "standing c w" and "handle_frame (observed_env A) c pl st w = ((r, st'), w')"
  shows "standing c w'"
  using assms
  by (auto simp: standing_def handle_frame_def Let_def split: if_splits prod.splits sum.splits option.splits
      dest!: send_bounded_observed)

lemma still_authorized_guarded:
  assumes "standing c w" and "still_authorized (observed_env A) c w = (b, w')"
  shows "guarded (cn_identity c) (cn_room c) (ob_past w')" and "b \<Longrightarrow> standing c w'"
  using assms
  by (auto simp: standing_def still_authorized_def approved_def split: if_splits sum.splits)

lemma standing_tick [simp]: "standing c (w\<lparr>ob_tick := n\<rparr>) = standing c w"
  by (simp add: standing_def)

lemma standing_guarded:
  "standing c w \<Longrightarrow> guarded (cn_identity c) (cn_room c) (ob_past w)"
  "standing c w \<Longrightarrow> approved (cn_identity c) (cn_room c) (ob_past w)"
  by (simp_all add: standing_def)

lemma standing_sent [simp]: "standing c w \<Longrightarrow> standing c (noted (CalledSend (Binary pl)) w)"
    "standing c w \<Longrightarrow> standing c (noted (CalledSend (Ping pl)) w)"
  by (simp_all add: standing_def)

lemma pump_step_guarded:
  assumes "standing c w" and "pump_step (observed_env A) c r st w = ((x, st'), w')"
  shows "guarded (cn_identity c) (cn_room c) (ob_past w') \<and> (x = None \<longrightarrow> standing c w')"
proof (cases r)
  case (Outbound mo)
  then show ?thesis using assms
    by (cases mo) (auto simp: standing_guarded split: prod.splits sum.splits dest!: send_bounded_observed)
next
  case (Inbound fo)
  then show ?thesis using assms
    by (cases fo) (auto simp: Let_def standing_guarded
        split: sum.splits WsMessage.splits dest!: handle_frame_guarded [rotated])
next
  case RevalidateTick
  obtain b w1 where b: "still_authorized (observed_env A) c w = (b, w1)" by fastforce
  obtain y w2 where s: "send_bounded (observed_env A) c Close w1 = (y, w2)" by fastforce
  show ?thesis using assms RevalidateTick b s still_authorized_guarded [OF assms(1) b] send_bounded_observed [OF s]
    by (cases b) (auto simp: standing_guarded)
next
  case HeartbeatTick
  obtain y w2 where s: "send_bounded (observed_env A) c Close (w\<lparr>ob_tick := Suc (ob_tick w)\<rparr>) = (y, w2)" by fastforce
  show ?thesis using assms HeartbeatTick send_bounded_observed [OF s] s
    by (auto simp: Let_def standing_guarded split: if_splits prod.splits sum.splits dest!: send_bounded_observed)
qed

lemma pump_guarded:
  assumes "standing c w" and "pump (observed_env A) c rs st w = ((x, st'), w')"
  shows "guarded (cn_identity c) (cn_room c) (ob_past w')"
  using assms
proof (induction rs arbitrary: st w)
  case Nil
  then show ?case by (simp add: standing_guarded)
next
  case (Cons r rs)
  obtain y st1 w1 where s: "pump_step (observed_env A) c r st w = ((y, st1), w1)" by (metis prod.exhaust)
  show ?case using pump_step_guarded [OF Cons.prems(1) s] Cons.prems(2) Cons.IH [of w1 st1] s
    by (cases y) auto
qed

lemma send_missed_standing:
  assumes "standing c w" and "send_missed (observed_env A) c ms w = (x, w')"
  shows "standing c w'"
  using assms
proof (induction ms arbitrary: w)
  case (Cons m ms)
  obtain y w1 where s: "send_bounded (observed_env A) c (Binary (rm_payload m)) w = (y, w1)" by fastforce
  have "standing c w1" using send_bounded_observed [OF s] Cons.prems(1) by simp
  then show ?case using Cons.IH [of w1] Cons.prems(2) s by (auto split: sum.splits)
qed simp

lemma replay_standing:
  assumes "standing c w" and "replay_backlog (observed_env A) c bl w = (x, w')"
  shows "standing c w'"
  using assms send_missed_standing [of c w A] by (cases bl) auto

lemma connection_run_guarded:
  assumes "standing c w" and "connection_run (observed_env A) c rs w = (x, w')"
  shows "guarded (cn_identity c) (cn_room c) (ob_past w')"
proof -
  let ?w1 = "noted (CalledSubscribe (cn_room c) (cn_since c)) w"
  have w1: "standing c ?w1" using assms(1) by (simp add: standing_def)
  obtain y w2 where s: "send_bounded (observed_env A) c Close ?w1 = (y, w2)" by fastforce
  show ?thesis
  proof (cases "an_hub A (cn_room c) (cn_since c) (ob_past w)")
    case (Inl e)
    then show ?thesis using assms(2) s send_bounded_observed [OF s] w1
      by (auto simp: connection_run_def standing_def)
  next
    case (Inr bl)
    obtain z w3 where r: "replay_backlog (observed_env A) c bl ?w1 = (z, w3)" by fastforce
    note w3 = replay_standing [OF w1 r]
    obtain st w4 where o: "open_pump (observed_env A) c w3 = (st, w4)" by fastforce
    then have w4: "standing c w4" using w3 by (auto simp: open_pump_def Let_def)
    obtain q st' w5 where p: "pump (observed_env A) c rs st w4 = ((q, st'), w5)" by (metis prod.exhaust)
    show ?thesis using assms(2) Inr r o p w3 pump_guarded [OF w4 p]
      by (auto simp: connection_run_def standing_guarded split: sum.splits option.splits)
  qed
qed

text \<open>
  C7: Whatever the client sends, whenever the timers tick and whatever the application answers, a
  served connection acts only on a valid approval. It joins the room, sends a payload or hands a
  frame to the application only while its last authentication gave the identity that opened it
  and the last subscribe authorization of that identity for that room was granted, and it hands a
  frame over only directly after the authorizer admitted this identity to publish in this room.
  In particular nothing but the closing frame follows a failed revalidation.
\<close>

theorem socket_guarded:
  assumes "ob_past w = []" and "serve (observed_env A) cfg parts room since rs w = (x, w')"
  shows "\<exists>i. guarded i room (ob_past w')"
proof -
  let ?i = "an_authenticate A parts []"
  show ?thesis
  proof (cases ?i)
    case (Inl e)
    then show ?thesis using assms by (auto simp: serve_def upgrade_since_def)
  next
    case (Inr i)
    define w1 where "w1 = noted (CalledAuthenticate (Ok i)) w"
    define y where "y = an_authorize A i room Subscribe (ob_past w1)"
    define w2 where "w2 = noted (CalledAuthorize i room Subscribe y) w1"
    have g: "guarded i room (ob_past w2)" using assms(1) by (simp add: w2_def w1_def)
    show ?thesis
    proof (cases y)
      case (Inl e)
      then show ?thesis using assms Inr g by (auto simp: serve_def upgrade_since_def y_def w2_def w1_def)
    next
      case y: (Inr u)
      define c where "c = \<lparr>cn_config = cfg, cn_parts = parts, cn_identity = i, cn_room = room, cn_since = since\<rparr>"
      obtain q w3 where run: "connection_run (observed_env A) c rs w2 = (q, w3)" by fastforce
      have "standing c w2" using g y assms(1) by (simp add: standing_def c_def approved_def w2_def w1_def)
      note connection_run_guarded [OF this run]
      moreover have "w' = w3" using assms Inr y run
        by (auto simp: serve_def upgrade_since_def y_def w2_def w1_def c_def)
      ultimately show ?thesis by (auto simp: c_def)
    qed
  qed
qed

section \<open>The rate limit\<close>

definition limiter_ok :: "InboundRateLimiter \<Rightarrow> bool" where
  "limiter_ok l \<longleftrightarrow> lim_refill_per_sec l = lim_capacity l \<and> 1 \<le> lim_capacity l \<and> 0 \<le> lim_tokens l \<and> lim_tokens l \<le> lim_capacity l"

lemma limiter_ok_new: "limiter_ok (InboundRateLimiter_new n now)"
  by (simp add: limiter_ok_def InboundRateLimiter_new_def Let_def)

lemma as_secs_mono: "0 \<le> d \<Longrightarrow> 0 \<le> as_secs d"
  by (simp add: as_secs_def)

lemma as_secs_add: "as_secs (d + e) = as_secs d + as_secs e"
  by (simp add: as_secs_def add_divide_distrib)

lemma try_acquire_spends:
  assumes "limiter_ok l" "lim_last_refill l \<le> now" "try_acquire now l = (b, l')"
  shows "limiter_ok l'" "lim_capacity l' = lim_capacity l" "lim_last_refill l' = now"
    and "of_bool b + lim_tokens l' \<le> lim_capacity l"
    and "of_bool b + lim_tokens l' \<le> lim_tokens l + lim_capacity l * as_secs (now - lim_last_refill l)"
proof -
  let ?e = "as_secs (now - lim_last_refill l)"
  have "0 \<le> ?e * lim_capacity l" using assms(1,2) as_secs_mono by (simp add: limiter_ok_def)
  then show "limiter_ok l'" "lim_capacity l' = lim_capacity l" "lim_last_refill l' = now"
    "of_bool b + lim_tokens l' \<le> lim_capacity l" "of_bool b + lim_tokens l' \<le> lim_tokens l + lim_capacity l * ?e"
    using assms
    by (auto simp: try_acquire_def limiter_ok_def saturating_duration_since_def Let_def mult.commute
        min_def max_def split: if_splits)
qed

text \<open>The number of publish authorizations asked so far.\<close>

fun publishes_asked :: "call list \<Rightarrow> nat" where
  "publishes_asked [] = 0"
| "publishes_asked (CalledAuthorize i r Publish x # past) = Suc (publishes_asked past)"
| "publishes_asked (_ # past) = publishes_asked past"

text \<open>
  The budget of a limiter between two points of a run: what was asked in between plus the tokens
  left is covered by the tokens at the start and the refill since, and also, unless the limiter was
  not used, by a full bucket and the refill since the start.
\<close>

definition in_budget :: "'p Answers \<Rightarrow> pump_state \<Rightarrow> Observed \<Rightarrow> pump_state \<Rightarrow> Observed \<Rightarrow> bool" where
  "in_budget A st w st' w' \<longleftrightarrow>
     (let l = pm_limiter st; l' = pm_limiter st'
      in limiter_ok l' \<and> lim_capacity l' = lim_capacity l \<and> an_clock A (ob_tick w) \<le> an_clock A (ob_tick w')
       \<and> lim_last_refill l \<le> lim_last_refill l' \<and> lim_last_refill l' \<le> an_clock A (ob_tick w')
       \<and> publishes_asked (ob_past w) \<le> publishes_asked (ob_past w')
       \<and> real (publishes_asked (ob_past w')) + lim_tokens l'
         \<le> real (publishes_asked (ob_past w)) + lim_tokens l + lim_capacity l * as_secs (lim_last_refill l' - lim_last_refill l)
       \<and> (publishes_asked (ob_past w') = publishes_asked (ob_past w) \<and> l' = l
          \<or> real (publishes_asked (ob_past w')) + lim_tokens l'
            \<le> real (publishes_asked (ob_past w)) + lim_capacity l * (1 + as_secs (lim_last_refill l' - an_clock A (ob_tick w)))))"

definition limited :: "'p Answers \<Rightarrow> pump_state \<Rightarrow> Observed \<Rightarrow> bool" where
  "limited A st w \<longleftrightarrow> limiter_ok (pm_limiter st) \<and> lim_last_refill (pm_limiter st) \<le> an_clock A (ob_tick w)"

lemma as_secs_le: "d \<le> e \<Longrightarrow> as_secs d \<le> as_secs e"
  by (simp add: as_secs_def divide_right_mono)

lemma in_budget_trans:
  assumes "in_budget A st w st1 w1" "in_budget A st1 w1 st2 w2"
  shows "in_budget A st w st2 w2"
proof -
  let ?l = "\<lambda>s. lim_last_refill (pm_limiter s)" and ?t = "\<lambda>w. an_clock A (ob_tick w)"
  let ?C = "lim_capacity (pm_limiter st)"
  have split: "as_secs (?l st2 - x) = as_secs (?l st2 - ?l st1) + as_secs (?l st1 - x)" for x
    by (simp add: as_secs_add [symmetric])
  have "as_secs (?l st2 - ?t w1) \<le> as_secs (?l st2 - ?t w)" "0 \<le> ?C"
    using assms by (auto intro!: as_secs_le simp: in_budget_def limiter_ok_def Let_def)
  then have "?C * as_secs (?l st2 - ?t w1) \<le> ?C * as_secs (?l st2 - ?t w)" by (rule mult_left_mono)
  note refill = this split [of "?l st"] split [of "?t w"]
  let ?n = "\<lambda>w. real (publishes_asked (ob_past w))" and ?k = "\<lambda>s. lim_tokens (pm_limiter s)"
  note f = assms [unfolded in_budget_def Let_def]
  have C: "lim_capacity (pm_limiter st1) = ?C" using f(1) by simp
  have spent: "?n w1 + ?k st1 \<le> ?n w + ?k st + ?C * as_secs (?l st1 - ?l st)"
      "?n w2 + ?k st2 \<le> ?n w1 + ?k st1 + ?C * as_secs (?l st2 - ?l st1)"
    using f C by (elim conjE, simp)+
  have burst: "?n w1 = ?n w \<and> pm_limiter st1 = pm_limiter st \<or> ?n w1 + ?k st1 \<le> ?n w + ?C * (1 + as_secs (?l st1 - ?t w))"
      "?n w2 = ?n w1 \<and> pm_limiter st2 = pm_limiter st1 \<or> ?n w2 + ?k st2 \<le> ?n w1 + ?C * (1 + as_secs (?l st2 - ?t w1))"
    using f C by (elim conjE, simp)+
  have "?n w2 = ?n w \<and> pm_limiter st2 = pm_limiter st \<or> ?n w2 + ?k st2 \<le> ?n w + ?C * (1 + as_secs (?l st2 - ?t w))"
    using burst(1)
  proof (elim disjE conjE)
    assume "?n w1 = ?n w" "pm_limiter st1 = pm_limiter st"
    then show ?thesis using burst(2) refill(1) by (auto simp: distrib_left)
  next
    assume "?n w1 + ?k st1 \<le> ?n w + ?C * (1 + as_secs (?l st1 - ?t w))"
    then show ?thesis using spent(2) refill(3) by (simp add: distrib_left)
  qed
  moreover have "?n w2 + ?k st2 \<le> ?n w + ?k st + ?C * as_secs (?l st2 - ?l st)"
    using spent refill(2) by (simp add: distrib_left)
  ultimately show ?thesis using f C unfolding in_budget_def Let_def by (elim conjE, simp)
qed

lemma in_budget_limited: "in_budget A st w st' w' \<Longrightarrow> limited A st' w'"
  by (simp add: in_budget_def limited_def Let_def)

text \<open>A stretch of a run that leaves the limiter alone and asks for no publish authorization.\<close>

lemma in_budget_idle:
  assumes "limited A st w" "mono (an_clock A)" "ob_tick w \<le> ob_tick w'" "pm_limiter st' = pm_limiter st"
    and "publishes_asked (ob_past w') = publishes_asked (ob_past w)"
  shows "in_budget A st w st' w'"
  using assms monoD [OF assms(2,3)] by (auto simp: in_budget_def limited_def Let_def as_secs_def)

lemma handle_frame_budget:
  assumes lim: "limited A st w" and clk: "mono (an_clock A)"
    and h: "handle_frame (observed_env A) c pl st w = ((x, st'), w')"
  shows "in_budget A st w st' w'"
proof -
  let ?now = "an_clock A (ob_tick w)"
  obtain b l where acq: "try_acquire ?now (pm_limiter st) = (b, l)" by fastforce
  have sp: "limiter_ok l" "lim_capacity l = lim_capacity (pm_limiter st)" "lim_last_refill l = ?now"
    "of_bool b + lim_tokens l \<le> lim_capacity (pm_limiter st)"
    "of_bool b + lim_tokens l
      \<le> lim_tokens (pm_limiter st) + lim_capacity (pm_limiter st) * as_secs (?now - lim_last_refill (pm_limiter st))"
    using try_acquire_spends [OF _ _ acq] lim by (simp_all add: limited_def)
  have t: "?now \<le> an_clock A (Suc (ob_tick w))" using monoD [OF clk, of "ob_tick w" "Suc (ob_tick w)"] by simp
  have "pm_limiter st' = l \<and> ob_tick w' = Suc (ob_tick w)
      \<and> publishes_asked (ob_past w') = publishes_asked (ob_past w) + of_bool b"
    using h acq by (auto simp: handle_frame_def Let_def split: if_splits sum.splits option.splits prod.splits
        dest!: send_bounded_observed)
  then show ?thesis using sp t lim by (cases b) (simp_all add: in_budget_def limited_def Let_def as_secs_def)
qed

lemma send_bounded_past:
  "snd (send_bounded (observed_env A) c m w) = noted (CalledSend m) w"
  by (rule send_bounded_observed [where x = "fst (send_bounded (observed_env A) c m w)" and c = c and A = A]) simp

lemma still_authorized_past:
  assumes "still_authorized (observed_env A) c w = (b, w')"
  shows "ob_tick w' = ob_tick w" "publishes_asked (ob_past w') = publishes_asked (ob_past w)"
  using assms by (auto simp: still_authorized_def split: if_splits sum.splits)

lemma pump_step_budget:
  assumes "limited A st w" "mono (an_clock A)" and s: "pump_step (observed_env A) c r st w = ((x, st'), w')"
  shows "in_budget A st w st' w'"
proof (cases r)
  case (Outbound mo)
  then show ?thesis using s assms(1,2)
    by (cases mo) (auto intro!: in_budget_idle split: prod.splits sum.splits dest!: send_bounded_observed)
next
  case (Inbound fo)
  show ?thesis
  proof (cases fo)
    case None
    then show ?thesis using s Inbound assms(1,2) by (auto intro!: in_budget_idle)
  next
    case (Some f)
    let ?st = "st\<lparr>pm_last_seen := an_clock A (ob_tick w)\<rparr>" and ?w = "w\<lparr>ob_tick := Suc (ob_tick w)\<rparr>"
    have seen: "in_budget A st w ?st ?w" by (rule in_budget_idle [OF assms(1,2)]) simp_all
    have "handle_frame (observed_env A) c pl ?st ?w = ((x, st'), w') \<Longrightarrow> in_budget A st w st' w'" for pl
      using in_budget_trans [OF seen handle_frame_budget [OF in_budget_limited [OF seen] assms(2)]] .
    then show ?thesis using s Inbound Some seen by (auto simp: Let_def split: sum.splits WsMessage.splits)
  qed
next
  case RevalidateTick
  obtain b w1 where b: "still_authorized (observed_env A) c w = (b, w1)" by fastforce
  show ?thesis using s RevalidateTick b still_authorized_past [OF b] assms(1,2)
    by (cases b) (auto intro!: in_budget_idle simp: send_bounded_past)
next
  case HeartbeatTick
  then show ?thesis using s assms(1,2)
    by (auto intro!: in_budget_idle simp: Let_def send_bounded_past
        split: if_splits prod.splits sum.splits dest!: send_bounded_observed)
qed

lemma pump_budget:
  assumes "limited A st w" "mono (an_clock A)" "pump (observed_env A) c rs st w = ((x, st'), w')"
  shows "in_budget A st w st' w'"
  using assms
proof (induction rs arbitrary: st w)
  case Nil
  then show ?case by (auto intro!: in_budget_idle)
next
  case (Cons r rs)
  obtain y st1 w1 where s: "pump_step (observed_env A) c r st w = ((y, st1), w1)" by (metis prod.exhaust)
  note b = pump_step_budget [OF Cons.prems(1,2) s]
  show ?case using Cons.prems(3) Cons.IH [of st1 w1] s b in_budget_limited [OF b] Cons.prems(2) in_budget_trans [OF b]
    by (cases y) auto
qed

section \<open>Runs in two parts\<close>

lemma pump_append:
  "pump S c (rs @ rs') st w = (case pump S c rs st w of
       ((None, st1), w1) \<Rightarrow> pump S c rs' st1 w1
     | ((Some reason, st1), w1) \<Rightarrow> ((Some reason, st1), w1))"
  by (induction rs arbitrary: st w) (simp_all split: prod.splits option.splits)

definition finish :: "('w, 'p) SocketEnv \<Rightarrow> 'p Connection \<Rightarrow> (CloseReason option \<times> pump_state) \<times> 'w \<Rightarrow> CloseReason option \<times> 'w" where
  "finish S c p = (case p of
       ((None, _), w) \<Rightarrow> (None, w)
     | ((Some reason, _), w) \<Rightarrow> (Some reason, close_sink S (io_timeout (cn_config c)) w))"

text \<open>The limiter of an open connection and the state its loop has reached.\<close>

lemma open_connection:
  assumes "connection_run S c rs w = (None, w1)"
  obtains w0 st where "pump S c rs (fst (open_pump S c w0)) (snd (open_pump S c w0)) = ((None, st), w1)"
    and "\<forall>rs'. connection_run S c (rs @ rs') w = finish S c (pump S c rs' st w1)"
proof -
  obtain bl wa where a: "subscribe_room S (cn_room c) (cn_since c) w = (Ok bl, wa)"
    using assms by (auto simp: connection_run_def split: prod.splits sum.splits)
  obtain w0 where b: "replay_backlog S c bl wa = (Ok (), w0)"
    using assms a by (auto simp: connection_run_def split: prod.splits sum.splits)
  obtain st where p: "pump S c rs (fst (open_pump S c w0)) (snd (open_pump S c w0)) = ((None, st), w1)"
    using assms a b by (auto simp: connection_run_def split: prod.splits sum.splits option.splits)
  obtain st0 wb where o: "open_pump S c w0 = (st0, wb)" by fastforce
  have "connection_run S c (rs @ rs') w = finish S c (pump S c rs' st w1)" for rs'
    using a b p o by (simp add: connection_run_def pump_append finish_def)
  with p show thesis by (blast intro: that)
qed

lemma budget_window:
  assumes "in_budget A st w st' w'"
  shows "real (publishes_asked (ob_past w')) - real (publishes_asked (ob_past w))
    \<le> lim_capacity (pm_limiter st) * (1 + as_secs (an_clock A (ob_tick w') - an_clock A (ob_tick w)))"
proof -
  let ?l = "lim_last_refill (pm_limiter st')" and ?t = "an_clock A (ob_tick w)" and ?t' = "an_clock A (ob_tick w')"
  let ?C = "lim_capacity (pm_limiter st)"
  have c: "0 \<le> ?C" "0 \<le> lim_tokens (pm_limiter st')" "?l \<le> ?t'" "?t \<le> ?t'"
    using assms by (auto simp: in_budget_def limiter_ok_def Let_def)
  then have "?C * (1 + as_secs (?l - ?t)) \<le> ?C * (1 + as_secs (?t' - ?t))"
    by (intro mult_left_mono add_left_mono as_secs_le) simp_all
  moreover have "0 \<le> ?C * (1 + as_secs (?t' - ?t))" using c as_secs_mono [of "?t' - ?t"] by simp
  ultimately show ?thesis using assms c by (auto simp: in_budget_def Let_def)
qed

text \<open>
  C24: The authorizer is asked for publish permission at most as often as the configured rate allows,
  in every stretch of the life of a connection: while the clock advances by some time, at most the
  configured number of frames per second for that time plus one second's burst pass the limiter,
  however many frames the client sends. A configured rate of zero counts as one.
\<close>

theorem inbound_rate_bounded:
  assumes "mono (an_clock A)"
    and "connection_run (observed_env A) c rs w = (None, w1)"
    and "connection_run (observed_env A) c (rs @ rs') w = (x, w2)"
  shows "real (publishes_asked (ob_past w2)) - real (publishes_asked (ob_past w1))
    \<le> real (max (max_inbound_frames_per_second (cn_config c)) 1)
      * (1 + as_secs (an_clock A (ob_tick w2) - an_clock A (ob_tick w1)))"
proof -
  obtain w0 st where p: "pump (observed_env A) c rs (fst (open_pump (observed_env A) c w0)) (snd (open_pump (observed_env A) c w0)) = ((None, st), w1)"
    and run: "\<forall>rs'. connection_run (observed_env A) c (rs @ rs') w = finish (observed_env A) c (pump (observed_env A) c rs' st w1)"
    by (rule open_connection [OF assms(2)])
  let ?st0 = "fst (open_pump (observed_env A) c w0)" and ?w0 = "snd (open_pump (observed_env A) c w0)"
  have cap: "lim_capacity (pm_limiter ?st0) = real (max (max_inbound_frames_per_second (cn_config c)) 1)"
    by (simp add: open_pump_def InboundRateLimiter_new_def Let_def)
  have "limited A ?st0 ?w0"
    using monoD [OF assms(1), of "Suc (ob_tick w0)" "Suc (Suc (ob_tick w0))"]
    by (simp add: limited_def open_pump_def limiter_ok_new Let_def) (simp add: InboundRateLimiter_new_def Let_def)
  from pump_budget [OF this assms(1) p] have b1: "in_budget A ?st0 ?w0 st w1" .
  obtain y st' w3 where p': "pump (observed_env A) c rs' st w1 = ((y, st'), w3)" by (metis prod.exhaust)
  have w2: "publishes_asked (ob_past w2) = publishes_asked (ob_past w3)" "ob_tick w2 = ob_tick w3"
    using assms(3) run [rule_format, of rs'] p' by (cases y; auto simp: finish_def)+
  have b2: "in_budget A st w1 st' w3" by (rule pump_budget [OF in_budget_limited [OF b1] assms(1) p'])
  then have "lim_capacity (pm_limiter st) = lim_capacity (pm_limiter ?st0)" using b1 by (simp add: in_budget_def Let_def)
  with budget_window [OF b2] cap w2 show ?thesis by simp
qed

text \<open>The limiter on a sequence of acquisition times.\<close>

fun acquire_all :: "InboundRateLimiter \<Rightarrow> instant list \<Rightarrow> bool list" where
  "acquire_all l [] = []"
| "acquire_all l (t # ts) = (let (b, l') = try_acquire t l in b # acquire_all l' ts)"

fun paced :: "real \<Rightarrow> instant \<Rightarrow> instant list \<Rightarrow> bool" where
  "paced gap t [] \<longleftrightarrow> True"
| "paced gap t (t' # ts) \<longleftrightarrow> t \<le> t' \<and> gap \<le> as_secs (t' - t) \<and> paced gap t' ts"

lemma acquire_all_paced:
  assumes "limiter_ok l" "paced (1 / lim_capacity l) (lim_last_refill l) ts"
  shows "list_all id (acquire_all l ts)"
  using assms
proof (induction ts arbitrary: l)
  case (Cons t ts)
  obtain b l' where a: "try_acquire t l = (b, l')" by fastforce
  have le: "lim_last_refill l \<le> t" "1 \<le> lim_capacity l * as_secs (t - lim_last_refill l)" "1 \<le> lim_capacity l"
    using Cons.prems by (auto simp: limiter_ok_def field_simps)
  note sp = try_acquire_spends [OF Cons.prems(1) le(1) a]
  have "b" using a le Cons.prems(1)
    by (auto simp: try_acquire_def Let_def saturating_duration_since_def limiter_ok_def mult.commute split: if_splits)
  then show ?case using Cons.IH [OF sp(1)] Cons.prems(2) sp(2,3) a by simp
qed simp

text \<open>
  A client that keeps to the configured rate is never throttled: frames that arrive at least the
  reciprocal of the rate apart all pass the limiter, and so does a burst at the opening of the
  connection that is no larger than the frames of one second.
\<close>

theorem paced_frames_admitted:
  "(paced (1 / real (max rate 1)) t0 ts \<longrightarrow> list_all id (acquire_all (InboundRateLimiter_new rate t0) ts))
   \<and> acquire_all (InboundRateLimiter_new rate t0) (replicate (max rate 1) t0) = replicate (max rate 1) True"
proof
  show "paced (1 / real (max rate 1)) t0 ts \<longrightarrow> list_all id (acquire_all (InboundRateLimiter_new rate t0) ts)"
    using acquire_all_paced [OF limiter_ok_new, of rate t0 ts] by (simp add: InboundRateLimiter_new_def Let_def)
  have "acquire_all l (replicate n (lim_last_refill l)) = replicate n True" if "real n \<le> lim_tokens l" "lim_tokens l \<le> lim_capacity l" for n l
    using that
  proof (induction n arbitrary: l)
    case (Suc n)
    have "try_acquire (lim_last_refill l) l = (True, l\<lparr>lim_tokens := lim_tokens l - 1\<rparr>)"
      using Suc.prems by (simp add: try_acquire_def saturating_duration_since_def as_secs_def Let_def)
    then show ?case using Suc.IH [of "l\<lparr>lim_tokens := lim_tokens l - 1\<rparr>"] Suc.prems by simp
  qed simp
  from this [of "max rate 1" "InboundRateLimiter_new rate t0"]
  show "acquire_all (InboundRateLimiter_new rate t0) (replicate (max rate 1) t0) = replicate (max rate 1) True"
    by (simp add: InboundRateLimiter_new_def Let_def)
qed

theorem paced_frames_admitted_witness:
  "acquire_all (InboundRateLimiter_new 2 0) [500000000, 1000000000, 1700000000] = [True, True, True]"
  using paced_frames_admitted [of 2 0 "[500000000, 1000000000, 1700000000]"]
  by (simp add: as_secs_def split_beta Let_def)

section \<open>The heartbeat\<close>

fun is_inbound :: "ready \<Rightarrow> bool" where
  "is_inbound (Inbound _) \<longleftrightarrow> True"
| "is_inbound _ \<longleftrightarrow> False"

lemma pump_step_last_seen:
  "\<not> is_inbound r \<Longrightarrow> pump_step S c r st w = ((x, st'), w') \<Longrightarrow> st' = st"
  by (induction S c r st w rule: pump_step.induct) (auto simp: Let_def split: prod.splits sum.splits if_splits bool.splits)

lemma pump_last_seen:
  "list_all (\<lambda>r. \<not> is_inbound r) rs \<Longrightarrow> pump S c rs st w = ((x, st'), w') \<Longrightarrow> st' = st"
  by (induction rs arbitrary: st w) (auto split: prod.splits option.splits dest: pump_step_last_seen)

lemma handle_frame_last_seen:
  "handle_frame S c pl st w = ((x, st'), w') \<Longrightarrow> pm_last_seen st' = pm_last_seen st"
  by (auto simp: handle_frame_def Let_def split: prod.splits sum.splits option.splits if_splits)

lemma frame_last_seen:
  "pump_step (observed_env A) c (Inbound (Some f)) st w = ((x, st'), w') \<Longrightarrow> pm_last_seen st' = an_clock A (ob_tick w)"
  by (auto simp: Let_def split: sum.splits WsMessage.splits dest!: handle_frame_last_seen)

text \<open>
  C25: A silent client is closed at the deadline and only then. On a heartbeat tick, with no frame
  since the last one, the connection ends with a timeout exactly when the time since that frame has
  reached the heartbeat timeout; it then sends the closing frame and closes the socket, and
  otherwise it sends a ping.
\<close>

theorem silent_client_times_out:
  assumes "connection_run (observed_env A) c rs w = (None, w1)"
    and "connection_run (observed_env A) c (rs @ Inbound (Some f) # rs') w = (None, w2)"
    and "list_all (\<lambda>r. \<not> is_inbound r) rs'"
    and "connection_run (observed_env A) c (rs @ Inbound (Some f) # rs' @ [HeartbeatTick]) w = (x, w3)"
  shows "if heartbeat_timeout (cn_config c) \<le> max 0 (an_clock A (ob_tick w2) - an_clock A (ob_tick w1))
    then x = Some Timeout \<and> ob_past w3 = CalledCloseSink # CalledSend Close # ob_past w2
    else x \<noteq> Some Timeout \<and> CalledSend (Ping []) \<in> set (take 2 (ob_past w3))"
proof -
  let ?S = "observed_env A"
  obtain st1 where run: "\<forall>rs'. connection_run ?S c (rs @ rs') w = finish ?S c (pump ?S c rs' st1 w1)"
    using open_connection [OF assms(1)] by metis
  obtain st2 where p2: "pump ?S c (Inbound (Some f) # rs') st1 w1 = ((None, st2), w2)"
    using assms(2) unfolding run [rule_format] finish_def by (auto simp del: pump.simps split: prod.splits option.splits)
  then obtain st where "pump_step ?S c (Inbound (Some f)) st1 w1 = ((None, st), snd (pump_step ?S c (Inbound (Some f)) st1 w1))"
      "pump ?S c rs' st (snd (pump_step ?S c (Inbound (Some f)) st1 w1)) = ((None, st2), w2)"
    by (auto simp del: pump_step.simps split: prod.splits option.splits)
  then have seen: "pm_last_seen st2 = an_clock A (ob_tick w1)"
    using frame_last_seen pump_last_seen [OF assms(3)] by metis
  have "pump ?S c ((Inbound (Some f) # rs') @ [HeartbeatTick]) st1 w1 = pump ?S c [HeartbeatTick] st2 w2"
    unfolding pump_append p2 by simp
  also have "\<dots> = pump_step ?S c HeartbeatTick st2 w2"
    by (simp del: pump_step.simps split: prod.splits option.splits)
  finally have "(x, w3) = finish ?S c (pump_step ?S c HeartbeatTick st2 w2)"
    using assms(4) run [rule_format, of "(Inbound (Some f) # rs') @ [HeartbeatTick]"] by simp
  moreover obtain y where "send_bounded ?S c (Ping []) (w2\<lparr>ob_tick := Suc (ob_tick w2)\<rparr>)
      = (y, noted (CalledSend (Ping [])) (w2\<lparr>ob_tick := Suc (ob_tick w2)\<rparr>))"
    using send_bounded_observed by (metis prod.exhaust)
  moreover have "fst (send_bounded ?S c m v) \<noteq> Err Timeout" for m v
    by (auto simp: send_bounded_def split: option.splits sum.splits)
  ultimately show ?thesis using seen
    by (cases y) (auto simp: finish_def Let_def saturating_duration_since_def send_bounded_past, metis fst_conv)
qed

section \<open>A sample connection\<close>

text \<open>
  Alice is admitted to everything until her session expires after nine calls, her frames are answered with an
  acknowledgement, the clock advances by one second per reading, and the hub replays one message.
\<close>

definition alice_answers :: "string Answers" where
  "alice_answers = \<lparr>
     an_hub = \<lambda>r n past. Ok (Replayed [RealtimeMessage_new r ''move'' [1]]),
     an_authenticate = \<lambda>p past. if length past < 9 then Ok p else Err (Unauthorized ''expired''),
     an_authorize = \<lambda>i r a past. Ok (),
     an_on_message = \<lambda>i r pl past. Some (Ok (Some \<lparr>rp_kind = ''ack'', rp_payload = [0]\<rparr>)),
     an_send = \<lambda>m past. Some (Ok ()),
     an_clock = \<lambda>n. int n * 1000000000\<rparr>"

definition alice_config :: RealtimeConfig where
  "alice_config = RealtimeConfig_default\<lparr>heartbeat_timeout := 3000000000, max_inbound_frames_per_second := 1\<rparr>"

definition alice_connection :: "string Connection" where
  "alice_connection = \<lparr>cn_config = alice_config, cn_parts = ''alice'', cn_identity = ''alice'', cn_room = ''game'', cn_since = Some 0\<rparr>"

lemmas alice_defs = alice_answers_def alice_config_def alice_connection_def serve_def upgrade_since_def
  connection_run_def open_pump_def handle_frame_def still_authorized_def send_bounded_def
  RealtimeConfig_default_def InboundRateLimiter_new_def try_acquire_def saturating_duration_since_def
  as_secs_def RealtimeMessage_new_def Let_def

lemma alice_served:
  "\<exists>w'. serve (observed_env alice_answers) alice_config ''alice'' ''game'' (Some 0)
      [Inbound (Some (Ok (Binary [7]))), Outbound (Some (RealtimeMessage_new ''game'' ''move'' [2])), HeartbeatTick,
       RevalidateTick, Outbound None]
      \<lparr>ob_past = [], ob_tick = 0\<rparr> = (Ok (Some Revoked), w')
    \<and> ob_past w' = [CalledCloseSink, CalledSend Close, CalledAuthenticate (Err (Unauthorized ''expired'')),
       CalledSend (Ping []), CalledSend (Binary [2]), CalledSend (Binary [0]), CalledOnMessage ''alice'' ''game'' [7],
       CalledAuthorize ''alice'' ''game'' Publish (Ok ()), CalledSend (Binary [1]), CalledSubscribe ''game'' (Some 0),
       CalledAuthorize ''alice'' ''game'' Subscribe (Ok ()), CalledAuthenticate (Ok ''alice'')]"
  by (simp add: alice_defs)

theorem socket_guarded_witness:
  "\<exists>w' i. serve (observed_env alice_answers) alice_config ''alice'' ''game'' (Some 0)
      [Inbound (Some (Ok (Binary [7]))), Outbound (Some (RealtimeMessage_new ''game'' ''move'' [2])), HeartbeatTick,
       RevalidateTick, Outbound None] \<lparr>ob_past = [], ob_tick = 0\<rparr> = (Ok (Some Revoked), w')
    \<and> guarded i ''game'' (ob_past w') \<and> length (ob_past w') = 12"
proof -
  obtain w' where w': "serve (observed_env alice_answers) alice_config ''alice'' ''game'' (Some 0)
      [Inbound (Some (Ok (Binary [7]))), Outbound (Some (RealtimeMessage_new ''game'' ''move'' [2])), HeartbeatTick,
       RevalidateTick, Outbound None] \<lparr>ob_past = [], ob_tick = 0\<rparr> = (Ok (Some Revoked), w')"
    "length (ob_past w') = 12"
    using alice_served by (elim exE conjE) simp
  obtain i where "guarded i ''game'' (ob_past w')" using socket_guarded [OF _ w'(1)] by auto
  then show ?thesis by (intro exI [where x = w'] exI [where x = i] conjI w')
qed

text \<open>Three frames within the first seconds of a connection that admits one per second.\<close>

lemma alice_mono: "mono (an_clock alice_answers)"
  by (simp add: alice_answers_def mono_def)

definition alice_past :: "ready list \<Rightarrow> Observed" where
  "alice_past rs = snd (connection_run (observed_env alice_answers) alice_connection rs \<lparr>ob_past = [], ob_tick = 0\<rparr>)"

abbreviation alice_frame :: ready where
  "alice_frame \<equiv> Inbound (Some (Ok (Binary [7])))"

lemma alice_open:
  "connection_run (observed_env alice_answers) alice_connection [] \<lparr>ob_past = [], ob_tick = 0\<rparr> = (None, alice_past [])"
  "connection_run (observed_env alice_answers) alice_connection [alice_frame, alice_frame] \<lparr>ob_past = [], ob_tick = 0\<rparr>
     = (None, alice_past [alice_frame, alice_frame])"
  "ob_tick (alice_past []) = 2" "ob_tick (alice_past [alice_frame, alice_frame]) = 6"
  "publishes_asked (ob_past (alice_past [])) = 0" "publishes_asked (ob_past (alice_past [alice_frame, alice_frame])) = 2"
  by (simp_all add: alice_past_def alice_defs)

theorem inbound_rate_bounded_witness:
  "publishes_asked (ob_past (alice_past [alice_frame, alice_frame])) = 2
   \<and> real (publishes_asked (ob_past (alice_past [alice_frame, alice_frame]))) \<le> 1 * (1 + as_secs 4000000000)"
  using inbound_rate_bounded [OF alice_mono alice_open(1), of "[alice_frame, alice_frame]"] alice_open
  by (simp add: alice_connection_def alice_config_def alice_answers_def)

theorem silent_client_times_out_witness:
  "fst (connection_run (observed_env alice_answers) alice_connection [alice_frame, HeartbeatTick, HeartbeatTick]
     \<lparr>ob_past = [], ob_tick = 0\<rparr>) = Some Timeout"
proof -
  let ?run = "\<lambda>rs. connection_run (observed_env alice_answers) alice_connection rs \<lparr>ob_past = [], ob_tick = 0\<rparr>"
  let ?w = "alice_past [alice_frame, HeartbeatTick]"
  have two: "?run [alice_frame, HeartbeatTick] = (None, ?w)" "ob_tick ?w = 5"
    by (simp_all add: alice_past_def alice_defs)
  obtain x w where "?run [alice_frame, HeartbeatTick, HeartbeatTick] = (x, w)" by fastforce
  then show ?thesis
    using silent_client_times_out [OF alice_open(1), of "Ok (Binary [7])" "[HeartbeatTick]" ?w x w] two alice_open(3)
    by (simp add: alice_connection_def alice_config_def alice_answers_def)
qed

end
