(* ===== verification/Event_Bus.thy ===== *)
theory Event_Bus
  imports Messaging
begin

text \<open>
  \<open>crates/pharos-app/src/event_bus.rs\<close>, \<open>event_handler.rs\<close>, \<open>cascade.rs\<close> and
  \<open>crates/pharos-core/src/domain_event.rs\<close>: the in-process bus, its error policies, the decoders of
  the relay seam and the dispatch to a single handler.
\<close>

section \<open>Events and errors\<close>

text \<open>
  A value behind \<open>dyn Any\<close> is an element of \<open>'e\<close>; \<open>type_id\<close> is the \<open>TypeId\<close> of its concrete type,
  and the other fields are the methods of \<open>DomainEvent\<close>.
\<close>

type_synonym typeid = nat

record 'e DomainEvent =
  type_id :: "'e \<Rightarrow> typeid"
  event_type :: "'e \<Rightarrow> string"
  occurred_at :: "'e \<Rightarrow> instant"
  event_aggregate_id :: "'e \<Rightarrow> string"

record CascadeError =
  command_name :: string
  cascade_source :: string

datatype EventBusError =
    HandlerError string string
  | HandlerErrors string "EventBusError list"
  | DecodeError string string
  | CascadeFailed string CascadeError

definition quoted :: "string \<Rightarrow> string" where
  "quoted s = CHR 0x27 # s @ [CHR 0x27]"

definition CascadeError_to_string :: "CascadeError \<Rightarrow> string" where
  "CascadeError_to_string e = ''cascaded command '' @ quoted (command_name e) @ '' failed: '' @ cascade_source e"

fun EventBusError_to_string :: "EventBusError \<Rightarrow> string" where
  "EventBusError_to_string (HandlerError t src) = ''event handler failed for '' @ quoted t @ '': '' @ src"
| "EventBusError_to_string (HandlerErrors t es) = dec_string (length es) @ '' event handlers failed for '' @ quoted t"
| "EventBusError_to_string (DecodeError t src) = ''failed to decode payload for topic '' @ quoted t @ '': '' @ src"
| "EventBusError_to_string (CascadeFailed t src) =
     ''cascaded command failed for '' @ quoted t @ '': '' @ CascadeError_to_string src"

datatype PublishErrorPolicy = FailFast | CollectAll

section \<open>Handlers\<close>

text \<open>
  A cascaded command pairs a command with the handler that runs it; what it does to the world and
  the text of its error are those of that handler.
\<close>

record 'w CascadedCommand =
  cc_name :: string
  cc_handle :: "('w, string, unit) op"

definition cascade_dispatch :: "'w CascadedCommand \<Rightarrow> ('w, CascadeError, unit) op" where
  "cascade_dispatch c w =
     (case cc_handle c w of
        (Inl e, w') \<Rightarrow> (Err \<lparr>command_name = cc_name c, cascade_source = e\<rparr>, w')
      | (Inr _, w') \<Rightarrow> (Ok (), w'))"

text \<open>The wrappers carry the event type \<open>E\<close> they were registered for and \<open>type_name::<H>()\<close>.\<close>

datatype ('w, 'e) ErasedHandler =
    HandlerWrapper (handled: typeid) (name: string) (plain: "'e \<Rightarrow> ('w, string, unit) op")
  | CascadingHandlerWrapper (handled: typeid) (name: string) (cascading: "'e \<Rightarrow> ('w, string, 'w CascadedCommand list) op")

definition downcast_failed :: EventBusError where
  "downcast_failed = HandlerError ''<unknown>''
     ''event bus invariant violated: TypeId matched but downcast failed''"

fun dispatch_cascaded :: "string \<Rightarrow> 'w CascadedCommand list \<Rightarrow> ('w, EventBusError, unit) op" where
  "dispatch_cascaded t [] w = (Ok (), w)"
| "dispatch_cascaded t (c # cs) w =
     (case cascade_dispatch c w of
        (Inl e, w') \<Rightarrow> (Err (CascadeFailed t e), w')
      | (Inr _, w') \<Rightarrow> dispatch_cascaded t cs w')"

fun handler_call :: "'e DomainEvent \<Rightarrow> ('w, 'e) ErasedHandler \<Rightarrow> 'e \<Rightarrow> ('w, EventBusError, unit) op" where
  "handler_call De (HandlerWrapper t _ handle) ev w =
     (if type_id De ev \<noteq> t then (Err downcast_failed, w)
      else case handle ev w of
             (Inl e, w') \<Rightarrow> (Err (HandlerError (event_type De ev) e), w')
           | (Inr _, w') \<Rightarrow> (Ok (), w'))"
| "handler_call De (CascadingHandlerWrapper t _ handle) ev w =
     (if type_id De ev \<noteq> t then (Err downcast_failed, w)
      else case handle ev w of
             (Inl e, w') \<Rightarrow> (Err (HandlerError (event_type De ev) e), w')
           | (Inr commands, w') \<Rightarrow> dispatch_cascaded (event_type De ev) commands w')"

section \<open>The bus\<close>

text \<open>A decoder turns bytes into an event of the type it was registered for, or into the text of
  the \<open>serde_json\<close> error.\<close>

record ('w, 'e) EventBus =
  bus_handlers :: "(typeid, ('w, 'e) ErasedHandler list) dashmap"
  bus_decoders :: "(string, typeid \<times> (bytes \<Rightarrow> string + 'e)) dashmap"
  bus_policy :: PublishErrorPolicy

definition with_error_policy :: "PublishErrorPolicy \<Rightarrow> ('w, 'e) EventBus" where
  "with_error_policy p = \<lparr>bus_handlers = [], bus_decoders = [], bus_policy = p\<rparr>"

definition bus_new :: "('w, 'e) EventBus" where
  "bus_new = with_error_policy FailFast"

definition or_default :: "'v list option \<Rightarrow> 'v list" where
  "or_default v = (case v of None \<Rightarrow> [] | Some vs \<Rightarrow> vs)"

definition bus_register ::
    "typeid \<Rightarrow> string \<Rightarrow> ('e \<Rightarrow> ('w, string, unit) op) \<Rightarrow> ('w, 'e) EventBus \<Rightarrow> ('w, 'e) EventBus" where
  "bus_register t n handle b = b\<lparr>bus_handlers :=
     dm_insert t (or_default (dm_get (bus_handlers b) t) @ [HandlerWrapper t n handle]) (bus_handlers b)\<rparr>"

definition bus_register_cascading ::
    "typeid \<Rightarrow> string \<Rightarrow> ('e \<Rightarrow> ('w, string, 'w CascadedCommand list) op) \<Rightarrow> ('w, 'e) EventBus \<Rightarrow> ('w, 'e) EventBus" where
  "bus_register_cascading t n handle b = b\<lparr>bus_handlers :=
     dm_insert t (or_default (dm_get (bus_handlers b) t) @ [CascadingHandlerWrapper t n handle]) (bus_handlers b)\<rparr>"

definition bus_register_decoder ::
    "typeid \<Rightarrow> (bytes \<Rightarrow> string + 'e) \<Rightarrow> string \<Rightarrow> ('w, 'e) EventBus \<Rightarrow> ('w, 'e) EventBus" where
  "bus_register_decoder t from_slice tp b = b\<lparr>bus_decoders := dm_insert tp (t, from_slice) (bus_decoders b)\<rparr>"

text \<open>The loop over the cloned handler list; \<open>errors\<close> is the vector collected so far.\<close>

fun publish_loop ::
    "'e DomainEvent \<Rightarrow> PublishErrorPolicy \<Rightarrow> string \<Rightarrow> 'e \<Rightarrow> ('w, 'e) ErasedHandler list \<Rightarrow> EventBusError list
     \<Rightarrow> ('w, EventBusError, unit) op" where
  "publish_loop De p label ev [] errors w =
     ((case errors of [] \<Rightarrow> Ok () | [e] \<Rightarrow> Err e | _ \<Rightarrow> Err (HandlerErrors label errors)), w)"
| "publish_loop De p label ev (h # hs) errors w =
     (case handler_call De h ev w of
        (Inr _, w') \<Rightarrow> publish_loop De p label ev hs errors w'
      | (Inl e, w') \<Rightarrow>
          (case p of FailFast \<Rightarrow> (Err e, w')
           | CollectAll \<Rightarrow> publish_loop De p label ev hs (errors @ [e]) w'))"

definition bus_publish :: "'e DomainEvent \<Rightarrow> ('w, 'e) EventBus \<Rightarrow> 'e \<Rightarrow> ('w, EventBusError, unit) op" where
  "bus_publish De b ev w =
     (case dm_get (bus_handlers b) (type_id De ev) of
        None \<Rightarrow> (Ok (), w)
      | Some hs \<Rightarrow> publish_loop De (bus_policy b) (event_type De ev) ev hs [] w)"

definition publish_trusted_bytes ::
    "'e DomainEvent \<Rightarrow> ('w, 'e) EventBus \<Rightarrow> string \<Rightarrow> bytes \<Rightarrow> ('w, EventBusError, unit) op" where
  "publish_trusted_bytes De b tp pl w =
     (case dm_get (bus_decoders b) tp of
        None \<Rightarrow> (Ok (), w)
      | Some (t, decoder) \<Rightarrow>
          (case decoder pl of
             Inl e \<Rightarrow> (Err (DecodeError tp e), w)
           | Inr ev \<Rightarrow>
               (case dm_get (bus_handlers b) t of
                  None \<Rightarrow> (Ok (), w)
                | Some hs \<Rightarrow> publish_loop De (bus_policy b) ''<erased>'' ev hs [] w)))"

definition handler_names_for_topic :: "('w, 'e) EventBus \<Rightarrow> string \<Rightarrow> string list" where
  "handler_names_for_topic b tp =
     (case dm_get (bus_decoders b) tp of
        None \<Rightarrow> []
      | Some (t, _) \<Rightarrow>
          (case dm_get (bus_handlers b) t of None \<Rightarrow> [] | Some hs \<Rightarrow> map name hs))"

definition dispatch_trusted_bytes_to_handler ::
    "'e DomainEvent \<Rightarrow> ('w, 'e) EventBus \<Rightarrow> string \<Rightarrow> bytes \<Rightarrow> string \<Rightarrow> ('w, EventBusError, unit) op" where
  "dispatch_trusted_bytes_to_handler De b tp pl handler_name w =
     (case dm_get (bus_decoders b) tp of
        None \<Rightarrow> (Ok (), w)
      | Some (t, decoder) \<Rightarrow>
          (case decoder pl of
             Inl e \<Rightarrow> (Err (DecodeError tp e), w)
           | Inr ev \<Rightarrow>
               (case (case dm_get (bus_handlers b) t of
                        Some hs \<Rightarrow> find (\<lambda>h. name h = handler_name) hs
                      | None \<Rightarrow> None) of
                  None \<Rightarrow> (Ok (), w)
                | Some h \<Rightarrow> handler_call De h ev w)))"

text \<open>The deprecated alias.\<close>

definition publish_erased ::
    "'e DomainEvent \<Rightarrow> ('w, 'e) EventBus \<Rightarrow> string \<Rightarrow> bytes \<Rightarrow> ('w, EventBusError, unit) op" where
  "publish_erased De b tp pl = publish_trusted_bytes De b tp pl"

section \<open>Buses built through the interface\<close>

text \<open>A decoder for \<open>E\<close> yields values of type \<open>E\<close>: that is what its Rust type says.\<close>

inductive built :: "'e DomainEvent \<Rightarrow> ('w, 'e) EventBus \<Rightarrow> bool" for De :: "'e DomainEvent" where
  built_new: "built De (with_error_policy p)"
| built_register: "built De b \<Longrightarrow> built De (bus_register t n handle b)"
| built_cascading: "built De b \<Longrightarrow> built De (bus_register_cascading t n chandle b)"
| built_decoder: "built De b \<Longrightarrow> (\<And>pl ev. from_slice pl = Ok ev \<Longrightarrow> type_id De ev = t) \<Longrightarrow>
    built De (bus_register_decoder t from_slice tp b)"

definition handlers_of :: "('w, 'e) EventBus \<Rightarrow> typeid \<Rightarrow> ('w, 'e) ErasedHandler list" where
  "handlers_of b t = or_default (dm_get (bus_handlers b) t)"

lemma or_default_simps [simp]: "or_default None = []" "or_default (Some vs) = vs"
  by (simp_all add: or_default_def)

lemma handlers_of_register:
  "handlers_of (bus_register t n handle b) t' = handlers_of b t' @ (if t' = t then [HandlerWrapper t n handle] else [])"
  "handlers_of (bus_register_cascading t n chandle b) t' =
     handlers_of b t' @ (if t' = t then [CascadingHandlerWrapper t n chandle] else [])"
  "handlers_of (bus_register_decoder t from_slice tp b) t' = handlers_of b t'"
  by (simp_all add: handlers_of_def bus_register_def bus_register_cascading_def bus_register_decoder_def)

lemma built_handled: "built De b \<Longrightarrow> h \<in> set (handlers_of b t) \<Longrightarrow> handled h = t"
  by (induction arbitrary: h t rule: built.induct)
    (auto simp: handlers_of_register with_error_policy_def handlers_of_def [of "\<lparr>bus_handlers = [], bus_decoders = [], bus_policy = _\<rparr>"]
      split: if_splits)

lemma built_decodes:
  "built De b \<Longrightarrow> dm_get (bus_decoders b) tp = Some (t, d) \<Longrightarrow> d pl = Ok ev \<Longrightarrow> type_id De ev = t"
  by (induction arbitrary: tp t d rule: built.induct)
    (auto simp: with_error_policy_def bus_register_def bus_register_cascading_def bus_register_decoder_def split: if_splits)

section \<open>Delivery\<close>

text \<open>The reference: every handler is called once, in order; the outcomes and the final world.\<close>

fun call_all :: "'e DomainEvent \<Rightarrow> ('w, 'e) ErasedHandler list \<Rightarrow> 'e \<Rightarrow> 'w \<Rightarrow> (EventBusError + unit) list \<times> 'w" where
  "call_all De [] ev w = ([], w)"
| "call_all De (h # hs) ev w =
     (let (r, w1) = handler_call De h ev w; (rs, w2) = call_all De hs ev w1 in (r # rs, w2))"

definition errors_of :: "('e + 'a) list \<Rightarrow> 'e list" where
  "errors_of rs = concat (map (case_sum (\<lambda>e. [e]) (\<lambda>_. [])) rs)"

definition collected :: "string \<Rightarrow> EventBusError list \<Rightarrow> EventBusError + unit" where
  "collected label errors = (case errors of [] \<Rightarrow> Ok () | [e] \<Rightarrow> Err e | _ \<Rightarrow> Err (HandlerErrors label errors))"

lemma errors_of_simps [simp]:
  "errors_of [] = []" "errors_of (Err e # rs) = e # errors_of rs" "errors_of (Ok x # rs) = errors_of rs"
  by (simp_all add: errors_of_def)

lemma call_all_append:
  "call_all De (hs @ hs') ev w =
     (let (rs, w1) = call_all De hs ev w; (rs', w2) = call_all De hs' ev w1 in (rs @ rs', w2))"
  by (induction hs arbitrary: w) (auto simp: Let_def split: prod.splits)

lemma publish_loop_collect:
  "publish_loop De CollectAll label ev hs errors w =
     (collected label (errors @ errors_of (fst (call_all De hs ev w))), snd (call_all De hs ev w))"
proof (induction hs arbitrary: errors w)
  case (Cons h hs)
  then show ?case by (cases "handler_call De h ev w"; cases "fst (handler_call De h ev w)") (auto simp: split_beta Let_def)
qed (simp add: collected_def)

lemma publish_loop_fail_fast:
  "publish_loop De FailFast label ev hs [] w = (Ok (), snd (call_all De hs ev w))
     \<and> list_all is_ok (fst (call_all De hs ev w))
   \<or> (\<exists>pre h post e. hs = pre @ h # post \<and> list_all is_ok (fst (call_all De pre ev w))
        \<and> publish_loop De FailFast label ev hs [] w = handler_call De h ev (snd (call_all De pre ev w))
        \<and> fst (publish_loop De FailFast label ev hs [] w) = Err e)"
proof (induction hs arbitrary: w)
  case (Cons h hs)
  obtain r w1 where e: "handler_call De h ev w = (r, w1)" by fastforce
  show ?case
  proof (cases r)
    case (Inl x)
    then show ?thesis using e by (intro disjI2 exI [of _ "[]"]) auto
  next
    case (Inr u)
    with e have s: "publish_loop De FailFast label ev (h # hs') [] w = publish_loop De FailFast label ev hs' [] w1"
      "call_all De (h # hs') ev w = (Ok () # fst (call_all De hs' ev w1), snd (call_all De hs' ev w1))" for hs'
      by (simp_all add: split_beta)
    from Cons [of w1] show ?thesis
    proof (elim disjE exE conjE)
      fix pre h' post x
      assume "hs = pre @ h' # post" "list_all is_ok (fst (call_all De pre ev w1))"
        "publish_loop De FailFast label ev hs [] w1 = handler_call De h' ev (snd (call_all De pre ev w1))"
        "fst (publish_loop De FailFast label ev hs [] w1) = Err x"
      then show ?thesis
        by - (rule disjI2, rule exI [of _ "h # pre"], rule exI [of _ h'], rule exI [of _ post], rule exI [of _ x],
          simp add: s del: call_all.simps publish_loop.simps)
    qed (simp add: s del: call_all.simps publish_loop.simps)
  qed
qed simp

lemma bus_publish_loop:
  "bus_publish De b ev w = publish_loop De (bus_policy b) (event_type De ev) ev (handlers_of b (type_id De ev)) [] w"
  by (simp add: bus_publish_def handlers_of_def split: option.split)

lemma trusted_bytes_loop:
  assumes "dm_get (bus_decoders b) tp = Some (t, d)" and "d pl = Ok ev"
  shows "publish_trusted_bytes De b tp pl w = publish_loop De (bus_policy b) ''<erased>'' ev (handlers_of b t) [] w"
  using assms by (simp add: publish_trusted_bytes_def handlers_of_def split: option.split)

lemma fail_fast_label: "publish_loop De FailFast l ev hs [] w = publish_loop De FailFast l' ev hs [] w"
  by (induction hs arbitrary: w) (auto split: prod.split sum.split)

text \<open>The relay's use of the per-handler entry point: dispatch to each name in turn.\<close>

fun dispatch_each ::
    "'e DomainEvent \<Rightarrow> ('w, 'e) EventBus \<Rightarrow> string \<Rightarrow> bytes \<Rightarrow> string list \<Rightarrow> 'w
     \<Rightarrow> (EventBusError + unit) list \<times> 'w" where
  "dispatch_each De b tp pl [] w = ([], w)"
| "dispatch_each De b tp pl (n # ns) w =
     (let (r, w1) = dispatch_trusted_bytes_to_handler De b tp pl n w;
          (rs, w2) = dispatch_each De b tp pl ns w1
      in (r # rs, w2))"

lemma find_name_distinct: "distinct (map f hs) \<Longrightarrow> h \<in> set hs \<Longrightarrow> find (\<lambda>x. f x = f h) hs = Some h"
  by (induction hs) (auto simp: image_iff)

lemma dispatch_handler:
  assumes "dm_get (bus_decoders b) tp = Some (t, d)" and "d pl = Ok ev"
  shows "dispatch_trusted_bytes_to_handler De b tp pl n w =
    (case find (\<lambda>h. name h = n) (handlers_of b t) of None \<Rightarrow> (Ok (), w) | Some h \<Rightarrow> handler_call De h ev w)"
  using assms by (simp add: dispatch_trusted_bytes_to_handler_def handlers_of_def split: option.split)

lemma dispatch_each_handlers:
  assumes d: "dm_get (bus_decoders b) tp = Some (t, d)" "d pl = Ok ev"
    and dist: "distinct (map name (handlers_of b t))"
  shows "set hs \<subseteq> set (handlers_of b t) \<Longrightarrow> dispatch_each De b tp pl (map name hs) w = call_all De hs ev w"
proof (induction hs arbitrary: w)
  case (Cons h hs)
  then have "dispatch_trusted_bytes_to_handler De b tp pl (name h) w = handler_call De h ev w"
    using dispatch_handler [OF d] find_name_distinct [OF dist, of h] by simp
  then show ?case using Cons by (simp add: split_beta)
qed simp

lemma names_handlers:
  "dm_get (bus_decoders b) tp = Some (t, d) \<Longrightarrow> handler_names_for_topic b tp = map name (handlers_of b t)"
  by (simp add: handler_names_for_topic_def handlers_of_def split: option.split)

section \<open>Properties of the bus\<close>

text \<open>A bus as it is put together: a sequence of registrations, applied in order to an empty bus.\<close>

datatype ('w, 'e) bus_registration =
    Plain typeid string "'e \<Rightarrow> ('w, string, unit) op"
  | Cascading typeid string "'e \<Rightarrow> ('w, string, 'w CascadedCommand list) op"
  | Decoding typeid "bytes \<Rightarrow> string + 'e" string

fun register_one :: "('w, 'e) bus_registration \<Rightarrow> ('w, 'e) EventBus \<Rightarrow> ('w, 'e) EventBus" where
  "register_one (Plain t n handle) b = bus_register t n handle b"
| "register_one (Cascading t n chandle) b = bus_register_cascading t n chandle b"
| "register_one (Decoding t from_slice tp) b = bus_register_decoder t from_slice tp b"

definition bus_of :: "PublishErrorPolicy \<Rightarrow> ('w, 'e) bus_registration list \<Rightarrow> ('w, 'e) EventBus" where
  "bus_of p regs = fold register_one regs (with_error_policy p)"

text \<open>
  The reference: which registrations concern an event of type \<open>t\<close>, what asking one of them amounts to,
  and asking several one after the other.
\<close>

fun concerns :: "typeid \<Rightarrow> ('w, 'e) bus_registration \<Rightarrow> bool" where
  "concerns t (Plain t' _ _) = (t' = t)"
| "concerns t (Cascading t' _ _) = (t' = t)"
| "concerns t (Decoding _ _ _) = False"

fun ask_handler :: "string \<Rightarrow> ('w, 'e) bus_registration \<Rightarrow> 'e \<Rightarrow> ('w, EventBusError, unit) op" where
  "ask_handler label (Plain _ _ handle) ev w = (case handle ev w of
     (Err e, w') \<Rightarrow> (Err (HandlerError label e), w') | (Ok _, w') \<Rightarrow> (Ok (), w'))"
| "ask_handler label (Cascading _ _ chandle) ev w = (case chandle ev w of
     (Err e, w') \<Rightarrow> (Err (HandlerError label e), w') | (Ok commands, w') \<Rightarrow> dispatch_cascaded label commands w')"
| "ask_handler label (Decoding _ _ _) ev w = (Ok (), w)"

fun ask_handlers :: "string \<Rightarrow> ('w, 'e) bus_registration list \<Rightarrow> 'e \<Rightarrow> 'w \<Rightarrow> (EventBusError + unit) list \<times> 'w" where
  "ask_handlers label [] ev w = ([], w)"
| "ask_handlers label (r # rs) ev w =
     (let (x, w1) = ask_handler label r ev w; (xs, w2) = ask_handlers label rs ev w1 in (x # xs, w2))"

fun wrapped :: "('w, 'e) bus_registration \<Rightarrow> ('w, 'e) ErasedHandler" where
  "wrapped (Plain t n handle) = HandlerWrapper t n handle"
| "wrapped (Cascading t n chandle) = CascadingHandlerWrapper t n chandle"
| "wrapped (Decoding t from_slice tp) = HandlerWrapper t tp (\<lambda>_ w. (Ok (), w))"

lemma handlers_of_fold:
  "handlers_of (fold register_one regs b) t = handlers_of b t @ map wrapped (filter (concerns t) regs)"
proof (induction regs arbitrary: b)
  case (Cons r regs)
  then show ?case by (cases r) (auto simp: handlers_of_register)
qed simp

lemma bus_of_handlers: "handlers_of (bus_of p regs) t = map wrapped (filter (concerns t) regs)"
  by (simp add: bus_of_def handlers_of_fold) (simp add: handlers_of_def with_error_policy_def)

lemma bus_of_policy: "bus_policy (bus_of p regs) = p"
proof -
  have "bus_policy (register_one r b) = bus_policy b" for r :: "('a, 'b) bus_registration" and b
    by (cases r) (simp_all add: bus_register_def bus_register_cascading_def bus_register_decoder_def)
  then have "bus_policy (fold register_one regs b) = bus_policy b" for b :: "('a, 'b) EventBus" by (induction regs arbitrary: b) simp_all
  then show ?thesis by (simp add: bus_of_def with_error_policy_def)
qed

lemma handler_call_wrapped: "concerns (type_id De ev) r \<Longrightarrow> handler_call De (wrapped r) ev w = ask_handler (event_type De ev) r ev w"
  by (cases r) auto

lemma call_all_wrapped:
  "list_all (concerns (type_id De ev)) rs \<Longrightarrow> call_all De (map wrapped rs) ev w = ask_handlers (event_type De ev) rs ev w"
  by (induction rs arbitrary: w) (simp_all add: handler_call_wrapped)

text \<open>
  C31: A bus is a sequence of registrations. Publishing an event asks the handlers registered for its
  type, plain or cascading, in the order of their registrations, and each is given the event itself:
  the downcast inside the bus never fails. Under \<open>CollectAll\<close> every one of them is asked exactly
  once whatever the others answer, and the result collects exactly the failures, in order. Under
  \<open>FailFast\<close> either every handler is asked and succeeds, or the handlers up to the first failing
  one are asked, that one's error is the result and no later handler runs.
\<close>

theorem publish_policies:
  "bus_publish De (bus_of CollectAll regs) ev w =
      (let (answers, w') = ask_handlers (event_type De ev) (filter (concerns (type_id De ev)) regs) ev w
       in (collected (event_type De ev) (errors_of answers), w'))
    \<and> (bus_publish De (bus_of FailFast regs) ev w = (Ok (), snd (ask_handlers (event_type De ev) (filter (concerns (type_id De ev)) regs) ev w))
        \<and> list_all is_ok (fst (ask_handlers (event_type De ev) (filter (concerns (type_id De ev)) regs) ev w))
      \<or> (\<exists>pre r post e. filter (concerns (type_id De ev)) regs = pre @ r # post
           \<and> list_all is_ok (fst (ask_handlers (event_type De ev) pre ev w))
           \<and> bus_publish De (bus_of FailFast regs) ev w = ask_handler (event_type De ev) r ev (snd (ask_handlers (event_type De ev) pre ev w))
           \<and> fst (bus_publish De (bus_of FailFast regs) ev w) = Err e))"
proof (rule conjI)
  let ?rs = "filter (concerns (type_id De ev)) regs" and ?l = "event_type De ev"
  have all: "list_all (concerns (type_id De ev)) ?rs" by (simp add: list_all_iff)
  note loop = bus_publish_loop [of De "bus_of _ regs" ev w, unfolded bus_of_handlers bus_of_policy]
  show "bus_publish De (bus_of CollectAll regs) ev w =
      (let (answers, w') = ask_handlers ?l ?rs ev w in (collected ?l (errors_of answers), w'))"
    by (simp add: loop publish_loop_collect call_all_wrapped [OF all] split_beta)
  from publish_loop_fail_fast [of De ?l ev "map wrapped ?rs" w]
  show "bus_publish De (bus_of FailFast regs) ev w = (Ok (), snd (ask_handlers ?l ?rs ev w)) \<and> list_all is_ok (fst (ask_handlers ?l ?rs ev w))
      \<or> (\<exists>pre r post e. ?rs = pre @ r # post \<and> list_all is_ok (fst (ask_handlers ?l pre ev w))
           \<and> bus_publish De (bus_of FailFast regs) ev w = ask_handler ?l r ev (snd (ask_handlers ?l pre ev w))
           \<and> fst (bus_publish De (bus_of FailFast regs) ev w) = Err e)"
    unfolding loop [symmetric] call_all_wrapped [OF all]
  proof (elim disjE exE conjE)
    fix pre h post e
    assume s: "map wrapped ?rs = pre @ h # post" and ok: "list_all is_ok (fst (call_all De pre ev w))"
      and p: "bus_publish De (bus_of FailFast regs) ev w = handler_call De h ev (snd (call_all De pre ev w))"
        "fst (bus_publish De (bus_of FailFast regs) ev w) = Err e"
    from s obtain xs r ys where x: "?rs = xs @ r # ys" "pre = map wrapped xs" "h = wrapped r"
      by (auto simp: map_eq_append_conv map_eq_Cons_conv Cons_eq_map_conv)
    have c: "list_all (concerns (type_id De ev)) xs" "concerns (type_id De ev) r" using all unfolding x(1) by simp_all
    show ?thesis using ok p x c by (intro disjI2 exI [of _ xs] exI [of _ r] exI [of _ ys] exI [of _ e])
        (simp add: call_all_wrapped handler_call_wrapped)
  qed simp
qed

text \<open>
  \<open>publish_trusted_bytes\<close> mirrors \<open>publish\<close>: once the payload is decoded, the same handlers run
  in the same order with the same effects, and the results agree, except that an aggregate of
  several failures is labelled \<open><erased>\<close> instead of by the type of the event; under \<open>FailFast\<close>
  they agree always. An unknown topic is dropped, an undecodable payload is an error and calls
  no handler.
\<close>

theorem trusted_bytes_mirror_publish:
  assumes "built De b"
  shows "case dm_get (bus_decoders b) tp of
      None \<Rightarrow> publish_trusted_bytes De b tp pl w = (Ok (), w)
    | Some (t, d) \<Rightarrow>
        (case d pl of
           Inl e \<Rightarrow> publish_trusted_bytes De b tp pl w = (Err (DecodeError tp e), w)
         | Inr ev \<Rightarrow> snd (publish_trusted_bytes De b tp pl w) = snd (bus_publish De b ev w)
             \<and> (fst (publish_trusted_bytes De b tp pl w) = fst (bus_publish De b ev w)
                \<or> bus_policy b = CollectAll \<and> (\<exists>es. 2 \<le> length es
                     \<and> fst (bus_publish De b ev w) = Err (HandlerErrors (event_type De ev) es)
                     \<and> fst (publish_trusted_bytes De b tp pl w) = Err (HandlerErrors ''<erased>'' es))))"
proof (cases "dm_get (bus_decoders b) tp")
  case None
  then show ?thesis by (simp add: publish_trusted_bytes_def)
next
  case (Some td)
  obtain t d where td: "td = (t, d)" by fastforce
  note get = Some [unfolded td]
  show ?thesis
  proof (cases "d pl")
    case (Inl e)
    then show ?thesis using get by (simp add: publish_trusted_bytes_def)
  next
    case (Inr ev)
    have "type_id De ev = t" using built_decodes [OF assms get Inr] .
    then show ?thesis
      using get Inr fail_fast_label [of De "''<erased>''" ev "handlers_of b t" w "event_type De ev"]
      unfolding trusted_bytes_loop [OF get Inr] bus_publish_loop
      by (cases "bus_policy b"; cases "errors_of (fst (call_all De (handlers_of b t) ev w))")
        (auto simp: publish_loop_collect collected_def split: list.split)
  qed
qed

text \<open>
  When the handlers of an event have different names, dispatching a payload to each of
  \<open>handler_names_for_topic\<close> in turn calls every handler exactly once, in registration order, and
  reports each handler's own outcome.
\<close>

theorem per_handler_dispatch_complete:
  assumes "dm_get (bus_decoders b) tp = Some (t, d)" and "d pl = Ok ev"
    and "distinct (handler_names_for_topic b tp)"
  shows "dispatch_each De b tp pl (handler_names_for_topic b tp) w = call_all De (handlers_of b t) ev w"
  using dispatch_each_handlers [OF assms(1,2) _ order_refl] assms(3) by (simp add: names_handlers [OF assms(1)])

text \<open>
  The name of a handler is the name of its Rust type, so two handlers of the same type share
  it: a handler registered after another one of its type is never reached by
  \<open>dispatch_trusted_bytes_to_handler\<close>, under any name; it can be replaced by any other handler of
  that type without changing the outcome of a dispatch.
\<close>

theorem dispatch_shadows_same_type:
  assumes "handlers_of b t = pre @ h1 # mid @ h2 # post" and "name h2 = name h1" and "name h3 = name h1"
    and "dm_get (bus_decoders b) tp = Some (t, d)"
  shows "dispatch_trusted_bytes_to_handler De
      (b\<lparr>bus_handlers := dm_insert t (pre @ h1 # mid @ h3 # post) (bus_handlers b)\<rparr>) tp pl n w
    = dispatch_trusted_bytes_to_handler De b tp pl n w"
proof (cases "d pl")
  case (Inl e)
  then show ?thesis using assms(4) by (simp add: dispatch_trusted_bytes_to_handler_def)
next
  case (Inr ev)
  let ?b = "b\<lparr>bus_handlers := dm_insert t (pre @ h1 # mid @ h3 # post) (bus_handlers b)\<rparr>"
  have "find (\<lambda>h. name h = n) (pre @ h1 # mid @ h3 # post) = find (\<lambda>h. name h = n) (pre @ h1 # mid @ h2 # post)"
    using assms(2,3) by (induction pre) (auto, induction mid, auto)
  moreover have "handlers_of ?b t = pre @ h1 # mid @ h3 # post" by (simp add: handlers_of_def)
  ultimately show ?thesis
    using assms(1,4) dispatch_handler [of b tp t d pl ev De n w] dispatch_handler [of ?b tp t d pl ev De n w] Inr by simp
qed

text \<open>A concrete bus: an event is its type and a number; the world is the list of what was seen.\<close>

definition toy_event :: "(nat \<times> nat) DomainEvent" where
  "toy_event = \<lparr>type_id = fst, event_type = (\<lambda>_. ''Placed''), occurred_at = (\<lambda>_. 0), event_aggregate_id = (\<lambda>_. ''1'')\<rparr>"

definition toy_handler :: "string \<Rightarrow> nat \<times> nat \<Rightarrow> (string list, string, unit) op" where
  "toy_handler n ev w = (if snd ev = 0 then (Err ''refused'', w @ [n]) else (Ok (), w @ [n]))"

definition toy_decoder :: "bytes \<Rightarrow> string + nat \<times> nat" where
  "toy_decoder pl = (case pl of [k] \<Rightarrow> Ok (7, k) | _ \<Rightarrow> Err ''EOF'')"

definition toy_bus :: "PublishErrorPolicy \<Rightarrow> (string list, nat \<times> nat) EventBus" where
  "toy_bus p = bus_register_decoder 7 toy_decoder ''orders'' (bus_register 7 ''Projector'' (toy_handler ''p'')
     (bus_register 7 ''Mailer'' (toy_handler ''m'') (with_error_policy p)))"

lemma toy_bus_built: "built toy_event (toy_bus p)"
  unfolding toy_bus_def
  by (intro built.intros) (auto simp: toy_decoder_def toy_event_def split: list.splits)

lemma toy_handlers: "handlers_of (toy_bus p) 7 =
    [HandlerWrapper 7 ''Mailer'' (toy_handler ''m''), HandlerWrapper 7 ''Projector'' (toy_handler ''p'')]"
  by (simp add: toy_bus_def handlers_of_register) (simp add: handlers_of_def with_error_policy_def)

lemma toy_sel: "bus_policy (toy_bus p) = p" "type_id toy_event = fst"
  by (simp_all add: toy_bus_def toy_event_def bus_register_decoder_def bus_register_def with_error_policy_def)

lemma toy_decoders: "dm_get (bus_decoders (toy_bus p)) ''orders'' = Some (7, toy_decoder)"
  by (simp add: toy_bus_def bus_register_decoder_def)

theorem trusted_bytes_mirror_publish_witness:
  "snd (publish_trusted_bytes toy_event (toy_bus FailFast) ''orders'' [3] [])
     = snd (bus_publish toy_event (toy_bus FailFast) (7, 3) [])"
  using trusted_bytes_mirror_publish [OF toy_bus_built, of FailFast "''orders''" "[3]" "[]"]
  by (simp add: toy_decoders toy_decoder_def)

theorem per_handler_dispatch_complete_witness:
  "dispatch_each toy_event (toy_bus FailFast) ''orders'' [0] (handler_names_for_topic (toy_bus FailFast) ''orders'') []
     = call_all toy_event (handlers_of (toy_bus FailFast) 7) (7, 0) []"
  by (rule per_handler_dispatch_complete [OF toy_decoders])
    (simp_all add: toy_decoder_def names_handlers [OF toy_decoders] toy_handlers)

theorem dispatch_shadows_same_type_witness:
  "let b = bus_register 7 ''Mailer'' (toy_handler ''second'') (toy_bus FailFast)
   in dispatch_trusted_bytes_to_handler toy_event b ''orders'' [1] ''Mailer'' []
     = dispatch_trusted_bytes_to_handler toy_event (b\<lparr>bus_handlers := dm_insert 7
          ([] @ HandlerWrapper 7 ''Mailer'' (toy_handler ''m'') # [HandlerWrapper 7 ''Projector'' (toy_handler ''p'')]
             @ HandlerWrapper 7 ''Mailer'' (toy_handler ''other'') # []) (bus_handlers b)\<rparr>) ''orders'' [1] ''Mailer'' []"
  unfolding Let_def
  by (rule dispatch_shadows_same_type [symmetric, where d = toy_decoder and ?h2.0 = "HandlerWrapper 7 ''Mailer'' (toy_handler ''second'')"])
    (simp_all add: handlers_of_register toy_handlers, simp add: bus_register_def toy_decoders)

end
