(* ===== verification/Integration.thy ===== *)
theory Integration
  imports Event_Bus "HOL-Library.Word"
begin

text \<open>
  \<open>crates/pharos-app/src/integration_event.rs\<close>, \<open>serialization.rs\<close>, and \<open>upcast.rs\<close>:
  the envelope of an event that leaves the process, its JSON serializer, and the registry of JSON upcasters with the codec that steps an old payload
  forward version by version. A schema version is a \<open>u32\<close>, kept at its width.
\<close>

section \<open>Integration events\<close>

type_synonym u32 = "32 word"

record 'p IntegrationEvent =
  ie_event_id :: uuid
  ie_event_type :: string
  ie_schema_version :: u32
  ie_occurred_at :: instant
  ie_aggregate_id :: "string option"
  ie_correlation_id :: "string option"
  ie_causation_id :: "string option"
  ie_source :: string
  ie_tenant_id :: "string option"
  ie_trace_id :: "string option"
  ie_payload :: 'p
  ie_metadata :: "(string, string) dashmap"

definition IntegrationEvent_new :: "uuid \<Rightarrow> instant \<Rightarrow> string \<Rightarrow> u32 \<Rightarrow> string \<Rightarrow> 'p \<Rightarrow> 'p IntegrationEvent" where
  "IntegrationEvent_new fresh_id now ty sv src p =
     \<lparr>ie_event_id = fresh_id, ie_event_type = ty, ie_schema_version = sv, ie_occurred_at = now,
      ie_aggregate_id = None, ie_correlation_id = None, ie_causation_id = None, ie_source = src,
      ie_tenant_id = None, ie_trace_id = None, ie_payload = p, ie_metadata = []\<rparr>"

definition with_occurred_at :: "instant \<Rightarrow> 'p IntegrationEvent \<Rightarrow> 'p IntegrationEvent" where
  "with_occurred_at t ev = ev\<lparr>ie_occurred_at := t\<rparr>"

definition with_aggregate_id :: "string \<Rightarrow> 'p IntegrationEvent \<Rightarrow> 'p IntegrationEvent" where
  "with_aggregate_id i ev = ev\<lparr>ie_aggregate_id := Some i\<rparr>"

definition with_correlation_id :: "string \<Rightarrow> 'p IntegrationEvent \<Rightarrow> 'p IntegrationEvent" where
  "with_correlation_id i ev = ev\<lparr>ie_correlation_id := Some i\<rparr>"

definition with_causation_id :: "string \<Rightarrow> 'p IntegrationEvent \<Rightarrow> 'p IntegrationEvent" where
  "with_causation_id i ev = ev\<lparr>ie_causation_id := Some i\<rparr>"

definition with_tenant_id :: "string \<Rightarrow> 'p IntegrationEvent \<Rightarrow> 'p IntegrationEvent" where
  "with_tenant_id i ev = ev\<lparr>ie_tenant_id := Some i\<rparr>"

definition with_trace_id :: "string \<Rightarrow> 'p IntegrationEvent \<Rightarrow> 'p IntegrationEvent" where
  "with_trace_id i ev = ev\<lparr>ie_trace_id := Some i\<rparr>"

definition with_metadata :: "string \<Rightarrow> string \<Rightarrow> 'p IntegrationEvent \<Rightarrow> 'p IntegrationEvent" where
  "with_metadata k v ev = ev\<lparr>ie_metadata := dm_insert k v (ie_metadata ev)\<rparr>"

definition from_domain_event ::
    "'e DomainEvent \<Rightarrow> uuid \<Rightarrow> instant \<Rightarrow> 'e \<Rightarrow> u32 \<Rightarrow> string \<Rightarrow> 'p \<Rightarrow> 'p IntegrationEvent" where
  "from_domain_event De fresh_id now e sv src p =
     with_aggregate_id (event_aggregate_id De e) (with_occurred_at (occurred_at De e)
       (IntegrationEvent_new fresh_id now (event_type De e) sv src p))"

text \<open>\<open>Uuid::to_string\<close> is the parameter \<open>uuid_text\<close>.\<close>

definition caused_by :: "(uuid \<Rightarrow> string) \<Rightarrow> 'q IntegrationEvent \<Rightarrow> 'p IntegrationEvent \<Rightarrow> 'p IntegrationEvent" where
  "caused_by uuid_text cause ev =
     (let ev1 = ev\<lparr>ie_causation_id := Some (uuid_text (ie_event_id cause))\<rparr>
      in ev1\<lparr>ie_correlation_id := Some (case ie_correlation_id cause of
               Some c \<Rightarrow> c | None \<Rightarrow> uuid_text (ie_event_id cause))\<rparr>)"

section \<open>Serialised events and the JSON interface\<close>

record SerializedEvent =
  se_content_type :: string
  se_payload :: bytes

definition SerializedEvent_new :: "string \<Rightarrow> bytes \<Rightarrow> SerializedEvent" where
  "SerializedEvent_new ct pl = \<lparr>se_content_type = ct, se_payload = pl\<rparr>"

text \<open>
  The calls into \<open>serde_json\<close>, for JSON values \<open>'v\<close> and payloads \<open>'p\<close>: parsing and printing of
  values and of envelopes, the views of a value, and \<open>Value::Object\<close> and \<open>Value::from\<close>. An error
  of the library is represented by its text.
\<close>

record ('v, 'p) Serde =
  value_from_slice :: "bytes \<Rightarrow> string + 'v"
  event_from_slice :: "bytes \<Rightarrow> string + 'p IntegrationEvent"
  event_to_vec :: "'p IntegrationEvent \<Rightarrow> string + bytes"
  from_value :: "'v \<Rightarrow> string + 'p IntegrationEvent"
  as_object :: "'v \<Rightarrow> (string, 'v) dashmap option"
  object_value :: "(string, 'v) dashmap \<Rightarrow> 'v"
  as_str :: "'v \<Rightarrow> string option"
  as_u64 :: "'v \<Rightarrow> nat option"
  value_of_u32 :: "u32 \<Rightarrow> 'v"

datatype EventSerializationError = SerializationJson string

definition json_serialize :: "('v, 'p) Serde \<Rightarrow> 'p IntegrationEvent \<Rightarrow> EventSerializationError + SerializedEvent" where
  "json_serialize J ev = (case event_to_vec J ev of
       Err e \<Rightarrow> Err (SerializationJson e)
     | Ok pl \<Rightarrow> Ok (SerializedEvent_new ''application/json'' pl))"

definition json_deserialize :: "('v, 'p) Serde \<Rightarrow> SerializedEvent \<Rightarrow> EventSerializationError + 'p IntegrationEvent" where
  "json_deserialize J wire = (case event_from_slice J (se_payload wire) of
       Err e \<Rightarrow> Err (SerializationJson e) | Ok ev \<Rightarrow> Ok ev)"

section \<open>Upcasters\<close>

datatype UpcastError =
    UpcastJson string
  | MalformedEnvelope
  | VersionOutOfRange nat
  | UnsupportedVersion string u32 u32
  | Transform string u32 string
  | GapInChain string u32 u32

type_synonym 'v UpcastFn = "'v \<Rightarrow> string + 'v"

record 'v JsonUpcasterRegistry =
  upcasters :: "(string \<times> u32, 'v UpcastFn) dashmap"
  max_known_versions :: "(string, u32) dashmap"

definition registry_new :: "'v JsonUpcasterRegistry" where
  "registry_new = \<lparr>upcasters = [], max_known_versions = []\<rparr>"

text \<open>
  \<open>from_version + 1\<close> is the wrapping addition of a build without overflow checks; with them the
  registration of an upcaster from \<open>u32::MAX\<close> panics.
\<close>

definition with_upcaster ::
    "string \<Rightarrow> u32 \<Rightarrow> 'v UpcastFn \<Rightarrow> 'v JsonUpcasterRegistry \<Rightarrow> 'v JsonUpcasterRegistry" where
  "with_upcaster ty from_version up R =
     (let reaches = from_version + 1;
          known = (case dm_get (max_known_versions R) ty of Some m \<Rightarrow> max m reaches | None \<Rightarrow> reaches)
      in R\<lparr>max_known_versions := dm_insert ty known (max_known_versions R),
           upcasters := dm_insert (ty, from_version) up (upcasters R)\<rparr>)"

definition registry_len :: "'v JsonUpcasterRegistry \<Rightarrow> nat" where
  "registry_len R = length (upcasters R)"

definition registry_is_empty :: "'v JsonUpcasterRegistry \<Rightarrow> bool" where
  "registry_is_empty R = (upcasters R = [])"

definition registry_get :: "'v JsonUpcasterRegistry \<Rightarrow> string \<Rightarrow> u32 \<Rightarrow> 'v UpcastFn option" where
  "registry_get R ty from_version = dm_get (upcasters R) (ty, from_version)"

definition max_known_version :: "'v JsonUpcasterRegistry \<Rightarrow> string \<Rightarrow> u32 option" where
  "max_known_version R ty = dm_get (max_known_versions R) ty"

definition codec_encode :: "('v, 'p) Serde \<Rightarrow> 'p IntegrationEvent \<Rightarrow> UpcastError + SerializedEvent" where
  "codec_encode J ev = (case json_serialize J ev of
       Err (SerializationJson e) \<Rightarrow> Err (UpcastJson e) | Ok wire \<Rightarrow> Ok wire)"

text \<open>
  The \<open>while let\<close> loop of \<open>decode\<close>: the members of the envelope and the version it stops at, or the
  error that leaves it; \<open>None\<close> if it runs forever.
\<close>

partial_function (option) upcast_loop ::
    "('v, 'p) Serde \<Rightarrow> 'v JsonUpcasterRegistry \<Rightarrow> string \<Rightarrow> (string, 'v) dashmap \<Rightarrow> u32
     \<Rightarrow> (UpcastError + (string, 'v) dashmap \<times> u32) option" where
  "upcast_loop J R ty obj v = (case registry_get R ty v of
       None \<Rightarrow> Some (Ok (obj, v))
     | Some up \<Rightarrow> (case dm_get obj ''payload'' of
           None \<Rightarrow> Some (Err MalformedEnvelope)
         | Some pl \<Rightarrow> (case up pl of
               Err e \<Rightarrow> Some (Err (Transform ty v e))
             | Ok upgraded \<Rightarrow> upcast_loop J R ty
                 (dm_insert ''schema_version'' (value_of_u32 J (v + 1))
                   (dm_insert ''payload'' upgraded (dm_remove ''payload'' obj))) (v + 1))))"

text \<open>After the loop: a version beyond the chain and a chain with a hole are both refused.\<close>

definition finish_decode ::
    "('v, 'p) Serde \<Rightarrow> 'v JsonUpcasterRegistry \<Rightarrow> string \<Rightarrow> 'v \<Rightarrow> u32 \<Rightarrow> UpcastError + 'p IntegrationEvent" where
  "finish_decode J R ty envelope v =
     (let known = max_known_version R ty;
          result = (case from_value J envelope of Err e \<Rightarrow> Err (UpcastJson e) | Ok ev \<Rightarrow> Ok ev)
      in case known of
           Some known_up_to \<Rightarrow>
             if known_up_to < v then Err (UnsupportedVersion ty v known_up_to)
             else if v < known_up_to then Err (GapInChain ty v known_up_to)
             else result
         | None \<Rightarrow> result)"

definition codec_decode ::
    "('v, 'p) Serde \<Rightarrow> 'v JsonUpcasterRegistry \<Rightarrow> SerializedEvent \<Rightarrow> (UpcastError + 'p IntegrationEvent) option" where
  "codec_decode J R wire = (case value_from_slice J (se_payload wire) of
       Err e \<Rightarrow> Some (Err (UpcastJson e))
     | Ok envelope \<Rightarrow> (case as_object J envelope of
           None \<Rightarrow> Some (Err MalformedEnvelope)
         | Some obj \<Rightarrow> (case Option.bind (dm_get obj ''event_type'') (as_str J) of
               None \<Rightarrow> Some (Err MalformedEnvelope)
             | Some ty \<Rightarrow> (case Option.bind (dm_get obj ''schema_version'') (as_u64 J) of
                   None \<Rightarrow> Some (Err MalformedEnvelope)
                 | Some raw \<Rightarrow>
                     if 2 ^ 32 \<le> raw then Some (Err (VersionOutOfRange raw))
                     else (case upcast_loop J R ty obj (of_nat raw) of
                         None \<Rightarrow> None
                       | Some (Err e) \<Rightarrow> Some (Err e)
                       | Some (Ok (obj', v)) \<Rightarrow> Some (finish_decode J R ty (object_value J obj') v))))))"

section \<open>The loop ends\<close>

lemma unat_closer: "u - v \<noteq> 0 \<Longrightarrow> unat (u - (v + 1)) < unat (u - v)" for u v :: u32
  by (metis (no_types, opaque_lifting) diff_diff_eq diff_less unat_gt_0 unat_minus_one zero_less_one)

lemma upcast_loop_ends:
  assumes "registry_get R ty u = None"
  shows "\<exists>r. upcast_loop J R ty obj v = Some r"
proof (induction "unat (u - v)" arbitrary: obj v rule: less_induct)
  case less
  show ?case
  proof (cases "v = u")
    case True
    then show ?thesis using assms by (simp add: upcast_loop.simps)
  next
    case False
    then have "u - v \<noteq> 0" by simp
    then have "unat (u - (v + 1)) < unat (u - v)" by (rule unat_closer)
    note again = less [OF this]
    show ?thesis
      by (subst upcast_loop.simps) (auto simp: again split: option.split sum.split)
  qed
qed

lemma registry_has_gap:
  assumes "registry_len R < 2 ^ 32"
  shows "\<exists>u. registry_get R ty u = None"
proof (rule ccontr)
  assume "\<not> ?thesis"
  then have "\<forall>u :: u32. (ty, u) \<in> set (map fst (upcasters R))"
    unfolding dm_keys_get by (auto simp: registry_get_def)
  then have "Pair ty ` (UNIV :: u32 set) \<subseteq> set (map fst (upcasters R))" by blast
  then have "card (Pair ty ` (UNIV :: u32 set)) \<le> length (upcasters R)"
    by (metis List.finite_set card_length card_mono dual_order.trans length_map)
  then show False using assms by (simp add: card_image inj_on_def card_word registry_len_def)
qed

text \<open>
  C20: Decoding always ends, whatever bytes arrive and whatever upcasters are registered, also where
  the version counter wraps around: a registry holds fewer than \<open>2\<^sup>3\<^sup>2\<close> upcasters, so the chain
  of any event type has a version without one.
\<close>

theorem decode_terminates:
  assumes "registry_len R < 2 ^ 32"
  shows "\<exists>r. codec_decode J R wire = Some r"
proof -
  have "upcast_loop J R ty obj v \<noteq> None" for ty obj v
    using registry_has_gap [OF assms] upcast_loop_ends by (metis option.distinct(1))
  then have "codec_decode J R wire \<noteq> None"
    by (simp add: codec_decode_def del: not_None_eq split: option.split sum.split)
  then show ?thesis by simp
qed

section \<open>What decoding gives\<close>

text \<open>
  The reference: upcasters as a partial function of the version, applied one after the other to
  the payload. It stops with the version that has none, or with the version and the error of the
  first that refuses.
\<close>

fun run_chain :: "(nat \<Rightarrow> 'v UpcastFn option) \<Rightarrow> nat list \<Rightarrow> 'v \<Rightarrow> (nat \<times> string option) + 'v" where
  "run_chain g [] p = Ok p"
| "run_chain g (v # vs) p = (case g v of
       None \<Rightarrow> Err (v, None)
     | Some up \<Rightarrow> (case up p of Err e \<Rightarrow> Err (v, Some e) | Ok p' \<Rightarrow> run_chain g vs p'))"

lemma upcast_loop_chain:
  assumes "\<And>v. registry_get R ty v = g (unat v)" and "g K = None" and "n \<le> K" and "K < 2 ^ 32"
    and "dm_get obj ''payload'' = Some p"
  shows "case run_chain g [n..<K] p of
      Err (v, None) \<Rightarrow> v < K \<and> (\<exists>obj'. upcast_loop J R ty obj (of_nat n) = Some (Ok (obj', of_nat v)))
    | Err (v, Some e) \<Rightarrow> upcast_loop J R ty obj (of_nat n) = Some (Err (Transform ty (of_nat v) e))
    | Ok p' \<Rightarrow> (\<exists>obj'. upcast_loop J R ty obj (of_nat n) = Some (Ok (obj', of_nat K))
        \<and> dm_get obj' = (if n = K then dm_get obj
            else (dm_get obj)(''payload'' \<mapsto> p', ''schema_version'' \<mapsto> value_of_u32 J (of_nat K))))"
  using assms(3,5)
proof (induction "K - n" arbitrary: n obj p)
  case 0
  have "registry_get R ty (of_nat n) = None" using 0 assms(1,2,4) by (simp add: unat_of_nat)
  then show ?case using 0 by (simp add: upcast_loop.simps)
next
  case (Suc d)
  then have n: "n < K" "[n..<K] = n # [Suc n..<K]" by (simp_all add: upt_conv_Cons)
  have g: "registry_get R ty (of_nat n) = g n" using n assms(1,4) by (simp add: unat_of_nat)
  show ?case
  proof (cases "g n")
    case None
    then show ?thesis using g n by (simp add: upcast_loop.simps)
  next
    case (Some up)
    show ?thesis
    proof (cases "up p")
      case (Inl e)
      then show ?thesis using g n Some Suc.prems(2) by (simp add: upcast_loop.simps)
    next
      case (Inr p')
      let ?obj = "dm_insert ''schema_version'' (value_of_u32 J (of_nat (Suc n)))
                   (dm_insert ''payload'' p' (dm_remove ''payload'' obj))"
      have step: "upcast_loop J R ty obj (of_nat n) = upcast_loop J R ty ?obj (of_nat (Suc n))"
        using g Some Inr Suc.prems(2) by (simp add: upcast_loop.simps [of J R ty obj "of_nat n"] add.commute)
      have m: "dm_get ?obj = (dm_get obj)(''payload'' \<mapsto> p', ''schema_version'' \<mapsto> value_of_u32 J (of_nat (Suc n)))"
        by (auto simp: fun_eq_iff)
      have pl: "dm_get ?obj ''payload'' = Some p'" by simp
      have chain: "run_chain g [n..<K] p = run_chain g [Suc n..<K] p'" using n Some Inr by simp
      have at_K: "q = p'" if "Suc n = K" "run_chain g [Suc n..<K] p' = Ok q" for q using that by simp
      have over: "(dm_get ?obj)(''payload'' \<mapsto> q, ''schema_version'' \<mapsto> x) = (dm_get obj)(''payload'' \<mapsto> q, ''schema_version'' \<mapsto> x)"
        for q x unfolding m by (simp add: fun_eq_iff)
      have "d = K - Suc n" "Suc n \<le> K" using Suc.hyps(2) n by simp_all
      note IH = Suc.hyps(1) [OF this pl, unfolded over, folded step]
      show ?thesis
      proof (cases "run_chain g [Suc n..<K] p'")
        case (Inl e)
        then show ?thesis using IH unfolding chain by (auto split: option.split)
      next
        case (Inr q)
        then obtain obj' where "upcast_loop J R ty obj (of_nat n) = Some (Ok (obj', of_nat K))"
          "dm_get obj' = (if Suc n = K then dm_get ?obj
             else (dm_get obj)(''payload'' \<mapsto> q, ''schema_version'' \<mapsto> value_of_u32 J (of_nat K)))"
          using IH by (auto simp del: dm_get_insert of_nat_Suc)
        then show ?thesis unfolding chain Inr m using at_K [OF _ Inr] n(1) by auto
      qed
    qed
  qed
qed

text \<open>A registry as the sequence of its registrations, and what it should answer.\<close>

type_synonym 'v registration = "string \<times> u32 \<times> 'v UpcastFn"

definition register_all :: "'v registration list \<Rightarrow> 'v JsonUpcasterRegistry" where
  "register_all regs = fold (\<lambda>(ty, v, up). with_upcaster ty v up) regs registry_new"

definition last_registered :: "'v registration list \<Rightarrow> string \<Rightarrow> nat \<Rightarrow> 'v UpcastFn option" where
  "last_registered regs ty n = map_of (rev (map (\<lambda>(t, v, up). ((t, unat v), up)) regs)) (ty, n)"

definition reached :: "'v registration list \<Rightarrow> string \<Rightarrow> nat list" where
  "reached regs ty = [unat v + 1. (t, v, up) \<leftarrow> regs, t = ty]"

definition known_version :: "'v registration list \<Rightarrow> string \<Rightarrow> nat option" where
  "known_version regs ty = (if reached regs ty = [] then None else Some (Max (set (reached regs ty))))"

lemma reached_append: "reached (regs @ [(t, v, up)]) ty = reached regs ty @ (if t = ty then [unat v + 1] else [])"
  by (simp add: reached_def)

lemma in_reached: "n \<in> set (reached regs ty) \<longleftrightarrow> (\<exists>v up. (ty, v, up) \<in> set regs \<and> n = unat v + 1)"
  by (force simp: reached_def)

definition no_wrap :: "'v registration list \<Rightarrow> bool" where
  "no_wrap regs \<longleftrightarrow> list_all (\<lambda>(ty, v, up). v + 1 \<noteq> 0) regs"

lemma register_all_snoc: "register_all (regs @ [(ty, v, up)]) = with_upcaster ty v up (register_all regs)"
  by (simp add: register_all_def)

lemma registry_get_register: "registry_get (register_all regs) ty v = last_registered regs ty (unat v)"
proof (induction regs rule: rev_induct)
  case Nil
  then show ?case by (simp add: register_all_def registry_new_def registry_get_def last_registered_def)
next
  case (snoc x regs)
  obtain t u up where "x = (t, u, up)" by (metis prod.exhaust)
  then show ?case using snoc
    by (simp add: register_all_snoc with_upcaster_def Let_def registry_get_def last_registered_def word_unat_eq_iff)
qed

lemma unat_plus_one: "v + 1 \<noteq> 0 \<Longrightarrow> unat (v + 1) = unat v + 1" for v :: u32
  by (metis Suc_eq_plus1 add.commute unatSuc)

lemma max_known_register:
  assumes "no_wrap regs"
  shows "map_option unat (max_known_version (register_all regs) ty) = known_version regs ty"
  using assms
proof (induction regs rule: rev_induct)
  case Nil
  then show ?case by (simp add: register_all_def registry_new_def max_known_version_def known_version_def reached_def)
next
  case (snoc x regs)
  obtain t u up where x: "x = (t, u, up)" by (metis prod.exhaust)
  have u: "unat (u + 1) = unat u + 1" using snoc.prems x unat_plus_one by (simp add: no_wrap_def)
  have IH: "map_option unat (max_known_version (register_all regs) ty) = known_version regs ty"
    using snoc by (simp add: no_wrap_def)
  have mx: "unat (max a b) = max (unat a) (unat b)" for a b :: u32
    by (simp add: max_def word_le_nat_alt)
  show ?case
  proof (cases "t = ty")
    case False
    then show ?thesis using IH x
      by (simp add: register_all_snoc with_upcaster_def Let_def max_known_version_def known_version_def reached_append)
  next
    case True
    then have "max_known_version (register_all (regs @ [x])) ty
        = Some (case max_known_version (register_all regs) ty of Some m \<Rightarrow> max m (u + 1) | None \<Rightarrow> u + 1)"
      using x by (simp add: register_all_snoc with_upcaster_def Let_def max_known_version_def)
    moreover have "known_version (regs @ [x]) ty
        = Some (case known_version regs ty of Some m \<Rightarrow> max m (unat u + 1) | None \<Rightarrow> unat u + 1)"
      using x True by (simp add: known_version_def reached_append max.commute)
    ultimately show ?thesis using IH [symmetric] u mx by (cases "max_known_version (register_all regs) ty") auto
  qed
qed

lemma known_version_None: "known_version regs ty = None \<Longrightarrow> last_registered regs ty n = None"
  by (auto simp: known_version_def reached_def last_registered_def map_of_eq_None_iff split: if_splits)

lemma known_version_bound:
  assumes "known_version regs ty = Some K" and "last_registered regs ty n \<noteq> None"
  shows "n < K"
proof -
  from assms(2) obtain v up where "(ty, v, up) \<in> set regs" "n = unat v"
    by (auto simp: last_registered_def map_of_eq_None_iff dest!: map_of_SomeD)
  then have "n + 1 \<in> set (reached regs ty)" by (auto simp: in_reached)
  moreover have "K = Max (set (reached regs ty))" using assms(1) by (simp add: known_version_def split: if_splits)
  ultimately have "n + 1 \<le> K" using Max_ge [OF finite_set] by blast
  then show ?thesis by simp
qed

lemma codec_decode_object:
  assumes "value_from_slice J (se_payload wire) = Ok e" and "as_object J e = Some obj"
    and "Option.bind (dm_get obj ''event_type'') (as_str J) = Some ty"
    and "Option.bind (dm_get obj ''schema_version'') (as_u64 J) = Some n" and "n < 2 ^ 32"
  shows "codec_decode J R wire = (case upcast_loop J R ty obj (of_nat n) of
      None \<Rightarrow> None | Some (Err e) \<Rightarrow> Some (Err e)
    | Some (Ok (obj', v)) \<Rightarrow> Some (finish_decode J R ty (object_value J obj') v))"
  using assms by (simp add: codec_decode_def)

definition lift_json :: "string + 'p IntegrationEvent \<Rightarrow> UpcastError + 'p IntegrationEvent" where
  "lift_json = map_sum UpcastJson id"

lemma lift_json_Ok: "lift_json x = Ok ev \<longleftrightarrow> x = Ok ev"
  by (cases x) (simp_all add: lift_json_def)

lemma finish_decode_eq:
  "finish_decode J R ty e v = (case max_known_version R ty of
       Some k \<Rightarrow> if k < v then Err (UnsupportedVersion ty v k) else if v < k then Err (GapInChain ty v k)
         else lift_json (from_value J e)
     | None \<Rightarrow> lift_json (from_value J e))"
  by (auto simp: finish_decode_def lift_json_def Let_def split: option.splits sum.splits)

text \<open>
  C19: Decoding an envelope of version \<open>n\<close> with payload \<open>p\<close> against any sequence of registrations
  (none of them from \<open>u32::MAX\<close>). A type without upcasters is deserialised as it is. A version
  beyond the highest reached version \<open>K\<close> is refused as unsupported. Otherwise the upcasters of
  versions \<open>n\<close> to \<open>K - 1\<close>, the last registered of each, are applied to the payload in order:
  the first that refuses is reported with its version, the first that is missing is reported as a
  gap, and when all of them accept, what is deserialised is the envelope with the final payload
  and version \<open>K\<close>, its other members untouched.
\<close>

theorem decode_runs_chain:
  assumes "no_wrap regs" and "R = register_all regs"
    and "value_from_slice J (se_payload wire) = Ok e" and "as_object J e = Some obj"
    and "Option.bind (dm_get obj ''event_type'') (as_str J) = Some ty"
    and "Option.bind (dm_get obj ''schema_version'') (as_u64 J) = Some n" and "n < 2 ^ 32"
    and "dm_get obj ''payload'' = Some p"
  shows "case known_version regs ty of
      None \<Rightarrow> codec_decode J R wire = Some (lift_json (from_value J (object_value J obj)))
    | Some K \<Rightarrow>
        if K < n then codec_decode J R wire = Some (Err (UnsupportedVersion ty (of_nat n) (of_nat K)))
        else (case run_chain (last_registered regs ty) [n..<K] p of
            Err (v, Some x) \<Rightarrow> codec_decode J R wire = Some (Err (Transform ty (of_nat v) x))
          | Err (v, None) \<Rightarrow> codec_decode J R wire = Some (Err (GapInChain ty (of_nat v) (of_nat K)))
          | Ok p' \<Rightarrow> (\<exists>obj'. codec_decode J R wire = Some (lift_json (from_value J (object_value J obj')))
              \<and> dm_get obj' = (if n = K then dm_get obj
                  else (dm_get obj)(''payload'' \<mapsto> p', ''schema_version'' \<mapsto> value_of_u32 J (of_nat K)))))"
proof -
  note dec = codec_decode_object [OF assms(3-7), of R]
  have get: "registry_get R ty v = last_registered regs ty (unat v)" for v by (simp add: assms(2) registry_get_register)
  have mx: "map_option unat (max_known_version R ty) = known_version regs ty"
    using max_known_register [OF assms(1)] by (simp add: assms(2))
  have n: "unat (of_nat n :: u32) = n" using assms(7) by (simp add: unat_of_nat)
  show ?thesis
  proof (cases "known_version regs ty")
    case None
    then have "registry_get R ty (of_nat n) = None" "max_known_version R ty = None"
      using get mx known_version_None by auto
    then show ?thesis using None dec by (simp add: upcast_loop.simps finish_decode_eq)
  next
    case (Some K)
    then obtain k where k: "max_known_version R ty = Some k" "unat k = K" using mx by auto
    then have K: "K < 2 ^ 32" "of_nat K = k" using unsigned_less [of k] by auto
    have gK: "last_registered regs ty m = None" if "K \<le> m" for m
      using that known_version_bound [OF Some] by (metis not_le)
    have lt: "(of_nat a :: u32) < of_nat b \<longleftrightarrow> a < b" if "a < 2 ^ 32" "b < 2 ^ 32" for a b
      using that by (simp add: word_less_nat_alt unat_of_nat)
    show ?thesis
    proof (cases "K < n")
      case True
      have "registry_get R ty (of_nat n) = None" using get n gK True by simp
      then show ?thesis using Some True dec k K lt [of K n] assms(7)
        by (simp add: upcast_loop.simps finish_decode_eq)
    next
      case False
      have "n \<le> K" using False by simp
      note chain = upcast_loop_chain [of R ty "last_registered regs ty" K n obj p J, OF get gK [OF order_refl] this K(1) assms(8)]
      have less: "of_nat v < k" "\<not> k < of_nat v" "of_nat v \<noteq> k" if "v < K" for v
        using that lt [of v K] K by auto
      show ?thesis
        using chain Some False dec k(1) K(2) less
        by (auto simp: finish_decode_eq split: sum.splits option.splits)
    qed
  qed
qed

section \<open>Decoded events are current\<close>

text \<open>
  What the codec relies on of \<open>serde_json\<close> and of the derived \<open>Deserialize\<close> of the envelope: a
  \<open>u32\<close> written as a JSON number is read back, and an envelope that deserialises has its version
  and type from the members of those names.
\<close>

definition serde_laws :: "('v, 'p) Serde \<Rightarrow> bool" where
  "serde_laws J \<longleftrightarrow> (\<forall>v. as_u64 J (value_of_u32 J v) = Some (unat v))
     \<and> (\<forall>m ev. from_value J (object_value J m) = Ok ev \<longrightarrow>
          Option.bind (dm_get m ''schema_version'') (as_u64 J) = Some (unat (ie_schema_version ev))
          \<and> Option.bind (dm_get m ''event_type'') (as_str J) = Some (ie_event_type ev))"

lemma upcast_loop_members:
  assumes "serde_laws J" and "registry_get R ty u = None"
    and "Option.bind (dm_get obj ''schema_version'') (as_u64 J) = Some (unat v)"
    and "upcast_loop J R ty obj v = Some (Ok (obj', v'))"
  shows "Option.bind (dm_get obj' ''schema_version'') (as_u64 J) = Some (unat v')
    \<and> dm_get obj' ''event_type'' = dm_get obj ''event_type'' \<and> registry_get R ty v' = None"
  using assms(3,4)
proof (induction "unat (u - v)" arbitrary: obj v rule: less_induct)
  case less
  show ?case
  proof (cases "registry_get R ty v")
    case None
    then show ?thesis using less.prems by (simp add: upcast_loop.simps)
  next
    case (Some up)
    with assms(2) have "u - v \<noteq> 0" by auto
    then have smaller: "unat (u - (v + 1)) < unat (u - v)" by (rule unat_closer)
    from Some less.prems(2) obtain p p' where p: "dm_get obj ''payload'' = Some p" "up p = Ok p'"
      by (subst (asm) upcast_loop.simps) (auto split: option.splits sum.splits)
    let ?obj = "dm_insert ''schema_version'' (value_of_u32 J (v + 1)) (dm_insert ''payload'' p' (dm_remove ''payload'' obj))"
    have e: "upcast_loop J R ty ?obj (v + 1) = Some (Ok (obj', v'))"
      using less.prems(2) Some p by (subst (asm) upcast_loop.simps) simp
    have "Option.bind (dm_get ?obj ''schema_version'') (as_u64 J) = Some (unat (v + 1))"
      using assms(1) by (simp add: serde_laws_def)
    from less.hyps [OF smaller this e] show ?thesis by simp
  qed
qed

text \<open>
  C21: A consumer only ever sees the latest shape: an event that decodes is at exactly the highest
  version that the registry knows for its type, and there is no upcaster left that applies to it.
\<close>

theorem decoded_event_is_latest:
  assumes "serde_laws J" and "registry_len R < 2 ^ 32" and "codec_decode J R wire = Some (Ok ev)"
  shows "registry_get R (ie_event_type ev) (ie_schema_version ev) = None
    \<and> max_known_version R (ie_event_type ev) \<in> {None, Some (ie_schema_version ev)}"
proof -
  from assms(3) obtain e obj ty n where d: "value_from_slice J (se_payload wire) = Ok e" "as_object J e = Some obj"
    "Option.bind (dm_get obj ''event_type'') (as_str J) = Some ty"
    "Option.bind (dm_get obj ''schema_version'') (as_u64 J) = Some n" "n < 2 ^ 32"
    by (auto simp: codec_decode_def not_le split: sum.splits option.splits if_splits)
  from assms(3) obtain obj' v where l: "upcast_loop J R ty obj (of_nat n) = Some (Ok (obj', v))"
    and f: "finish_decode J R ty (object_value J obj') v = Ok ev"
    unfolding codec_decode_object [OF d] by (auto split: sum.splits option.splits)
  obtain u where u: "registry_get R ty u = None" using registry_has_gap [OF assms(2)] by blast
  have "Option.bind (dm_get obj ''schema_version'') (as_u64 J) = Some (unat (of_nat n :: u32))"
    using d(4,5) by (simp add: unat_of_nat)
  note m = upcast_loop_members [OF assms(1) u this l]
  have "from_value J (object_value J obj') = Ok ev" and k: "max_known_version R ty \<in> {None, Some v}"
    using f by (auto simp: finish_decode_eq lift_json_Ok not_less split: option.splits if_splits)
  with assms(1) have "Option.bind (dm_get obj' ''schema_version'') (as_u64 J) = Some (unat (ie_schema_version ev))"
    "Option.bind (dm_get obj' ''event_type'') (as_str J) = Some (ie_event_type ev)"
    unfolding serde_laws_def by blast+
  then have "ie_schema_version ev = v" "ie_event_type ev = ty" using m d(3) by (simp_all add: word_unat_eq_iff)
  then show ?thesis using m k by simp
qed

section \<open>Concrete runs\<close>

text \<open>A fragment of JSON, with a parser that finds one fixed envelope of version 1 in any bytes.\<close>

datatype toy_json = JStr string | JNum nat | JObj "(string \<times> toy_json) list"

fun toy_from_value :: "toy_json \<Rightarrow> string + toy_json IntegrationEvent" where
  "toy_from_value (JObj m) = (case (dm_get m ''event_type'', dm_get m ''schema_version'', dm_get m ''payload'') of
       (Some (JStr ty), Some (JNum n), Some p) \<Rightarrow>
         if n < 2 ^ 32 then Ok (IntegrationEvent_new 0 0 ty (of_nat n) ''orders'' p) else Err ''version''
     | _ \<Rightarrow> Err ''members'')"
| "toy_from_value _ = Err ''not an object''"

definition toy_members :: "(string \<times> toy_json) list" where
  "toy_members = [(''event_type'', JStr ''OrderPlaced''), (''schema_version'', JNum 1), (''payload'', JNum 3)]"

definition toy_serde :: "(toy_json, toy_json) Serde" where
  "toy_serde = \<lparr>value_from_slice = (\<lambda>_. Ok (JObj toy_members)), event_from_slice = (\<lambda>_. toy_from_value (JObj toy_members)),
     event_to_vec = (\<lambda>_. Ok []), from_value = toy_from_value,
     as_object = (\<lambda>v. case v of JObj m \<Rightarrow> Some m | _ \<Rightarrow> None), object_value = JObj,
     as_str = (\<lambda>v. case v of JStr s \<Rightarrow> Some s | _ \<Rightarrow> None), as_u64 = (\<lambda>v. case v of JNum n \<Rightarrow> Some n | _ \<Rightarrow> None),
     value_of_u32 = (\<lambda>v. JNum (unat v))\<rparr>"

definition toy_registrations :: "toy_json registration list" where
  "toy_registrations = [(''OrderPlaced'', 1, \<lambda>p. Ok (JObj [(''quantity'', p)])), (''OrderPlaced'', 2, Ok)]"

definition toy_wire :: SerializedEvent where
  "toy_wire = SerializedEvent_new ''application/json'' []"

lemma toy_laws: "serde_laws toy_serde"
  unfolding serde_laws_def
proof (intro conjI allI impI)
  fix v :: u32 show "as_u64 toy_serde (value_of_u32 toy_serde v) = Some (unat v)" by (simp add: toy_serde_def)
next
  fix m ev assume "from_value toy_serde (object_value toy_serde m) = Ok ev"
  then show "Option.bind (dm_get m ''schema_version'') (as_u64 toy_serde) = Some (unat (ie_schema_version ev))"
    "Option.bind (dm_get m ''event_type'') (as_str toy_serde) = Some (ie_event_type ev)"
    by (auto simp: toy_serde_def IntegrationEvent_new_def unat_of_nat split: option.splits toy_json.splits if_splits)
qed

lemma toy_known: "known_version toy_registrations ''OrderPlaced'' = Some 3"
  by (simp add: known_version_def reached_def toy_registrations_def)

lemma toy_len: "registry_len (register_all toy_registrations) < 2 ^ 32"
  by (simp add: registry_len_def register_all_def toy_registrations_def with_upcaster_def registry_new_def dm_insert_def)

theorem decode_terminates_witness: "\<exists>r. codec_decode toy_serde (register_all toy_registrations) toy_wire = Some r"
  using decode_terminates [OF toy_len] .

lemma toy_envelope:
  "value_from_slice toy_serde (se_payload toy_wire) = Ok (JObj toy_members)" "as_object toy_serde (JObj toy_members) = Some toy_members"
  "Option.bind (dm_get toy_members ''event_type'') (as_str toy_serde) = Some ''OrderPlaced''"
  "Option.bind (dm_get toy_members ''schema_version'') (as_u64 toy_serde) = Some 1"
  "dm_get toy_members ''payload'' = Some (JNum 3)"
  by (simp_all add: toy_serde_def toy_members_def dm_get_def)

lemma toy_chain:
  "run_chain (last_registered toy_registrations ''OrderPlaced'') [1..<3] (JNum 3) = Ok (JObj [(''quantity'', JNum 3)])"
  by (simp add: upt_conv_Cons last_registered_def toy_registrations_def)

theorem decode_runs_chain_witness:
  "codec_decode toy_serde (register_all toy_registrations) toy_wire
     = Some (Ok (IntegrationEvent_new 0 0 ''OrderPlaced'' 3 ''orders'' (JObj [(''quantity'', JNum 3)])))"
proof -
  have "no_wrap toy_registrations" by (simp add: no_wrap_def toy_registrations_def)
  from decode_runs_chain [OF this refl toy_envelope(1-4) _ toy_envelope(5)] toy_known toy_chain
  obtain obj' where "codec_decode toy_serde (register_all toy_registrations) toy_wire
      = Some (lift_json (from_value toy_serde (object_value toy_serde obj')))"
    "dm_get obj' = (dm_get toy_members)(''payload'' \<mapsto> JObj [(''quantity'', JNum 3)], ''schema_version'' \<mapsto> value_of_u32 toy_serde 3)"
    by (auto simp del: upt_rec_numeral)
  then show ?thesis by (simp add: toy_serde_def toy_members_def dm_get_def [of "_ # _"] lift_json_def)
qed

lemma toy_decoded:
  "\<exists>ev. codec_decode toy_serde (register_all toy_registrations) toy_wire = Some (Ok ev)
     \<and> ie_event_type ev = ''OrderPlaced'' \<and> ie_schema_version ev = 3"
proof -
  have g: "registry_get (register_all toy_registrations) ''OrderPlaced'' v =
     (if v = 1 then Some (\<lambda>p. Ok (JObj [(''quantity'', p)])) else if v = 2 then Some Ok else None)" for v
    by (auto simp: registry_get_register last_registered_def toy_registrations_def word_unat_eq_iff)
  have k: "max_known_version (register_all toy_registrations) ''OrderPlaced'' = Some 3"
    by (simp add: register_all_def toy_registrations_def with_upcaster_def registry_new_def max_known_version_def max_def)
  let ?m1 = "[(''event_type'', JStr ''OrderPlaced''), (''schema_version'', JNum 2), (''payload'', JObj [(''quantity'', JNum 3)])]"
  let ?m2 = "[(''event_type'', JStr ''OrderPlaced''), (''schema_version'', JNum 3), (''payload'', JObj [(''quantity'', JNum 3)])]"
  note ops = upcast_loop.simps [of toy_serde "register_all toy_registrations" "''OrderPlaced''"]
  have "upcast_loop toy_serde (register_all toy_registrations) ''OrderPlaced'' ?m2 3 = Some (Ok (?m2, 3))"
    by (subst ops) (simp add: g)
  then have "upcast_loop toy_serde (register_all toy_registrations) ''OrderPlaced'' ?m1 2 = Some (Ok (?m2, 3))"
    by (subst ops) (simp add: g toy_serde_def dm_get_def dm_insert_def dm_remove_def)
  then have "upcast_loop toy_serde (register_all toy_registrations) ''OrderPlaced'' toy_members 1 = Some (Ok (?m2, 3))"
    by (subst ops) (simp add: g toy_serde_def toy_members_def dm_get_def dm_insert_def dm_remove_def)
  then show ?thesis
    by (simp add: codec_decode_object [OF toy_envelope(1-4)] k finish_decode_eq)
      (simp add: toy_serde_def dm_get_def IntegrationEvent_new_def lift_json_def)
qed

theorem decoded_event_is_latest_witness:
  "max_known_version (register_all toy_registrations) ''OrderPlaced'' \<in> {None, Some 3}
    \<and> registry_get (register_all toy_registrations) ''OrderPlaced'' 3 = None"
  using toy_decoded decoded_event_is_latest [OF toy_laws toy_len] by metis

text \<open>
  An upcaster registered from \<open>u32::MAX\<close> wraps around: the type is then known up to version 0 and
  every message of a version from 1 on, short of \<open>u32::MAX\<close>, is refused as unsupported.
\<close>

lemma upcaster_from_max_wraps:
  fixes J :: "('v, 'p) Serde" and n :: nat
  assumes "value_from_slice J (se_payload wire) = Ok e" and "as_object J e = Some obj"
    and "Option.bind (dm_get obj ''event_type'') (as_str J) = Some ty"
    and "Option.bind (dm_get obj ''schema_version'') (as_u64 J) = Some n" and "0 < n" and "n < 2 ^ 32 - 1"
  shows "codec_decode J (with_upcaster ty (- 1) up registry_new) wire = Some (Err (UnsupportedVersion ty (of_nat n) 0))"
proof -
  let ?R = "with_upcaster ty (- 1) up registry_new :: 'v JsonUpcasterRegistry"
  have n: "n < 2 ^ 32" "unat (of_nat n :: u32) = n" using assms(6) by (simp_all add: unat_of_nat)
  then have "(of_nat n :: u32) \<noteq> - 1" using assms(6) by (auto simp: word_unat_eq_iff unsigned_minus_1_eq_mask mask_eq_exp_minus_1)
  then have "registry_get ?R ty (of_nat n) = None" by (simp add: with_upcaster_def registry_get_def registry_new_def)
  moreover have "max_known_version ?R ty = Some 0" by (simp add: with_upcaster_def max_known_version_def registry_new_def)
  moreover have "(0 :: u32) < of_nat n" using n assms(5) by (simp add: word_less_nat_alt)
  ultimately show ?thesis
    by (simp add: codec_decode_object [OF assms(1-4) n(1)] upcast_loop.simps finish_decode_eq)
qed

end
