(* ===== verification/Protobuf.thy ===== *)
theory Protobuf
  imports Integration "HOL-Library.Countable"
begin

text \<open>
  \<open>crates/pharos-proto/src\<close>: the Protobuf envelope of an integration event, its conversions in both
  directions and the codec built from them.
\<close>

datatype ProtobufSerializationError =
    Decode string
  | InvalidEnvelope string
  | InvalidTimestamp int

record IntegrationEventEnvelope =
  env_event_id :: string
  env_event_type :: string
  env_schema_version :: u32
  env_occurred_at_ms :: int
  env_aggregate_id :: "string option"
  env_correlation_id :: "string option"
  env_causation_id :: "string option"
  env_source :: string
  env_tenant_id :: "string option"
  env_trace_id :: "string option"
  env_payload :: bytes
  env_metadata :: "(string, string) dashmap"

text \<open>
  The calls into \<open>prost\<close>, \<open>uuid\<close> and \<open>chrono\<close>: encoding and decoding of a payload and of an
  envelope, the text form of an identifier, and the conversion of an instant to milliseconds and
  back, which is partial.
\<close>

record 'p ProtoLib =
  payload_encode :: "'p \<Rightarrow> bytes"
  payload_decode :: "bytes \<Rightarrow> string + 'p"
  envelope_encode :: "IntegrationEventEnvelope \<Rightarrow> bytes"
  envelope_decode :: "bytes \<Rightarrow> string + IntegrationEventEnvelope"
  uuid_to_string :: "uuid \<Rightarrow> string"
  uuid_parse_str :: "string \<Rightarrow> string + uuid"
  timestamp_millis :: "instant \<Rightarrow> int"
  from_timestamp_millis :: "int \<Rightarrow> instant option"

text \<open>\<open>iter().collect()\<close> into a map inserts the entries one by one.\<close>

definition collect_map :: "('k \<times> 'v) list \<Rightarrow> ('k, 'v) dashmap" where
  "collect_map xs = fold (\<lambda>(k, v). dm_insert k v) xs []"

definition from_integration_event :: "'p ProtoLib \<Rightarrow> 'p IntegrationEvent \<Rightarrow> IntegrationEventEnvelope" where
  "from_integration_event Pl ev =
     \<lparr>env_event_id = uuid_to_string Pl (ie_event_id ev), env_event_type = ie_event_type ev,
      env_schema_version = ie_schema_version ev, env_occurred_at_ms = timestamp_millis Pl (ie_occurred_at ev),
      env_aggregate_id = ie_aggregate_id ev, env_correlation_id = ie_correlation_id ev,
      env_causation_id = ie_causation_id ev, env_source = ie_source ev, env_tenant_id = ie_tenant_id ev,
      env_trace_id = ie_trace_id ev, env_payload = payload_encode Pl (ie_payload ev),
      env_metadata = collect_map (ie_metadata ev)\<rparr>"

definition into_integration_event ::
    "'p ProtoLib \<Rightarrow> IntegrationEventEnvelope \<Rightarrow> ProtobufSerializationError + 'p IntegrationEvent" where
  "into_integration_event Pl env = (case uuid_parse_str Pl (env_event_id env) of
       Err e \<Rightarrow> Err (InvalidEnvelope e)
     | Ok event_id \<Rightarrow> (case from_timestamp_millis Pl (env_occurred_at_ms env) of
           None \<Rightarrow> Err (InvalidTimestamp (env_occurred_at_ms env))
         | Some t \<Rightarrow> (case payload_decode Pl (env_payload env) of
               Err e \<Rightarrow> Err (Decode e)
             | Ok p \<Rightarrow> Ok
                 \<lparr>ie_event_id = event_id, ie_event_type = env_event_type env,
                  ie_schema_version = env_schema_version env, ie_occurred_at = t,
                  ie_aggregate_id = env_aggregate_id env, ie_correlation_id = env_correlation_id env,
                  ie_causation_id = env_causation_id env, ie_source = env_source env,
                  ie_tenant_id = env_tenant_id env, ie_trace_id = env_trace_id env, ie_payload = p,
                  ie_metadata = collect_map (env_metadata env)\<rparr>)))"

definition encode_to_bytes :: "'p ProtoLib \<Rightarrow> IntegrationEventEnvelope \<Rightarrow> bytes" where
  "encode_to_bytes Pl env = envelope_encode Pl env"

definition decode_from_bytes :: "'p ProtoLib \<Rightarrow> bytes \<Rightarrow> ProtobufSerializationError + IntegrationEventEnvelope" where
  "decode_from_bytes Pl bs = (case envelope_decode Pl bs of Err e \<Rightarrow> Err (Decode e) | Ok env \<Rightarrow> Ok env)"

definition APPLICATION_PROTOBUF :: string where
  "APPLICATION_PROTOBUF = ''application/x-protobuf''"

definition proto_serialize :: "'p ProtoLib \<Rightarrow> 'p IntegrationEvent \<Rightarrow> ProtobufSerializationError + SerializedEvent" where
  "proto_serialize Pl ev =
     Ok (SerializedEvent_new APPLICATION_PROTOBUF (encode_to_bytes Pl (from_integration_event Pl ev)))"

definition proto_deserialize :: "'p ProtoLib \<Rightarrow> SerializedEvent \<Rightarrow> ProtobufSerializationError + 'p IntegrationEvent" where
  "proto_deserialize Pl wire = (case decode_from_bytes Pl (se_payload wire) of
       Err e \<Rightarrow> Err e | Ok env \<Rightarrow> into_integration_event Pl env)"

section \<open>Round trip\<close>

lemma collect_map_append:
  "dm_wf (acc @ xs) \<Longrightarrow> fold (\<lambda>(k, v). dm_insert k v) xs acc = acc @ xs"
proof (induction xs arbitrary: acc)
  case Nil
  then show ?case by simp
next
  case (Cons x xs)
  obtain k v where x: "x = (k, v)" by fastforce
  have "k \<notin> fst ` set acc" using Cons.prems x by (auto simp: dm_wf_def)
  then have "dm_insert k v acc = acc @ [(k, v)]"
    unfolding dm_insert_def by (induction acc) auto
  then show ?case using Cons x by simp
qed

lemma collect_map_same: "dm_wf m \<Longrightarrow> collect_map m = m"
  using collect_map_append [of "[]" m] by (simp add: collect_map_def)

text \<open>
  What the libraries document: decoding gives back what was encoded (in \<open>prost\<close> for payloads and
  for envelopes), an identifier is parsed from its own text, and an instant converted to
  milliseconds and back is the instant rounded down to the millisecond.
\<close>

definition whole_millis :: "instant \<Rightarrow> instant" where
  "whole_millis t = t - t mod 1000000"

definition proto_laws :: "'p ProtoLib \<Rightarrow> bool" where
  "proto_laws Pl \<longleftrightarrow> (\<forall>p. payload_decode Pl (payload_encode Pl p) = Ok p)
     \<and> (\<forall>env. dm_wf (env_metadata env) \<longrightarrow> envelope_decode Pl (envelope_encode Pl env) = Ok env)
     \<and> (\<forall>i. uuid_parse_str Pl (uuid_to_string Pl i) = Ok i)
     \<and> (\<forall>t. from_timestamp_millis Pl (timestamp_millis Pl t) = Some (whole_millis t))"

text \<open>
  C30: Every event survives the Protobuf codec: deserialising what was serialised gives the same
  event, with its time of occurrence rounded down to the millisecond, and a second trip changes
  nothing any more.
\<close>

theorem proto_roundtrip:
  assumes "proto_laws Pl" and "dm_wf (ie_metadata ev)" and "proto_serialize Pl ev = Ok wire"
  shows "proto_deserialize Pl wire = Ok (with_occurred_at (whole_millis (ie_occurred_at ev)) ev)
    \<and> se_content_type wire = APPLICATION_PROTOBUF
    \<and> (\<exists>wire'. proto_serialize Pl (with_occurred_at (whole_millis (ie_occurred_at ev)) ev) = Ok wire'
        \<and> proto_deserialize Pl wire' = Ok (with_occurred_at (whole_millis (ie_occurred_at ev)) ev))"
proof -
  have trip: "into_integration_event Pl (from_integration_event Pl x) = Ok (with_occurred_at (whole_millis (ie_occurred_at x)) x)"
    if "dm_wf (ie_metadata x)" for x
    using assms(1) that by (simp add: proto_laws_def into_integration_event_def from_integration_event_def
        collect_map_same with_occurred_at_def)
  have dec: "decode_from_bytes Pl (encode_to_bytes Pl (from_integration_event Pl x)) = Ok (from_integration_event Pl x)"
    if "dm_wf (ie_metadata x)" for x
    using assms(1) that by (simp add: proto_laws_def decode_from_bytes_def encode_to_bytes_def
        from_integration_event_def collect_map_same)
  have again: "whole_millis (whole_millis t) = whole_millis t" for t by (simp add: whole_millis_def mod_diff_left_eq [symmetric] flip: minus_mod_eq_mult_div)
  let ?ev = "with_occurred_at (whole_millis (ie_occurred_at ev)) ev"
  have wf: "dm_wf (ie_metadata ?ev)" using assms(2) by (simp add: with_occurred_at_def)
  have same: "with_occurred_at (whole_millis (ie_occurred_at ?ev)) ?ev = ?ev" by (simp add: with_occurred_at_def again)
  show ?thesis
    using assms(3) trip [OF assms(2)] dec [OF assms(2)] trip [OF wf] dec [OF wf] same
    by (auto simp: proto_serialize_def proto_deserialize_def SerializedEvent_new_def)
qed

section \<open>A concrete library\<close>

text \<open>Payloads are bytes, an envelope is numbered as the tuple of its fields, and an identifier is written in unary.\<close>

definition envelope_fields where
  "envelope_fields env =
     (env_event_id env, env_event_type env, env_schema_version env, env_occurred_at_ms env, env_aggregate_id env,
      env_correlation_id env, env_causation_id env, env_source env, env_tenant_id env, env_trace_id env,
      env_payload env, env_metadata env)"

definition fields_envelope :: "_ \<Rightarrow> IntegrationEventEnvelope" where
  "fields_envelope = (\<lambda>(a, b, c, d, e, f, g, h, i, j, k, l).
     \<lparr>env_event_id = a, env_event_type = b, env_schema_version = c, env_occurred_at_ms = d, env_aggregate_id = e,
      env_correlation_id = f, env_causation_id = g, env_source = h, env_tenant_id = i, env_trace_id = j,
      env_payload = k, env_metadata = l\<rparr>)"

definition toy_proto :: "bytes ProtoLib" where
  "toy_proto = \<lparr>payload_encode = id, payload_decode = Ok,
     envelope_encode = (\<lambda>env. [to_nat (envelope_fields env)]), envelope_decode = (\<lambda>bs. Ok (fields_envelope (from_nat (hd bs)))),
     uuid_to_string = (\<lambda>i. replicate i CHR ''x''), uuid_parse_str = (\<lambda>s. Ok (length s)),
     timestamp_millis = (\<lambda>t. t div 1000000), from_timestamp_millis = (\<lambda>m. Some (m * 1000000))\<rparr>"

lemma toy_proto_laws: "proto_laws toy_proto"
proof -
  have "fields_envelope (envelope_fields env) = env" for env by (simp add: fields_envelope_def envelope_fields_def)
  then show ?thesis by (simp add: proto_laws_def toy_proto_def whole_millis_def minus_mod_eq_div_mult)
qed

theorem proto_roundtrip_witness:
  "case proto_serialize toy_proto (IntegrationEvent_new 7 1234567 ''OrderPlaced'' 2 ''orders'' [1, 2]) of
     Err e \<Rightarrow> False
   | Ok wire \<Rightarrow> proto_deserialize toy_proto wire = Ok (IntegrationEvent_new 7 1000000 ''OrderPlaced'' 2 ''orders'' [1, 2])"
proof -
  let ?ev = "IntegrationEvent_new 7 1234567 ''OrderPlaced'' 2 ''orders'' [1 :: nat, 2]"
  have wf: "dm_wf (ie_metadata ?ev)" by (simp add: IntegrationEvent_new_def)
  obtain wire where e: "proto_serialize toy_proto ?ev = Ok wire" by (simp add: proto_serialize_def)
  from proto_roundtrip [OF toy_proto_laws wf e] e show ?thesis
    by (simp add: IntegrationEvent_new_def with_occurred_at_def whole_millis_def)
qed

end
