(* ===== verification/Tenancy.thy ===== *)
theory Tenancy
  imports Integration
begin

text \<open>
  \<open>crates/pharos-app/src\<close>: \<open>tenant.rs\<close>, \<open>tenant_local.rs\<close>, \<open>tenant_iter.rs\<close>, \<open>enrichment.rs\<close> and
  \<open>elevation.rs\<close>: tenant identifiers, the task-local tenant and elevation scopes, per-tenant passes,
  the tenant header of a message, and elevations, which only an elevator grants and which leave a
  record. A future is a task: a function of the task-local scope and of the world.
\<close>

section \<open>Tenants and scopes\<close>

type_synonym TenantId = uuid

record TenantContext =
  tc_tenant_id :: TenantId

definition TenantContext_new :: "TenantId \<Rightarrow> TenantContext" where
  "TenantContext_new t = \<lparr>tc_tenant_id = t\<rparr>"

text \<open>\<open>Uuid::parse_str\<close> and \<open>Uuid::to_string\<close> are parameters.\<close>

record UuidText =
  parse_str :: "string \<Rightarrow> string + uuid"
  uuid_string :: "uuid \<Rightarrow> string"

definition TenantId_parse :: "UuidText \<Rightarrow> string \<Rightarrow> string + TenantId" where
  "TenantId_parse U s = parse_str U s"

definition TenantContext_parse :: "UuidText \<Rightarrow> string \<Rightarrow> string + TenantContext" where
  "TenantContext_parse U s = (case TenantId_parse U s of Err e \<Rightarrow> Err e | Ok t \<Rightarrow> Ok \<lparr>tc_tenant_id = t\<rparr>)"

definition stamp :: "UuidText \<Rightarrow> TenantContext \<Rightarrow> 'p IntegrationEvent \<Rightarrow> 'p IntegrationEvent" where
  "stamp U t ev = with_tenant_id (uuid_string U (tc_tenant_id t)) ev"

type_synonym Purpose = string
type_synonym Location = string

datatype ElevationKind = CrossTenant | Impersonation TenantId

record Elevation =
  el_purpose :: Purpose
  el_actor :: "string option"
  el_kind :: ElevationKind
  el_granted_at :: instant
  el_issuer :: nat
  el_caller :: Location

text \<open>The two task-locals; a task that never entered a scope has neither.\<close>

record Scope =
  current_tenant :: "TenantContext option"
  current_elevation :: "Elevation option"

definition no_scope :: Scope where
  "no_scope = \<lparr>current_tenant = None, current_elevation = None\<rparr>"

type_synonym ('w, 'r) task = "Scope \<Rightarrow> 'w \<Rightarrow> 'r \<times> 'w"

definition tenant_scope :: "TenantContext option \<Rightarrow> ('w, 'r) task \<Rightarrow> ('w, 'r) task" where
  "tenant_scope t work sc w = work (sc\<lparr>current_tenant := t\<rparr>) w"

definition elevation_scope :: "Elevation option \<Rightarrow> ('w, 'r) task \<Rightarrow> ('w, 'r) task" where
  "elevation_scope e work sc w = work (sc\<lparr>current_elevation := e\<rparr>) w"

definition without_elevation :: "('w, 'r) task \<Rightarrow> ('w, 'r) task" where
  "without_elevation work = elevation_scope None work"

text \<open>A spawned task starts with empty task-locals, here run to its end.\<close>

definition spawn_scoped :: "('w, 'r) task \<Rightarrow> ('w, 'r) task" where
  "spawn_scoped work sc w = tenant_scope (current_tenant sc) work no_scope w"

section \<open>Passes over all tenants\<close>

record 'e ForEachReport =
  fe_succeeded :: nat
  fe_failed :: "(TenantId \<times> 'e) list"

definition visited :: "'e ForEachReport \<Rightarrow> nat" where
  "visited r = fe_succeeded r + length (fe_failed r)"

fun for_each_loop :: "(TenantId \<Rightarrow> ('w, 'e + unit) task) \<Rightarrow> TenantId list \<Rightarrow> 'e ForEachReport \<Rightarrow> ('w, 'e ForEachReport) task" where
  "for_each_loop work [] report sc w = (report, w)"
| "for_each_loop work (t # ts) report sc w =
     (case tenant_scope (Some (TenantContext_new t)) (without_elevation (work t)) sc w of
        (Ok _, w') \<Rightarrow> for_each_loop work ts (report\<lparr>fe_succeeded := fe_succeeded report + 1\<rparr>) sc w'
      | (Err e, w') \<Rightarrow> for_each_loop work ts (report\<lparr>fe_failed := fe_failed report @ [(t, e)]\<rparr>) sc w')"

definition for_each_tenant ::
    "('w, string + TenantId list) task \<Rightarrow> (TenantId \<Rightarrow> ('w, 'e + unit) task) \<Rightarrow> ('w, string + 'e ForEachReport) task" where
  "for_each_tenant source work sc w = (case source sc w of
       (Err e, w') \<Rightarrow> (Err e, w')
     | (Ok tenants, w') \<Rightarrow>
         let (report, w'') = for_each_loop work tenants \<lparr>fe_succeeded = 0, fe_failed = []\<rparr> sc w' in (Ok report, w''))"

section \<open>The tenant of a message\<close>

definition TENANT_HEADER :: string where
  "TENANT_HEADER = ''tenant_id''"

definition tenant_header_enrich :: "UuidText \<Rightarrow> Scope \<Rightarrow> Message \<Rightarrow> Message" where
  "tenant_header_enrich U sc m = (case current_tenant sc of
       Some t \<Rightarrow> m\<lparr>headers := dm_insert TENANT_HEADER (uuid_string U (tc_tenant_id t)) (headers m)\<rparr>
     | None \<Rightarrow> m)"

definition tenant_of :: "UuidText \<Rightarrow> Message \<Rightarrow> string + TenantContext option" where
  "tenant_of U m = (case dm_get (headers m) TENANT_HEADER of
       None \<Rightarrow> Ok None
     | Some raw \<Rightarrow> (case TenantContext_parse U raw of Err e \<Rightarrow> Err e | Ok t \<Rightarrow> Ok (Some t)))"

definition with_message_scope :: "UuidText \<Rightarrow> Message \<Rightarrow> ('w, 'r) task \<Rightarrow> ('w, string + 'r) task" where
  "with_message_scope U m work sc w = (case tenant_of U m of
       Err e \<Rightarrow> (Err e, w)
     | Ok t \<Rightarrow> (case tenant_scope t (without_elevation work) sc w of (r, w') \<Rightarrow> (Ok r, w')))"

section \<open>Elevation\<close>

record ElevationRequest =
  rq_purpose :: Purpose
  rq_actor :: "string option"
  rq_kind :: ElevationKind

type_synonym ElevationPolicy = "ElevationRequest \<Rightarrow> string + unit"

definition DenyAll :: ElevationPolicy where
  "DenyAll rq = Err ''no purpose may cross the tenant boundary''"

record AllowPurposes =
  cross_tenant :: "Purpose set"
  impersonation :: "Purpose set"
  actor_required :: "Purpose set"

definition AllowPurposes_new :: AllowPurposes where
  "AllowPurposes_new = \<lparr>cross_tenant = {}, impersonation = {}, actor_required = {}\<rparr>"

definition allow :: "Purpose \<Rightarrow> AllowPurposes \<Rightarrow> AllowPurposes" where
  "allow p a = a\<lparr>cross_tenant := insert p (cross_tenant a)\<rparr>"

definition allow_impersonation :: "Purpose \<Rightarrow> AllowPurposes \<Rightarrow> AllowPurposes" where
  "allow_impersonation p a = a\<lparr>impersonation := insert p (impersonation a)\<rparr>"

definition requiring_actor :: "Purpose \<Rightarrow> AllowPurposes \<Rightarrow> AllowPurposes" where
  "requiring_actor p a = a\<lparr>actor_required := insert p (actor_required a)\<rparr>"

definition allow_purposes_authorize :: "AllowPurposes \<Rightarrow> ElevationPolicy" where
  "allow_purposes_authorize a rq =
     (let allowed = (case rq_kind rq of CrossTenant \<Rightarrow> cross_tenant a | Impersonation _ \<Rightarrow> impersonation a)
      in if rq_purpose rq \<notin> allowed then Err ''this purpose may not cross the tenant boundary this way''
         else if rq_purpose rq \<in> actor_required a \<and> rq_actor rq = None then Err ''this purpose needs to say who is acting''
         else Ok ())"

datatype ElevationOutcome = Granted | Denied string

record ElevationAudit =
  au_purpose :: Purpose
  au_actor :: "string option"
  au_kind :: ElevationKind
  au_outcome :: ElevationOutcome
  au_at :: instant
  au_caller :: Location

record ElevationDenied =
  ed_purpose :: Purpose
  ed_reason :: string

text \<open>An elevator with the sink it reports to; its number comes from a global counter.\<close>

record 'w Elevator =
  ev_id :: nat
  ev_policy :: ElevationPolicy
  ev_audit :: "ElevationAudit \<Rightarrow> 'w \<Rightarrow> 'w"

definition Elevator_new :: "ElevationPolicy \<Rightarrow> (ElevationAudit \<Rightarrow> 'w \<Rightarrow> 'w) \<Rightarrow> nat \<Rightarrow> 'w Elevator \<times> nat" where
  "Elevator_new policy audit counter = (\<lparr>ev_id = counter, ev_policy = policy, ev_audit = audit\<rparr>, counter + 1)"

definition no_audit :: "ElevationAudit \<Rightarrow> 'w \<Rightarrow> 'w" where
  "no_audit entry w = w"

definition issued :: "'w Elevator \<Rightarrow> Elevation \<Rightarrow> bool" where
  "issued el e \<longleftrightarrow> el_issuer e = ev_id el"

definition MAX_ACTOR_LEN :: nat where
  "MAX_ACTOR_LEN = 256"

definition is_plain_label :: "string \<Rightarrow> bool" where
  "is_plain_label a \<longleftrightarrow> length a \<le> MAX_ACTOR_LEN \<and> \<not> list_ex is_control a"

text \<open>\<open>actor.map(str::trim).filter(|a| !a.is_empty())\<close>.\<close>

definition said_actor :: "string option \<Rightarrow> string option" where
  "said_actor actor = (case map_option trim actor of Some a \<Rightarrow> if a = [] then None else Some a | None \<Rightarrow> None)"

definition decision :: "ElevationPolicy \<Rightarrow> Purpose \<Rightarrow> string option \<Rightarrow> ElevationKind \<Rightarrow> string + unit" where
  "decision policy purpose actor kind = (case (kind, actor) of
       (_, Some a) \<Rightarrow> if \<not> is_plain_label a then Err ''the actor is not a plain label''
           else policy \<lparr>rq_purpose = purpose, rq_actor = actor, rq_kind = kind\<rparr>
     | (Impersonation _, None) \<Rightarrow> Err ''an impersonation needs an actor''
     | (CrossTenant, None) \<Rightarrow> policy \<lparr>rq_purpose = purpose, rq_actor = actor, rq_kind = kind\<rparr>)"

definition admit ::
    "'w Env \<Rightarrow> 'w Elevator \<Rightarrow> Purpose \<Rightarrow> string option \<Rightarrow> ElevationKind \<Rightarrow> Location \<Rightarrow> ('w, ElevationDenied, Elevation) op" where
  "admit E el purpose raw_actor kind caller w =
     (let actor = said_actor raw_actor;
          (now, w1) = utc_now E w;
          dec = decision (ev_policy el) purpose actor kind;
          w2 = ev_audit el \<lparr>au_purpose = purpose,
                 au_actor = (case actor of Some a \<Rightarrow> if is_plain_label a then Some a else None | None \<Rightarrow> None),
                 au_kind = kind, au_outcome = (case dec of Ok _ \<Rightarrow> Granted | Err reason \<Rightarrow> Denied reason),
                 au_at = now, au_caller = caller\<rparr> w1
      in case dec of
           Ok _ \<Rightarrow> (Ok \<lparr>el_purpose = purpose, el_actor = actor, el_kind = kind, el_granted_at = now,
                        el_issuer = ev_id el, el_caller = caller\<rparr>, w2)
         | Err reason \<Rightarrow> (Err \<lparr>ed_purpose = purpose, ed_reason = reason\<rparr>, w2))"

definition elevated ::
    "'w Env \<Rightarrow> 'w Elevator \<Rightarrow> Purpose \<Rightarrow> string option \<Rightarrow> Location \<Rightarrow> ('w, 'r) task \<Rightarrow> ('w, ElevationDenied + 'r) task" where
  "elevated E el purpose actor caller work sc w = (case admit E el purpose actor CrossTenant caller w of
       (Err d, w') \<Rightarrow> (Err d, w')
     | (Ok e, w') \<Rightarrow> (case elevation_scope (Some e) work sc w' of (r, w'') \<Rightarrow> (Ok r, w'')))"

definition impersonating ::
    "'w Env \<Rightarrow> 'w Elevator \<Rightarrow> TenantId \<Rightarrow> Purpose \<Rightarrow> string \<Rightarrow> Location \<Rightarrow> ('w, 'r) task \<Rightarrow> ('w, ElevationDenied + 'r) task" where
  "impersonating E el tenant purpose actor caller work sc w =
     (case admit E el purpose (Some actor) (Impersonation tenant) caller w of
       (Err d, w') \<Rightarrow> (Err d, w')
     | (Ok e, w') \<Rightarrow>
         (case tenant_scope (Some (TenantContext_new tenant)) (elevation_scope (Some e) work) sc w' of (r, w'') \<Rightarrow> (Ok r, w'')))"

section \<open>Client code\<close>

text \<open>
  A world with a clock, the entries of a \<open>MemoryAudit\<close>, and the accesses to storage, in order: which
  access of the code it was, what the audit trail held at that moment, and the scope it ran under.
\<close>

record TaskWorld =
  tw_clock :: "nat \<Rightarrow> instant"
  tw_ticks :: nat
  tw_audit :: "ElevationAudit list"
  tw_seen :: "(nat \<times> ElevationAudit list \<times> Scope) list"

definition tw_env :: "TaskWorld Env" where
  "tw_env = \<lparr>utc_now = (\<lambda>w. (tw_clock w (tw_ticks w), w\<lparr>tw_ticks := tw_ticks w + 1\<rparr>)),
     now_v7 = (\<lambda>w. (0, w)), random_f64 = (\<lambda>w. (0, w)), from_std = Ok\<rparr>"

definition memory_record :: "ElevationAudit \<Rightarrow> TaskWorld \<Rightarrow> TaskWorld" where
  "memory_record entry w = w\<lparr>tw_audit := tw_audit w @ [entry]\<rparr>"

definition entries :: "TaskWorld \<Rightarrow> ElevationAudit list" where
  "entries w = tw_audit w"

text \<open>
  Arbitrary code that uses the operations above: it accesses storage, each access with a number,
  does one thing after another, crosses the boundary, opens the public tenant scope, starts tasks,
  visits tenants and handles messages.
\<close>

datatype client =
    Access nat
  | Both client client
  | Elevate "TaskWorld Elevator" Purpose "string option" Location client
  | Impersonate "TaskWorld Elevator" TenantId Purpose string Location client
  | InTenant "TenantContext option" client
  | Spawn client
  | PerTenant "TenantId list" client
  | Handle Message client

primrec run_client :: "UuidText \<Rightarrow> client \<Rightarrow> (TaskWorld, unit) task" where
  "run_client U (Access k) = (\<lambda>sc w. ((), w\<lparr>tw_seen := tw_seen w @ [(k, tw_audit w, sc)]\<rparr>))"
| "run_client U (Both c d) = (\<lambda>sc w. run_client U d sc (snd (run_client U c sc w)))"
| "run_client U (Elevate el p a loc c) = (\<lambda>sc w. ((), snd (elevated tw_env el p a loc (run_client U c) sc w)))"
| "run_client U (Impersonate el t p a loc c) = (\<lambda>sc w. ((), snd (impersonating tw_env el t p a loc (run_client U c) sc w)))"
| "run_client U (InTenant t c) = tenant_scope t (run_client U c)"
| "run_client U (Spawn c) = spawn_scoped (run_client U c)"
| "run_client U (PerTenant ts c) = (\<lambda>sc w. ((), snd (for_each_tenant (\<lambda>sc w. (Ok ts, w))
     (\<lambda>t sc w. (Ok () :: unit + unit, snd (run_client U c sc w))) sc w)))"
| "run_client U (Handle m c) = (\<lambda>sc w. ((), snd (with_message_scope U m (run_client U c) sc w)))"

primrec elevators :: "client \<Rightarrow> TaskWorld Elevator set" where
  "elevators (Access k) = {}"
| "elevators (Both c d) = elevators c \<union> elevators d"
| "elevators (Elevate el p a loc c) = insert el (elevators c)"
| "elevators (Impersonate el t p a loc c) = insert el (elevators c)"
| "elevators (InTenant t c) = elevators c"
| "elevators (Spawn c) = elevators c"
| "elevators (PerTenant ts c) = elevators c"
| "elevators (Handle m c) = elevators c"

text \<open>
  Read off the code alone: the elevators that may stand behind the access numbered \<open>k\<close>, when those of \<open>G\<close>
  stand behind the code. It is the elevator of the innermost elevation or impersonation around
  the access, and none if a task was started, a tenant visited or a message handled in between.
\<close>

primrec granted_at :: "client \<Rightarrow> TaskWorld Elevator set \<Rightarrow> nat \<Rightarrow> TaskWorld Elevator set" where
  "granted_at (Access k') G k = (if k = k' then G else {})"
| "granted_at (Both c d) G k = granted_at c G k \<union> granted_at d G k"
| "granted_at (Elevate el p a loc c) G k = granted_at c {el} k"
| "granted_at (Impersonate el t p a loc c) G k = granted_at c {el} k"
| "granted_at (InTenant t c) G k = granted_at c G k"
| "granted_at (Spawn c) G k = granted_at c {} k"
| "granted_at (PerTenant ts c) G k = granted_at c {} k"
| "granted_at (Handle m c) G k = granted_at c {} k"

lemma granted_at_eqs:
  "granted_at (Elevate el p a loc c) G = granted_at c {el}" "granted_at (Impersonate el t p ia loc c) G = granted_at c {el}"
  "granted_at (InTenant tn c) G = granted_at c G" "granted_at (Spawn c) G = granted_at c {}"
  "granted_at (PerTenant ts c) G = granted_at c {}" "granted_at (Handle m c) G = granted_at c {}"
  by (simp_all add: fun_eq_iff)

text \<open>Code that opens the public tenant scope itself.\<close>

primrec opens_tenant :: "client \<Rightarrow> bool" where
  "opens_tenant (Access k) = False"
| "opens_tenant (Both c d) = (opens_tenant c \<or> opens_tenant d)"
| "opens_tenant (Elevate el p a loc c) = opens_tenant c"
| "opens_tenant (Impersonate el t p a loc c) = opens_tenant c"
| "opens_tenant (InTenant t c) = True"
| "opens_tenant (Spawn c) = opens_tenant c"
| "opens_tenant (PerTenant ts c) = opens_tenant c"
| "opens_tenant (Handle m c) = opens_tenant c"

text \<open>An elevation that one of the elevators granted under its policy, and that is on the record.\<close>

definition on_record :: "TaskWorld Elevator set \<Rightarrow> ElevationAudit list \<Rightarrow> Elevation \<Rightarrow> bool" where
  "on_record els lg e \<longleftrightarrow>
     (\<exists>el \<in> els. issued el e \<and> ev_policy el \<lparr>rq_purpose = el_purpose e, rq_actor = el_actor e, rq_kind = el_kind e\<rparr> = Ok ())
     \<and> \<lparr>au_purpose = el_purpose e, au_actor = el_actor e, au_kind = el_kind e, au_outcome = Granted,
        au_at = el_granted_at e, au_caller = el_caller e\<rparr> \<in> set lg
     \<and> (case el_actor e of None \<Rightarrow> el_kind e = CrossTenant | Some a \<Rightarrow> a \<noteq> [] \<and> is_plain_label a)"

definition scope_ok :: "bool \<Rightarrow> TaskWorld Elevator set \<Rightarrow> ElevationAudit list \<Rightarrow> Scope \<Rightarrow> bool" where
  "scope_ok strict els lg sc \<longleftrightarrow> (case current_elevation sc of None \<Rightarrow> True
     | Some e \<Rightarrow> on_record els lg e
         \<and> (case el_kind e of CrossTenant \<Rightarrow> True | Impersonation t \<Rightarrow> strict \<longrightarrow> current_tenant sc = Some (TenantContext_new t)))"

lemma on_record_mono: "on_record els lg e \<Longrightarrow> els \<subseteq> els' \<Longrightarrow> on_record els' (lg @ later) e"
  by (auto simp: on_record_def)

lemma scope_ok_mono: "scope_ok b els lg sc \<Longrightarrow> els \<subseteq> els' \<Longrightarrow> scope_ok b els' (lg @ later) sc"
  by (auto simp: scope_ok_def on_record_mono split: option.splits)

lemma scope_ok_prefix: "scope_ok b els lg sc \<Longrightarrow> prefix lg lg' \<Longrightarrow> els \<subseteq> els' \<Longrightarrow> scope_ok b els' lg' sc"
  by (auto elim!: prefixE intro: scope_ok_mono)

lemma scope_ok_plain [simp]: "scope_ok b els lg \<lparr>current_tenant = t, current_elevation = None\<rparr>"
  by (simp add: scope_ok_def)

lemma scope_ok_cleared [simp]: "scope_ok b els lg (sc\<lparr>current_tenant := t, current_elevation := None\<rparr>)"
  by (simp add: scope_ok_def)

lemma said_actor_nonempty: "said_actor a \<noteq> Some []"
  by (auto simp: said_actor_def split: option.splits)

lemma admit_spec:
  assumes "admit E el p a kind loc w = (r, w')"
  obtains now w1 entry where "utc_now E w = (now, w1)" "w' = ev_audit el entry w1" "au_purpose entry = p" "au_kind entry = kind"
    "au_at entry = now" "au_caller entry = loc"
    "case r of
       Ok e \<Rightarrow> decision (ev_policy el) p (said_actor a) kind = Ok () \<and> au_outcome entry = Granted \<and> au_actor entry = said_actor a
         \<and> e = \<lparr>el_purpose = p, el_actor = said_actor a, el_kind = kind, el_granted_at = now, el_issuer = ev_id el, el_caller = loc\<rparr>
     | Err d \<Rightarrow> decision (ev_policy el) p (said_actor a) kind = Err (ed_reason d) \<and> ed_purpose d = p \<and> au_outcome entry = Denied (ed_reason d)
         \<and> (\<forall>x. au_actor entry = Some x \<longrightarrow> is_plain_label x)"
proof -
  obtain now w1 where t: "utc_now E w = (now, w1)" by fastforce
  let ?dec = "decision (ev_policy el) p (said_actor a) kind"
  let ?entry = "\<lparr>au_purpose = p, au_actor = (case said_actor a of Some x \<Rightarrow> if is_plain_label x then Some x else None | None \<Rightarrow> None),
    au_kind = kind, au_outcome = (case ?dec of Ok _ \<Rightarrow> Granted | Err reason \<Rightarrow> Denied reason), au_at = now, au_caller = loc\<rparr>"
  have plain: "au_actor ?entry = said_actor a" if "?dec = Ok ()"
    using that by (auto simp: decision_def split: option.splits if_splits ElevationKind.splits)
  show thesis
  proof (rule that [of now w1 ?entry])
    show "w' = ev_audit el ?entry w1" using assms t by (auto simp: admit_def Let_def split: sum.splits)
    show "case r of
       Ok e \<Rightarrow> ?dec = Ok () \<and> au_outcome ?entry = Granted \<and> au_actor ?entry = said_actor a
         \<and> e = \<lparr>el_purpose = p, el_actor = said_actor a, el_kind = kind, el_granted_at = now, el_issuer = ev_id el, el_caller = loc\<rparr>
     | Err d \<Rightarrow> ?dec = Err (ed_reason d) \<and> ed_purpose d = p \<and> au_outcome ?entry = Denied (ed_reason d)
         \<and> (\<forall>x. au_actor ?entry = Some x \<longrightarrow> is_plain_label x)"
      using assms t plain by (cases ?dec) (auto simp: admit_def Let_def split: option.splits if_splits)
  qed (use t in simp_all)
qed

lemma decision_Ok:
  assumes "decision policy p actor kind = Ok ()"
  shows "policy \<lparr>rq_purpose = p, rq_actor = actor, rq_kind = kind\<rparr> = Ok ()"
    and "case actor of None \<Rightarrow> kind = CrossTenant | Some a \<Rightarrow> is_plain_label a"
  using assms by (auto simp: decision_def split: option.splits if_splits ElevationKind.splits)

text \<open>
  What running client code gives: the record only grows, and each new access is in order with respect to
  the record as it was at that moment and to the elevators \<open>S\<close> allows behind it.
\<close>

definition run_ok :: "bool \<Rightarrow> (nat \<Rightarrow> TaskWorld Elevator set) \<Rightarrow> TaskWorld \<Rightarrow> TaskWorld \<Rightarrow> bool" where
  "run_ok b S w w' \<longleftrightarrow> prefix (tw_audit w) (tw_audit w')
     \<and> (\<exists>new. tw_seen w' = tw_seen w @ new
          \<and> list_all (\<lambda>(k, lg, sc). scope_ok b (S k) lg sc \<and> prefix lg (tw_audit w')) new)"

lemma run_ok_refl: "tw_audit w' = tw_audit w \<Longrightarrow> tw_seen w' = tw_seen w \<Longrightarrow> run_ok b S w w'"
  by (simp add: run_ok_def)

lemma run_ok_audit: "tw_audit w' = tw_audit w @ [entry] \<Longrightarrow> tw_seen w' = tw_seen w \<Longrightarrow> run_ok b S w w'"
  by (simp add: run_ok_def)

lemma run_ok_trans:
  assumes "run_ok b S w w'" and "run_ok b S w' w''"
  shows "run_ok b S w w''"
proof -
  obtain new new' where n: "tw_seen w' = tw_seen w @ new" "tw_seen w'' = tw_seen w' @ new'"
    "list_all (\<lambda>(k, lg, sc). scope_ok b (S k) lg sc \<and> prefix lg (tw_audit w')) new"
    "list_all (\<lambda>(k, lg, sc). scope_ok b (S k) lg sc \<and> prefix lg (tw_audit w'')) new'"
    "prefix (tw_audit w) (tw_audit w')" "prefix (tw_audit w') (tw_audit w'')"
    using assms by (auto simp: run_ok_def)
  have "list_all (\<lambda>(k, lg, sc). scope_ok b (S k) lg sc \<and> prefix lg (tw_audit w'')) (new @ new')"
    using n(3,4) prefix_order.trans [OF _ n(6)] by (fastforce simp: list_all_iff)
  then show ?thesis using n prefix_order.trans [OF n(5,6)] by (auto simp: run_ok_def)
qed

lemma run_ok_mono:
  assumes "run_ok b S w w'" and "\<And>k. S k \<subseteq> S' k"
  shows "run_ok b S' w w'"
proof -
  have "scope_ok b (S' k) lg sc" if "scope_ok b (S k) lg sc" for k lg sc
    by (rule scope_ok_prefix [OF that prefix_order.refl assms(2)])
  then show ?thesis using assms(1) by (fastforce simp: run_ok_def list_all_iff)
qed

lemma admit_in_order:
  assumes "admit tw_env el p a kind loc w = (r, w')" and "ev_audit el = memory_record"
  shows "run_ok b S w w'" and "r = Ok e \<Longrightarrow> on_record {el} (tw_audit w') e \<and> el_kind e = kind"
proof -
  obtain now w1 entry where s: "utc_now tw_env w = (now, w1)" "w' = ev_audit el entry w1" "au_purpose entry = p" "au_kind entry = kind"
    "au_at entry = now" "au_caller entry = loc"
    and r: "case r of
       Ok e \<Rightarrow> decision (ev_policy el) p (said_actor a) kind = Ok () \<and> au_outcome entry = Granted \<and> au_actor entry = said_actor a
         \<and> e = \<lparr>el_purpose = p, el_actor = said_actor a, el_kind = kind, el_granted_at = now, el_issuer = ev_id el, el_caller = loc\<rparr>
     | Err d \<Rightarrow> decision (ev_policy el) p (said_actor a) kind = Err (ed_reason d) \<and> ed_purpose d = p \<and> au_outcome entry = Denied (ed_reason d)
         \<and> (\<forall>x. au_actor entry = Some x \<longrightarrow> is_plain_label x)"
    by (rule admit_spec [OF assms(1)])
  have w': "tw_audit w' = tw_audit w @ [entry]" "tw_seen w' = tw_seen w"
    using s(1,2) assms(2) by (auto simp: tw_env_def memory_record_def)
  then show "run_ok b S w w'" by (rule run_ok_audit)
  assume "r = Ok e"
  then have e: "decision (ev_policy el) p (said_actor a) kind = Ok ()" "au_outcome entry = Granted" "au_actor entry = said_actor a"
    "e = \<lparr>el_purpose = p, el_actor = said_actor a, el_kind = kind, el_granted_at = now, el_issuer = ev_id el, el_caller = loc\<rparr>"
    using r by auto
  have "entry = \<lparr>au_purpose = p, au_actor = said_actor a, au_kind = kind, au_outcome = Granted, au_at = now, au_caller = loc\<rparr>"
    using s e by (cases entry) simp
  then show "on_record {el} (tw_audit w') e \<and> el_kind e = kind"
    using decision_Ok [OF e(1)] w'(1) e(4) said_actor_nonempty [of a]
    by (auto simp: on_record_def issued_def split: option.splits)
qed

lemma for_each_in_order:
  assumes "\<And>sc w. current_elevation sc = None \<Longrightarrow> run_ok b S w (snd (work sc w))"
  shows "run_ok b S w (snd (for_each_loop (\<lambda>t sc w. (Ok (), snd (work sc w))) ts report sc w))"
proof (induction ts arbitrary: report w)
  case Nil
  then show ?case by (simp add: run_ok_refl)
next
  case (Cons t ts)
  let ?w = "snd (work (sc\<lparr>current_tenant := Some (TenantContext_new t), current_elevation := None\<rparr>) w)"
  have "run_ok b S w ?w" by (rule assms) simp
  from run_ok_trans [OF this Cons.IH] show ?case
    by (simp add: tenant_scope_def without_elevation_def elevation_scope_def)
qed

lemma run_client_in_order:
  assumes "\<forall>el \<in> elevators c. ev_audit el = memory_record" and "scope_ok b G (tw_audit w) sc" and "b \<longrightarrow> \<not> opens_tenant c"
  shows "run_ok b (granted_at c G) w (snd (run_client U c sc w))"
  using assms
proof (induction c arbitrary: G sc w)
  case (Access k)
  then show ?case by (simp add: run_ok_def)
next
  case (Both c d)
  have r: "run_ok b (granted_at c G) w (snd (run_client U c sc w))" using Both by simp
  then have "scope_ok b G (tw_audit (snd (run_client U c sc w))) sc"
    using Both.prems(2) scope_ok_prefix by (auto simp: run_ok_def)
  then have "run_ok b (granted_at d G) (snd (run_client U c sc w)) (snd (run_client U (Both c d) sc w))" using Both by simp
  note d = run_ok_mono [OF this, of "granted_at (Both c d) G"]
  show ?case by (rule run_ok_trans [OF run_ok_mono [OF r] d]) simp_all
next
  case (Elevate el p a loc c)
  obtain r w' where e: "admit tw_env el p a CrossTenant loc w = (r, w')" by fastforce
  have el: "ev_audit el = memory_record" using Elevate.prems(1) by simp
  note ad = admit_in_order [OF e el]
  show ?case
  proof (cases r)
    case (Inr x)
    have "scope_ok b {el} (tw_audit w') (sc\<lparr>current_elevation := Some x\<rparr>)" using ad(2) [OF Inr] by (simp add: scope_ok_def)
    then have "run_ok b (granted_at c {el}) w' (snd (run_client U c (sc\<lparr>current_elevation := Some x\<rparr>) w'))"
      using Elevate.IH [of "{el}" w'] Elevate.prems by simp
    from run_ok_trans [OF ad(1) this] show ?thesis
      using e Inr by (simp add: elevated_def elevation_scope_def split_beta granted_at_eqs)
  qed (use ad(1) e in \<open>simp add: elevated_def\<close>)
next
  case (Impersonate el t p a loc c)
  obtain r w' where e: "admit tw_env el p (Some a) (Impersonation t) loc w = (r, w')" by fastforce
  have el: "ev_audit el = memory_record" using Impersonate.prems(1) by simp
  note ad = admit_in_order [OF e el]
  show ?case
  proof (cases r)
    case (Inr x)
    have "scope_ok b {el} (tw_audit w') (sc\<lparr>current_tenant := Some (TenantContext_new t), current_elevation := Some x\<rparr>)"
      using ad(2) [OF Inr] by (simp add: scope_ok_def)
    then have "run_ok b (granted_at c {el}) w' (snd (run_client U c (sc\<lparr>current_tenant := Some (TenantContext_new t), current_elevation := Some x\<rparr>) w'))"
      using Impersonate.IH [of "{el}" w'] Impersonate.prems by simp
    from run_ok_trans [OF ad(1) this] show ?thesis
      using e Inr by (simp add: impersonating_def elevation_scope_def tenant_scope_def split_beta granted_at_eqs)
  qed (use ad(1) e in \<open>simp add: impersonating_def\<close>)
next
  case (InTenant t c)
  then have "\<not> b" by simp
  then have "scope_ok b G (tw_audit w) (sc\<lparr>current_tenant := t\<rparr>)"
    using InTenant.prems(2) by (auto simp: scope_ok_def split: option.splits ElevationKind.splits)
  then show ?case using InTenant by (simp add: tenant_scope_def granted_at_eqs)
next
  case (Spawn c)
  then have "run_ok b (granted_at c {}) w (snd (run_client U c \<lparr>current_tenant = t, current_elevation = None\<rparr> w))" for t by simp
  then show ?case by (simp add: spawn_scoped_def tenant_scope_def no_scope_def granted_at_eqs)
next
  case (PerTenant ts c)
  then have "run_ok b (granted_at c {}) w (snd (run_client U c sc w))" if "current_elevation sc = None" for sc w
    using that by (simp add: scope_ok_def)
  from for_each_in_order [OF this] show ?case by (simp add: for_each_tenant_def split_beta granted_at_eqs)
next
  case (Handle m c)
  then have "run_ok b (granted_at c {}) w (snd (run_client U c sc w))" if "current_elevation sc = None" for sc w
    using that by (simp add: scope_ok_def)
  then show ?case
    by (auto simp: with_message_scope_def tenant_scope_def without_elevation_def elevation_scope_def run_ok_refl split_beta
        granted_at_eqs split: sum.splits)
qed

section \<open>Properties\<close>

text \<open>
  C6: Nobody crosses the tenant boundary unseen. Whatever code runs from an unelevated task, however
  it nests elevations, impersonations, tenant scopes, spawned tasks, per-tenant passes and message
  handling, each time storage is reached under an elevation, the grant is already in the audit trail
  at that moment; the elevation was issued by the elevator of the innermost elevation or
  impersonation around that access, with no spawned task, tenant pass or message handling in
  between, so none of these inherits it; the policy of that elevator accepted exactly this purpose,
  actor and kind; and the actor it names is a plain label, which an impersonation always has. Code
  that does not open the public tenant scope itself reaches storage under an impersonation only in
  the scope of the impersonated tenant. The trail is the one of \<open>MemoryAudit\<close>, and it only grows.
\<close>

theorem elevation_on_record:
  assumes "\<forall>el \<in> elevators c. ev_audit el = memory_record"
    and "run_client U c \<lparr>current_tenant = t, current_elevation = None\<rparr> w = (r, w')" and "tw_seen w = []"
  shows "prefix (tw_audit w) (tw_audit w')
    \<and> list_all (\<lambda>(k, lg, sc). prefix lg (tw_audit w')
        \<and> (case current_elevation sc of None \<Rightarrow> True | Some e \<Rightarrow> on_record (granted_at c {} k) lg e
            \<and> (case el_kind e of CrossTenant \<Rightarrow> True
                | Impersonation i \<Rightarrow> \<not> opens_tenant c \<longrightarrow> current_tenant sc = Some (TenantContext_new i)))) (tw_seen w')"
proof -
  have "run_ok (\<not> opens_tenant c) (granted_at c {}) w (snd (run_client U c \<lparr>current_tenant = t, current_elevation = None\<rparr> w))"
    by (rule run_client_in_order [OF assms(1)]) simp_all
  then show ?thesis using assms(2,3) by (fastforce simp: run_ok_def scope_ok_def list_all_iff)
qed

definition office :: "TaskWorld Elevator" where
  "office = \<lparr>ev_id = 1, ev_policy = allow_purposes_authorize (allow_impersonation ''support'' (allow ''backoffice'' AllowPurposes_new)),
     ev_audit = memory_record\<rparr>"

definition office_work :: client where
  "office_work = Both (Elevate office ''backoffice'' (Some '' ana '') ''l1'' (Both (Access 0) (Spawn (Access 1))))
     (Impersonate office 7 ''support'' ''ana'' ''l2'' (Access 2))"

definition plain_uuids :: UuidText where
  "plain_uuids = \<lparr>parse_str = (\<lambda>s. if list_all (\<lambda>c. c = CHR ''x'') s then Ok (length s) else Err ''invalid''),
     uuid_string = (\<lambda>n. replicate n CHR ''x'')\<rparr>"

definition office_world :: TaskWorld where
  "office_world = \<lparr>tw_clock = int, tw_ticks = 0, tw_audit = [], tw_seen = []\<rparr>"

lemma office_seen:
  "map (\<lambda>(k, lg, sc). (k, length lg, map_option el_kind (current_elevation sc)))
       (tw_seen (snd (run_client plain_uuids office_work no_scope office_world)))
     = [(0, 1, Some CrossTenant), (1, 1, None), (2, 2, Some (Impersonation 7))]"
  by code_simp

theorem elevation_on_record_witness:
  "let w' = snd (run_client plain_uuids office_work no_scope office_world)
   in map (\<lambda>(k, lg, sc). (k, length lg, map_option el_kind (current_elevation sc))) (tw_seen w')
       = [(0, 1, Some CrossTenant), (1, 1, None), (2, 2, Some (Impersonation 7))]
     \<and> list_all (\<lambda>(k, lg, sc). case current_elevation sc of None \<Rightarrow> True
          | Some e \<Rightarrow> on_record (if k = 1 then {} else {office}) lg e) (tw_seen w')"
proof -
  obtain r w' where e: "run_client plain_uuids office_work no_scope office_world = (r, w')"
    by (cases "run_client plain_uuids office_work no_scope office_world")
  have "\<forall>el \<in> elevators office_work. ev_audit el = memory_record" by (simp add: office_work_def office_def)
  note rec = elevation_on_record [OF this e [unfolded no_scope_def]]
  have g: "granted_at office_work {} k \<subseteq> (if k = 1 then {} else {office})" for k by (simp add: office_work_def)
  have mono: "on_record (if k = 1 then {} else {office}) lg x" if "on_record (granted_at office_work {} k) lg x" for k lg x
    using on_record_mono [OF that g [of k], of "[]"] by simp
  have "list_all (\<lambda>(k, lg, sc). case current_elevation sc of None \<Rightarrow> True
      | Some e \<Rightarrow> on_record (if k = 1 then {} else {office}) lg e) (tw_seen w')"
    using rec mono by (fastforce simp: office_world_def list_all_iff split: option.splits)
  then show ?thesis using office_seen by (simp add: e Let_def)
qed

text \<open>
  What an elevator decides. An elevation is refused, and the work not run, if the actor it names
  is not a plain label after trimming, if an impersonation names none, or if the policy refuses;
  otherwise the work runs under an elevation of exactly the requested kind. Either way exactly one
  entry is recorded, and it never carries a malformed actor.
\<close>

theorem elevated_decides:
  assumes "ev_audit el = memory_record" and "elevated tw_env el p a loc work sc w = (r, w')"
    and "\<And>sc w. tw_audit (snd (work sc w)) = tw_audit w"
  shows "\<exists>entry. tw_audit w' = tw_audit w @ [entry] \<and> au_purpose entry = p \<and> au_kind entry = CrossTenant \<and> au_caller entry = loc
    \<and> (case au_actor entry of None \<Rightarrow> True | Some x \<Rightarrow> is_plain_label x)
    \<and> (case r of
         Err d \<Rightarrow> au_outcome entry = Denied (ed_reason d) \<and> tw_seen w' = tw_seen w
           \<and> decision (ev_policy el) p (said_actor a) CrossTenant = Err (ed_reason d)
       | Ok x \<Rightarrow> au_outcome entry = Granted \<and> decision (ev_policy el) p (said_actor a) CrossTenant = Ok ()
           \<and> (\<exists>e w1. issued el e \<and> el_kind e = CrossTenant \<and> el_purpose e = p \<and> el_actor e = said_actor a
               \<and> work (sc\<lparr>current_elevation := Some e\<rparr>) w1 = (x, w')))"
proof -
  obtain ra w2 where ad: "admit tw_env el p a CrossTenant loc w = (ra, w2)" by fastforce
  obtain now w1 entry where s: "utc_now tw_env w = (now, w1)" "w2 = ev_audit el entry w1" "au_purpose entry = p" "au_kind entry = CrossTenant"
    "au_at entry = now" "au_caller entry = loc"
    and ra: "case ra of
       Ok e \<Rightarrow> decision (ev_policy el) p (said_actor a) CrossTenant = Ok () \<and> au_outcome entry = Granted \<and> au_actor entry = said_actor a
         \<and> e = \<lparr>el_purpose = p, el_actor = said_actor a, el_kind = CrossTenant, el_granted_at = now, el_issuer = ev_id el, el_caller = loc\<rparr>
     | Err d \<Rightarrow> decision (ev_policy el) p (said_actor a) CrossTenant = Err (ed_reason d) \<and> ed_purpose d = p \<and> au_outcome entry = Denied (ed_reason d)
         \<and> (\<forall>x. au_actor entry = Some x \<longrightarrow> is_plain_label x)"
    by (rule admit_spec [OF ad])
  have w2: "tw_audit w2 = tw_audit w @ [entry]" "tw_seen w2 = tw_seen w"
    using s(1,2) assms(1) by (auto simp: tw_env_def memory_record_def)
  show ?thesis
  proof (cases ra)
    case (Inl d)
    then have "r = Err d" "w' = w2" using assms(2) ad by (simp_all add: elevated_def)
    then show ?thesis using Inl ra s w2 by (intro exI [of _ entry]) (auto split: option.splits)
  next
    case (Inr e)
    obtain x w3 where x: "work (sc\<lparr>current_elevation := Some e\<rparr>) w2 = (x, w3)" by fastforce
    then have r: "r = Ok x" "w' = w3" using assms(2) ad Inr by (simp_all add: elevated_def elevation_scope_def)
    have "tw_audit w3 = tw_audit w @ [entry]" using assms(3) [of "sc\<lparr>current_elevation := Some e\<rparr>" w2] x w2 by simp
    moreover have "issued el e \<and> el_kind e = CrossTenant \<and> el_purpose e = p \<and> el_actor e = said_actor a
        \<and> work (sc\<lparr>current_elevation := Some e\<rparr>) w2 = (x, w')"
      using Inr ra x r by (auto simp: issued_def)
    then have "\<exists>e w1. issued el e \<and> el_kind e = CrossTenant \<and> el_purpose e = p \<and> el_actor e = said_actor a
        \<and> work (sc\<lparr>current_elevation := Some e\<rparr>) w1 = (x, w')" by blast
    ultimately show ?thesis using Inr ra s r decision_Ok(2) [of "ev_policy el" p "said_actor a" CrossTenant]
      by (intro exI [of _ entry]) (simp split: option.splits)
  qed
qed

theorem elevated_decides_witness:
  "tw_audit (snd (elevated tw_env office ''payout'' None ''l3'' (\<lambda>sc w. ((), w)) no_scope office_world)) =
     [\<lparr>au_purpose = ''payout'', au_actor = None, au_kind = CrossTenant,
       au_outcome = Denied ''this purpose may not cross the tenant boundary this way'', au_at = 0, au_caller = ''l3''\<rparr>]"
proof -
  obtain r w' where e: "elevated tw_env office ''payout'' None ''l3'' (\<lambda>sc w. ((), w)) no_scope office_world = (r, w')" by fastforce
  have "ev_audit office = memory_record" by (simp add: office_def)
  from elevated_decides [OF this e] have "length (tw_audit w') = 1" by (auto simp: office_world_def)
  moreover have "tw_audit (snd (elevated tw_env office ''payout'' None ''l3'' (\<lambda>sc w. ((), w)) no_scope office_world)) =
     [\<lparr>au_purpose = ''payout'', au_actor = None, au_kind = CrossTenant,
       au_outcome = Denied ''this purpose may not cross the tenant boundary this way'', au_at = 0, au_caller = ''l3''\<rparr>]"
    by code_simp
  ultimately show ?thesis by blast
qed

text \<open>The pass as it should be: each result with its tenant.\<close>

fun visit_all :: "(TenantId \<Rightarrow> ('w, 'e + unit) task) \<Rightarrow> TenantId list \<Rightarrow> 'w \<Rightarrow> (TenantId \<times> ('e + unit)) list \<times> 'w" where
  "visit_all work [] w = ([], w)"
| "visit_all work (t # ts) w =
     (let (r, w1) = work t \<lparr>current_tenant = Some (TenantContext_new t), current_elevation = None\<rparr> w;
          (rs, w2) = visit_all work ts w1
      in ((t, r) # rs, w2))"

lemma for_each_loop_visits:
  "for_each_loop work ts report sc w = (let (rs, w') = visit_all work ts w in
     (\<lparr>fe_succeeded = fe_succeeded report + length (filter (\<lambda>(t, r). is_ok r) rs),
       fe_failed = fe_failed report @ [(t, e). (t, Inl e) \<leftarrow> rs]\<rparr>, w'))"
proof (induction ts arbitrary: report w)
  case Nil
  then show ?case by (cases report) simp
next
  case (Cons t ts)
  have sc: "sc\<lparr>current_tenant := x, current_elevation := None\<rparr> = \<lparr>current_tenant = x, current_elevation = None\<rparr>" for x
    by (cases sc) simp
  show ?case
    by (cases "work t \<lparr>current_tenant = Some (TenantContext_new t), current_elevation = None\<rparr> w"; cases "fst (work t \<lparr>current_tenant = Some (TenantContext_new t), current_elevation = None\<rparr> w)")
      (simp_all add: tenant_scope_def without_elevation_def elevation_scope_def sc Cons split_beta Let_def)
qed

text \<open>
  A pass over the tenants runs the work once for every tenant, in the order listed, each time
  in the scope of that tenant and without any elevation of the caller; a failure neither stops the
  pass nor hides another result: the failures are reported in visit order, the rest is counted.
\<close>

theorem for_each_tenant_visits_all:
  assumes "source sc w = (Ok ts, w1)" and "visit_all work ts w1 = (rs, w')"
  shows "map fst rs = ts \<and> for_each_tenant source work sc w =
      (Ok \<lparr>fe_succeeded = length (filter (\<lambda>(t, r). is_ok r) rs), fe_failed = [(t, e). (t, Inl e) \<leftarrow> rs]\<rparr>, w')
    \<and> visited \<lparr>fe_succeeded = length (filter (\<lambda>(t, r). is_ok r) rs), fe_failed = [(t, e). (t, Inl e) \<leftarrow> rs]\<rparr> = length ts"
proof -
  have ts: "map fst rs = ts" using assms(2)
    by (induction ts arbitrary: rs w1) (auto simp: split_beta Let_def)
  have "length (filter (\<lambda>(t, r). is_ok r) rs) + length [(t, e). (t, Inl e) \<leftarrow> rs] = length rs"
  proof (induction rs)
    case (Cons x rs)
    then show ?case by (cases x; cases "snd x") simp_all
  qed simp
  moreover have "length rs = length ts" using ts by auto
  ultimately show ?thesis using assms ts by (simp add: for_each_tenant_def for_each_loop_visits visited_def)
qed

theorem for_each_tenant_visits_all_witness:
  "fst (for_each_tenant (\<lambda>sc w. (Ok [3, 4, 5], w)) (\<lambda>t sc w. (if t = 4 then Err ''boom'' else Ok (), w @ [current_tenant sc])) no_scope [])
     = Ok \<lparr>fe_succeeded = 2, fe_failed = [(4, ''boom'')]\<rparr>"
proof -
  let ?work = "\<lambda>t sc w. (if t = 4 then Err ''boom'' else Ok () :: string + unit, w @ [current_tenant sc])"
  have "visit_all ?work [3, 4, 5] [] = ([(3, Ok ()), (4, Err ''boom''), (5, Ok ())],
      [Some (TenantContext_new 3), Some (TenantContext_new 4), Some (TenantContext_new 5)])" by simp
  from for_each_tenant_visits_all [where sc = no_scope and w = "[]" and source = "\<lambda>sc w. (Ok [3, 4, 5], w)", OF _ this]
  show ?thesis by simp
qed

text \<open>
  The tenant travels with the message. Work that handles a message stamped in a producer's
  scope runs in the scope of the producer's tenant and without elevation, whatever the scope of
  the consumer; a message from outside any tenant is handled outside any tenant; and a header that
  is not a tenant identifier is refused without running the work.
\<close>

theorem message_scope_roundtrip:
  assumes "\<And>i. parse_str U (uuid_string U i) = Ok i"
  shows "with_message_scope U (tenant_header_enrich U \<lparr>current_tenant = Some t, current_elevation = el\<rparr> m) work sc w
       = (case work \<lparr>current_tenant = Some t, current_elevation = None\<rparr> w of (r, w') \<Rightarrow> (Ok r, w'))
    \<and> (dm_get (headers m) TENANT_HEADER = None \<longrightarrow>
         with_message_scope U (tenant_header_enrich U \<lparr>current_tenant = None, current_elevation = el\<rparr> m) work sc w
         = (case work \<lparr>current_tenant = None, current_elevation = None\<rparr> w of (r, w') \<Rightarrow> (Ok r, w')))
    \<and> (\<forall>raw e. dm_get (headers m) TENANT_HEADER = Some raw \<longrightarrow> parse_str U raw = Err e \<longrightarrow>
         with_message_scope U m work sc w = (Err e, w))"
proof -
  have sc: "sc\<lparr>current_tenant := x, current_elevation := None\<rparr> = \<lparr>current_tenant = x, current_elevation = None\<rparr>" for x
    by (cases sc) simp
  have t: "\<lparr>tc_tenant_id = tc_tenant_id t\<rparr> = t" by (cases t) simp
  show ?thesis
    by (auto simp: with_message_scope_def tenant_header_enrich_def tenant_of_def TenantContext_parse_def TenantId_parse_def assms
        tenant_scope_def without_elevation_def elevation_scope_def sc t)
qed

theorem message_scope_roundtrip_witness:
  "fst (with_message_scope plain_uuids
      (tenant_header_enrich plain_uuids \<lparr>current_tenant = Some (TenantContext_new 3), current_elevation = None\<rparr> (Message_new 0 ''orders'' [] ''text''))
      (\<lambda>sc w. (current_tenant sc, w)) no_scope ()) = Ok (Some (TenantContext_new 3))"
proof -
  have "parse_str plain_uuids (uuid_string plain_uuids i) = Ok i" for i by (simp add: plain_uuids_def list_all_iff)
  from message_scope_roundtrip [of plain_uuids "TenantContext_new 3" None "Message_new 0 ''orders'' [] ''text''"
      "\<lambda>sc w. (current_tenant sc, w)" no_scope "()", OF this]
  show ?thesis by simp
qed

text \<open>How a policy is built.\<close>

datatype grant = Grant_cross Purpose | Grant_impersonation Purpose | Require_actor Purpose

primrec apply_grant :: "grant \<Rightarrow> AllowPurposes \<Rightarrow> AllowPurposes" where
  "apply_grant (Grant_cross p) = allow p"
| "apply_grant (Grant_impersonation p) = allow_impersonation p"
| "apply_grant (Require_actor p) = requiring_actor p"

lemma policy_built:
  "cross_tenant (fold apply_grant gs a) = cross_tenant a \<union> {p. Grant_cross p \<in> set gs}"
  "impersonation (fold apply_grant gs a) = impersonation a \<union> {p. Grant_impersonation p \<in> set gs}"
  "actor_required (fold apply_grant gs a) = actor_required a \<union> {p. Require_actor p \<in> set gs}"
proof (induction gs arbitrary: a)
  case (Cons g gs)
  { case 1 show ?case using Cons by (cases g) (auto simp: allow_def allow_impersonation_def requiring_actor_def) }
  { case 2 show ?case using Cons by (cases g) (auto simp: allow_def allow_impersonation_def requiring_actor_def) }
  { case 3 show ?case using Cons by (cases g) (auto simp: allow_def allow_impersonation_def requiring_actor_def) }
qed simp_all

text \<open>
  A policy built from \<open>allow\<close>, \<open>allow_impersonation\<close> and \<open>requiring_actor\<close> calls, in any order,
  grants a request exactly if its purpose was allowed for its kind of crossing, and, where an actor
  is required for it, one is named.
\<close>

theorem allow_purposes_exact:
  "allow_purposes_authorize (fold apply_grant gs AllowPurposes_new) rq = Ok () \<longleftrightarrow>
     (case rq_kind rq of CrossTenant \<Rightarrow> Grant_cross (rq_purpose rq) | Impersonation _ \<Rightarrow> Grant_impersonation (rq_purpose rq)) \<in> set gs
     \<and> (Require_actor (rq_purpose rq) \<notin> set gs \<or> rq_actor rq \<noteq> None)"
  by (auto simp: allow_purposes_authorize_def policy_built AllowPurposes_new_def Let_def split: ElevationKind.splits)

end
