(* ===== verification/Unit_Of_Work.thy ===== *)
theory Unit_Of_Work
  imports Aggregate Outbox
begin

text \<open>
  \<open>crates/pharos-app/src/unit_of_work.rs\<close> and \<open>crates/pharos-memory/src/in_memory_unit_of_work.rs\<close>:
  the transactional-store traits as dictionaries, \<open>save_and_enqueue_in\<close>, the contract under which it
  is atomic, and the in-memory unit of work that keeps it.
\<close>

section \<open>The transactional traits\<close>

text \<open>
  \<open>ts_rollback\<close> is what dropping the transaction handle does. The errors of a store are represented
  by their displayed text.
\<close>

record ('w, 'tx) TransactionalStore =
  ts_begin :: "('w, string, 'tx) op"
  ts_commit :: "'tx \<Rightarrow> ('w, string, unit) op"
  ts_rollback :: "'tx \<Rightarrow> 'w \<Rightarrow> 'w"
  insert_outbox_in_tx :: "'tx \<Rightarrow> OutboxMessage \<Rightarrow> 'w \<Rightarrow> (string + unit) \<times> 'tx \<times> 'w"

record ('w, 'tx, 'a) TransactionalRepository =
  save_in_tx :: "'tx \<Rightarrow> 'a \<Rightarrow> 'w \<Rightarrow> (RepositoryError + unit) \<times> 'tx \<times> 'a \<times> 'w"

datatype SaveAndEnqueueError = SaeRepository RepositoryError | SaeStore string | SaeMapping string

section \<open>Saving and enqueueing in one transaction\<close>

text \<open>
  The messages are built from the pending events before any transaction opens. The mapping is a
  fallible closure that may itself read an identifier or the clock.
\<close>
fun map_pending ::
    "'w Env \<Rightarrow> ('e \<Rightarrow> ('w, string, Message) op) \<Rightarrow> 'e list \<Rightarrow> ('w, SaveAndEnqueueError, OutboxMessage list) op" where
  "map_pending E map_event [] w = (Ok [], w)"
| "map_pending E map_event (e # es) w =
     (case map_event e w of
        (Inl err, w0) \<Rightarrow> (Err (SaeMapping err), w0)
      | (Inr m, w0) \<Rightarrow>
          (let (now, w1) = utc_now E w0; (fresh_id, w2) = now_v7 E w1
           in case map_pending E map_event es w2 of
                (Inl err, w3) \<Rightarrow> (Err err, w3)
              | (Inr ms, w3) \<Rightarrow> (Ok (OutboxMessage_new now fresh_id m # ms), w3)))"

fun insert_all_in_tx ::
    "('w, 'tx) TransactionalStore \<Rightarrow> 'tx \<Rightarrow> OutboxMessage list \<Rightarrow> 'w
     \<Rightarrow> (SaveAndEnqueueError + unit) \<times> 'tx \<times> 'w" where
  "insert_all_in_tx S tx [] w = (Ok (), tx, w)"
| "insert_all_in_tx S tx (m # ms) w =
     (case insert_outbox_in_tx S tx m w of
        (Inl e, tx', w') \<Rightarrow> (Err (SaeStore e), tx', w')
      | (Inr _, tx', w') \<Rightarrow> insert_all_in_tx S tx' ms w')"

text \<open>The inner async block; it returns the aggregate as the repository left it.\<close>

definition run_transaction ::
    "('w, 'tx) TransactionalStore \<Rightarrow> ('w, 'tx, 'a) TransactionalRepository \<Rightarrow> OutboxMessage list \<Rightarrow> 'a
     \<Rightarrow> 'w \<Rightarrow> (SaveAndEnqueueError + unit) \<times> 'a \<times> 'w" where
  "run_transaction S Rp messages a w =
     (case ts_begin S w of
        (Inl e, w1) \<Rightarrow> (Err (SaeStore e), a, w1)
      | (Inr tx, w1) \<Rightarrow>
          (case save_in_tx Rp tx a w1 of
             (Inl e, tx2, a2, w2) \<Rightarrow> (Err (SaeRepository e), a2, ts_rollback S tx2 w2)
           | (Inr _, tx2, a2, w2) \<Rightarrow>
               (case insert_all_in_tx S tx2 messages w2 of
                  (Inl e, tx3, w3) \<Rightarrow> (Err e, a2, ts_rollback S tx3 w3)
                | (Inr _, tx3, w3) \<Rightarrow>
                    (case ts_commit S tx3 w3 of
                       (Inl e, w4) \<Rightarrow> (Err (SaeStore e), a2, w4)
                     | (Inr _, w4) \<Rightarrow> (Ok (), a2, w4)))))"

definition save_and_enqueue_in ::
    "'w Env \<Rightarrow> ('a, 'i, 'e) AggregateRoot \<Rightarrow> ('w, 'tx) TransactionalStore
     \<Rightarrow> ('w, 'tx, 'a) TransactionalRepository \<Rightarrow> ('e \<Rightarrow> ('w, string, Message) op) \<Rightarrow> 'a
     \<Rightarrow> 'w \<Rightarrow> (SaveAndEnqueueError + unit) \<times> 'a \<times> 'w" where
  "save_and_enqueue_in E D S Rp map_event a w =
     (let expected = version D a
      in case map_pending E map_event (pending_events D a) w of
           (Inl e, w1) \<Rightarrow> (Err e, a, w1)
         | (Inr messages, w1) \<Rightarrow>
             (case run_transaction S Rp messages a w1 of
                (Inr _, a2, w2) \<Rightarrow> (Ok (), snd (drain_events D a2), w2)
              | (Inl e, a2, w2) \<Rightarrow> (Err e, set_version D expected a2, w2)))"

section \<open>The in-memory unit of work\<close>

record 'a InMemoryTx =
  staged_aggregate :: "'a option"
  staged_outbox :: "OutboxMessage list"

text \<open>\<open>uow_locked\<close> says that the guard of the mutex is held by an open transaction; \<open>begin\<close> waits
  while it is, so it is modelled for a free mutex.\<close>

record ('i, 'a) InMemoryUnitOfWork =
  uow_aggregates :: "('i, 'a) dashmap"
  uow_outbox :: InMemoryOutboxRepository
  uow_locked :: bool

definition uow_new :: "InMemoryOutboxRepository \<Rightarrow> ('i, 'a) InMemoryUnitOfWork" where
  "uow_new outbox = \<lparr>uow_aggregates = [], uow_outbox = outbox, uow_locked = False\<rparr>"

definition uow_len :: "('i, 'a) InMemoryUnitOfWork \<Rightarrow> nat" where
  "uow_len s = length (uow_aggregates s)"

definition uow_is_empty :: "('i, 'a) InMemoryUnitOfWork \<Rightarrow> bool" where
  "uow_is_empty s \<longleftrightarrow> uow_aggregates s = []"

definition uow_find_by_id :: "'i \<Rightarrow> (('i, 'a) InMemoryUnitOfWork, string, 'a option) op" where
  "uow_find_by_id i s = (Ok (dm_get (uow_aggregates s) i), s)"

definition uow_save ::
    "('a, 'i, 'e) AggregateRoot \<Rightarrow> 'a \<Rightarrow> ('i, 'a) InMemoryUnitOfWork
     \<Rightarrow> (RepositoryError + unit) \<times> 'a \<times> ('i, 'a) InMemoryUnitOfWork" where
  "uow_save D a s =
     (let expected = version D a; new_version = expected + 1
      in case dm_get (uow_aggregates s) (ar_id D a) of
           Some stored \<Rightarrow>
             (let actual = version D stored
              in if actual \<noteq> expected then (Err (ConcurrencyConflict expected (Some actual)), a, s)
                 else (let a' = set_version D new_version a
                       in (Ok (), a', s\<lparr>uow_aggregates := dm_insert (ar_id D a)
                             (snapshot_without_pending_events D a') (uow_aggregates s)\<rparr>)))
         | None \<Rightarrow>
             if expected \<noteq> 0 then (Err (ConcurrencyConflict expected None), a, s)
             else (let a' = set_version D new_version a
                   in (Ok (), a', s\<lparr>uow_aggregates := dm_insert (ar_id D a)
                         (snapshot_without_pending_events D a') (uow_aggregates s)\<rparr>)))"

definition uow_delete :: "'i \<Rightarrow> (('i, 'a) InMemoryUnitOfWork, string, unit) op" where
  "uow_delete i s = (Ok (), s\<lparr>uow_aggregates := dm_remove i (uow_aggregates s)\<rparr>)"

definition uow_begin :: "(('i, 'a) InMemoryUnitOfWork, string, 'a InMemoryTx) op" where
  "uow_begin s = (Ok \<lparr>staged_aggregate = None, staged_outbox = []\<rparr>, s\<lparr>uow_locked := True\<rparr>)"

fun uow_insert_all :: "OutboxMessage list \<Rightarrow> (InMemoryOutboxRepository, string, unit) op" where
  "uow_insert_all [] s = (Ok (), s)"
| "uow_insert_all (m # ms) s =
     (case ob_insert m s of
        (Inl _, s') \<Rightarrow> (Err ''infallible'', s')
      | (Inr _, s') \<Rightarrow> uow_insert_all ms s')"

definition uow_commit ::
    "('a, 'i, 'e) AggregateRoot \<Rightarrow> 'a InMemoryTx \<Rightarrow> (('i, 'a) InMemoryUnitOfWork, string, unit) op" where
  "uow_commit D tx s =
     (let s1 = (case staged_aggregate tx of
                  None \<Rightarrow> s
                | Some a \<Rightarrow> s\<lparr>uow_aggregates := dm_insert (ar_id D a) a (uow_aggregates s)\<rparr>);
          (r, ob) = uow_insert_all (staged_outbox tx) (uow_outbox s1)
      in (r, s1\<lparr>uow_outbox := ob, uow_locked := False\<rparr>))"

definition uow_rollback :: "'a InMemoryTx \<Rightarrow> ('i, 'a) InMemoryUnitOfWork \<Rightarrow> ('i, 'a) InMemoryUnitOfWork" where
  "uow_rollback tx s = s\<lparr>uow_locked := False\<rparr>"

definition uow_insert_outbox_in_tx ::
    "'a InMemoryTx \<Rightarrow> OutboxMessage \<Rightarrow> ('i, 'a) InMemoryUnitOfWork
     \<Rightarrow> (string + unit) \<times> 'a InMemoryTx \<times> ('i, 'a) InMemoryUnitOfWork" where
  "uow_insert_outbox_in_tx tx m s = (Ok (), tx\<lparr>staged_outbox := staged_outbox tx @ [m]\<rparr>, s)"

definition uow_save_in_tx ::
    "('a, 'i, 'e) AggregateRoot \<Rightarrow> 'a InMemoryTx \<Rightarrow> 'a \<Rightarrow> ('i, 'a) InMemoryUnitOfWork
     \<Rightarrow> (RepositoryError + unit) \<times> 'a InMemoryTx \<times> 'a \<times> ('i, 'a) InMemoryUnitOfWork" where
  "uow_save_in_tx D tx a s =
     (let expected = version D a;
          actual = map_option (version D) (dm_get (uow_aggregates s) (ar_id D a));
          accept = (let a' = set_version D (expected + 1) a
                    in (Ok (), tx\<lparr>staged_aggregate := Some (snapshot_without_pending_events D a')\<rparr>, a', s))
      in case actual of
           Some v \<Rightarrow> if v \<noteq> expected then (Err (ConcurrencyConflict expected (Some v)), tx, a, s) else accept
         | None \<Rightarrow> if expected \<noteq> 0 then (Err (ConcurrencyConflict expected None), tx, a, s) else accept)"

text \<open>The unit of work with a clock and an identifier generator, and its dictionaries.\<close>

record ('i, 'a) UowWorld =
  uw_uow :: "('i, 'a) InMemoryUnitOfWork"
  uw_clock :: "nat \<Rightarrow> instant"
  uw_uuids :: "nat \<Rightarrow> uuid"
  uw_tick :: nat

definition uw_env :: "('i, 'a) UowWorld Env" where
  "uw_env = \<lparr>
     utc_now = (\<lambda>w. (uw_clock w (uw_tick w), w\<lparr>uw_tick := uw_tick w + 1\<rparr>)),
     now_v7 = (\<lambda>w. (uw_uuids w (uw_tick w), w\<lparr>uw_tick := uw_tick w + 1\<rparr>)),
     random_f64 = (\<lambda>w. (0, w)), from_std = Inr\<rparr>"

definition uw_store :: "('a, 'i, 'e) AggregateRoot \<Rightarrow> (('i, 'a) UowWorld, 'a InMemoryTx) TransactionalStore" where
  "uw_store D = \<lparr>
     ts_begin = (\<lambda>w. let (r, s) = uow_begin (uw_uow w) in (r, w\<lparr>uw_uow := s\<rparr>)),
     ts_commit = (\<lambda>tx w. let (r, s) = uow_commit D tx (uw_uow w) in (r, w\<lparr>uw_uow := s\<rparr>)),
     ts_rollback = (\<lambda>tx w. w\<lparr>uw_uow := uow_rollback tx (uw_uow w)\<rparr>),
     insert_outbox_in_tx = (\<lambda>tx m w. let (r, tx', s) = uow_insert_outbox_in_tx tx m (uw_uow w)
                                     in (r, tx', w\<lparr>uw_uow := s\<rparr>))\<rparr>"

definition uw_repository ::
    "('a, 'i, 'e) AggregateRoot \<Rightarrow> (('i, 'a) UowWorld, 'a InMemoryTx, 'a) TransactionalRepository" where
  "uw_repository D = \<lparr>
     save_in_tx = (\<lambda>tx a w. let (r, tx', a', s) = uow_save_in_tx D tx a (uw_uow w)
                            in (r, tx', a', w\<lparr>uw_uow := s\<rparr>))\<rparr>"

section \<open>The contract of a transactional store\<close>

text \<open>
  \<open>visible\<close> is what readers outside the transaction see, \<open>quiet\<close> that no transaction is open, \<open>inside\<close>
  that the given handle is the open one, \<open>staged\<close> what it has staged, and \<open>applied\<close> the visible
  state once that is committed. \<open>current\<close> is the version a save must have.
\<close>

text \<open>The message carries what the mapping produced for the event, and is fresh.\<close>

definition enqueued_as :: "('e \<Rightarrow> ('w, string, Message) op) \<Rightarrow> 'e \<Rightarrow> OutboxMessage \<Rightarrow> bool" where
  "enqueued_as f e m \<longleftrightarrow> (\<exists>w w'. f e w = (Ok (om_message m), w')) \<and> om_status m = Pending \<and> om_attempts m = 0"

locale transactional_store = aggregate_root D state
  for D :: "('a, 'i, 'e) AggregateRoot" and state :: "'a \<Rightarrow> 's" +
  fixes E :: "'w Env"
    and S :: "('w, 'tx) TransactionalStore"
    and Rp :: "('w, 'tx, 'a) TransactionalRepository"
    and visible :: "'w \<Rightarrow> 'v"
    and quiet :: "'w \<Rightarrow> bool"
    and inside :: "'tx \<Rightarrow> 'w \<Rightarrow> bool"
    and staged :: "'tx \<Rightarrow> 'a option \<times> OutboxMessage list"
    and applied :: "'a option \<times> OutboxMessage list \<Rightarrow> 'v \<Rightarrow> 'v"
    and current :: "'v \<Rightarrow> 'i \<Rightarrow> nat"
  assumes begin_law: "quiet w \<Longrightarrow> ts_begin S w = (rb, w') \<Longrightarrow> visible w' = visible w
      \<and> (case rb of Inl _ \<Rightarrow> quiet w' | Inr tx \<Rightarrow> inside tx w' \<and> staged tx = (None, []))"
    and save_law: "inside tx w \<Longrightarrow> save_in_tx Rp tx a w = (rs, tx', a', w') \<Longrightarrow>
      visible w' = visible w \<and> inside tx' w' \<and> (case rs of
        Inl _ \<Rightarrow> \<exists>n. a' = set_version D n a
      | Inr _ \<Rightarrow> version D a = current (visible w) (ar_id D a) \<and> a' = set_version D (version D a + 1) a
          \<and> staged tx' = (Some (snapshot_without_pending_events D a'), snd (staged tx)))"
    and insert_law: "inside tx w \<Longrightarrow> insert_outbox_in_tx S tx m w = (r, tx', w') \<Longrightarrow>
      visible w' = visible w \<and> inside tx' w' \<and> (is_ok r \<longrightarrow> staged tx' = (fst (staged tx), snd (staged tx) @ [m]))"
    and commit_law: "inside tx w \<Longrightarrow> ts_commit S tx w = (r, w') \<Longrightarrow>
      quiet w' \<and> visible w' = (if is_ok r then applied (staged tx) (visible w) else visible w)"
    and rollback_law: "inside tx w \<Longrightarrow> quiet (ts_rollback S tx w) \<and> visible (ts_rollback S tx w) = visible w"
    and clock_law: "quiet w \<Longrightarrow> utc_now E w = (t, w') \<Longrightarrow> quiet w' \<and> visible w' = visible w"
    and ids_law: "quiet w \<Longrightarrow> now_v7 E w = (i, w') \<Longrightarrow> quiet w' \<and> visible w' = visible w"
begin

definition reads_only :: "('e \<Rightarrow> ('w, string, Message) op) \<Rightarrow> bool" where
  "reads_only f \<longleftrightarrow> (\<forall>e v. quiet v \<longrightarrow> quiet (snd (f e v)) \<and> visible (snd (f e v)) = visible v)"

lemma map_pending_spec:
  assumes f: "reads_only f" and "quiet w" and "map_pending E f es w = (r, w')"
  shows "quiet w' \<and> visible w' = visible w \<and> (\<forall>ms. r = Ok ms \<longrightarrow> list_all2 (enqueued_as f) es ms)"
  using assms(2,3)
proof (induction es arbitrary: w r w')
  case (Cons e es)
  obtain r0 w0 where e0: "f e w = (r0, w0)" by fastforce
  have q0: "quiet w0" "visible w0 = visible w" using f [unfolded reads_only_def, rule_format, OF Cons.prems(1), of e] e0 by simp_all
  show ?case
  proof (cases r0)
    case (Inl err)
    then show ?thesis using Cons.prems q0 e0 by auto
  next
    case (Inr m)
    obtain t w1 where e1: "utc_now E w0 = (t, w1)" by fastforce
    obtain i w2 where e2: "now_v7 E w1 = (i, w2)" by fastforce
    obtain r3 w3 where e3: "map_pending E f es w2 = (r3, w3)" by fastforce
    have q: "quiet w2" "visible w2 = visible w"
      using q0 clock_law [OF q0(1) e1] ids_law [OF _ e2] by auto
    have "enqueued_as f e (OutboxMessage_new t i m)"
      unfolding enqueued_as_def OutboxMessage_new_def using e0 Inr by auto
    with Cons.IH [OF q(1) e3] show ?thesis
      using Cons.prems(2) Inr e0 e1 e2 e3 q(2) by (cases r3) auto
  qed
qed auto

lemma insert_all_spec:
  assumes "inside tx w" and "insert_all_in_tx S tx ms w = (r, tx', w')"
  shows "visible w' = visible w \<and> inside tx' w'
    \<and> (is_ok r \<longrightarrow> staged tx' = (fst (staged tx), snd (staged tx) @ ms))"
  using assms
proof (induction ms arbitrary: tx w)
  case (Cons m ms)
  obtain r1 tx1 w1 where e: "insert_outbox_in_tx S tx m w = (r1, tx1, w1)" by (metis prod.exhaust)
  note l = insert_law [OF Cons.prems(1) e]
  show ?case
  proof (cases r1)
    case (Inl x)
    then show ?thesis using l e Cons.prems(2) by auto
  next
    case (Inr u)
    then show ?thesis using l e Cons.prems(2) Cons.IH [of tx1 w1] by auto
  qed
qed simp

lemma run_transaction_spec:
  assumes "quiet w" and "run_transaction S Rp ms a w = (r, a', w')"
  shows "quiet w' \<and> (\<exists>n. a' = set_version D n a \<or> a' = a) \<and> (case r of
      Inl _ \<Rightarrow> visible w' = visible w
    | Inr _ \<Rightarrow> version D a = current (visible w) (ar_id D a) \<and> a' = set_version D (version D a + 1) a
        \<and> visible w' = applied (Some (snapshot_without_pending_events D a'), ms) (visible w))"
proof -
  obtain r1 w1 where e1: "ts_begin S w = (r1, w1)" by fastforce
  note l1 = begin_law [OF assms(1) e1]
  show ?thesis
  proof (cases r1)
    case (Inl x)
    then show ?thesis using l1 e1 assms(2) by (auto simp: run_transaction_def)
  next
    case r1: (Inr tx)
    then have tx: "inside tx w1" "staged tx = (None, [])" "visible w1 = visible w" using l1 by auto
    obtain r2 tx2 a2 w2 where e2: "save_in_tx Rp tx a w1 = (r2, tx2, a2, w2)" by (metis prod.exhaust)
    note l2 = save_law [OF tx(1) e2]
    show ?thesis
    proof (cases r2)
      case (Inl x)
      then show ?thesis using l2 e1 e2 r1 tx rollback_law [of tx2 w2] assms(2)
        by (auto simp: run_transaction_def)
    next
      case r2: (Inr u)
      obtain r3 tx3 w3 where e3: "insert_all_in_tx S tx2 ms w2 = (r3, tx3, w3)" by (metis prod.exhaust)
      note l3 = insert_all_spec [OF _ e3]
      show ?thesis
      proof (cases r3)
        case (Inl x)
        then show ?thesis using l2 l3 e1 e2 e3 r1 r2 tx rollback_law [of tx3 w3] assms(2)
          by (auto simp: run_transaction_def)
      next
        case r3: (Inr v)
        obtain r4 w4 where e4: "ts_commit S tx3 w3 = (r4, w4)" by fastforce
        show ?thesis
          using l2 l3 e1 e2 e3 e4 r1 r2 r3 tx commit_law [OF _ e4] assms(2)
          by (cases r4) (auto simp: run_transaction_def)
      qed
    qed
  qed
qed

lemma save_and_enqueue_in_atomic:
  assumes f: "reads_only f" and "quiet w" and "save_and_enqueue_in E D S Rp f a w = (r, a', w')"
  shows "quiet w' \<and> (case r of
      Inl _ \<Rightarrow> visible w' = visible w \<and> a' = a
    | Inr _ \<Rightarrow> version D a = current (visible w) (ar_id D a)
        \<and> version D a' = version D a + 1 \<and> pending_events D a' = [] \<and> state a' = state a \<and> ar_id D a' = ar_id D a
        \<and> (\<exists>ms. list_all2 (enqueued_as f) (pending_events D a) ms
             \<and> visible w' = applied (Some a', ms) (visible w)))"
proof -
  obtain r1 w1 where e1: "map_pending E f (pending_events D a) w = (r1, w1)" by fastforce
  note l1 = map_pending_spec [OF f assms(2) e1]
  show ?thesis
  proof (cases r1)
    case (Inl x)
    then show ?thesis using l1 e1 assms(3) by (auto simp: save_and_enqueue_in_def)
  next
    case r1: (Inr ms)
    obtain r2 a2 w2 where e2: "run_transaction S Rp ms a w1 = (r2, a2, w2)" by (metis prod.exhaust)
    note l2 = run_transaction_spec [OF _ e2]
    show ?thesis
    proof (cases r2)
      case (Inl x)
      have "set_version D (version D a) a = a" by (rule determined) (simp_all add: frames)
      moreover have "set_version D (version D a) (set_version D n a) = a" for n by (rule set_version_back) simp
      ultimately have "set_version D (version D a) a2 = a" using l1 l2 by auto
      then show ?thesis using l1 l2 e1 e2 r1 Inl assms(3) by (auto simp: save_and_enqueue_in_def)
    next
      case r2: (Inr u)
      have w1: "quiet w1" "visible w1 = visible w" and ms: "list_all2 (enqueued_as f) (pending_events D a) ms"
        using l1 r1 by auto
      have a2: "a2 = set_version D (version D a + 1) a" "version D a = current (visible w) (ar_id D a)"
        and w2: "quiet w2" "visible w2 = applied (Some (snapshot_without_pending_events D a2), ms) (visible w)"
        using l2 [OF w1(1)] r2 w1(2) by simp_all
      have res: "r = Ok ()" "a' = snd (drain_events D a2)" "w' = w2"
        using assms(3) e1 e2 r1 r2 by (auto simp: save_and_enqueue_in_def)
      have "visible w' = applied (Some a', ms) (visible w)"
        using w2 res by (simp add: snapshot_without_pending_events_def)
      moreover have "version D a' = version D a + 1" "pending_events D a' = []" "state a' = state a"
        "ar_id D a' = ar_id D a"
        unfolding res(2) a2(1) by (simp_all add: frames)
      ultimately show ?thesis using res(1,3) w2(1) a2(2) ms by auto
    qed
  qed
qed

end

section \<open>The in-memory unit of work keeps the contract\<close>

abbreviation uw_visible :: "('i, 'a) UowWorld \<Rightarrow> ('i, 'a) dashmap \<times> InMemoryOutboxRepository" where
  "uw_visible w \<equiv> (uow_aggregates (uw_uow w), uow_outbox (uw_uow w))"

definition uw_applied ::
    "('a, 'i, 'e) AggregateRoot \<Rightarrow> 'a option \<times> OutboxMessage list
     \<Rightarrow> ('i, 'a) dashmap \<times> InMemoryOutboxRepository \<Rightarrow> ('i, 'a) dashmap \<times> InMemoryOutboxRepository" where
  "uw_applied D st v =
     ((case fst st of None \<Rightarrow> fst v | Some a \<Rightarrow> dm_insert (ar_id D a) a (fst v)),
      snd (uow_insert_all (snd st) (snd v)))"

definition uw_current ::
    "('a, 'i, 'e) AggregateRoot \<Rightarrow> ('i, 'a) dashmap \<times> InMemoryOutboxRepository \<Rightarrow> 'i \<Rightarrow> nat" where
  "uw_current D v i = (case dm_get (fst v) i of None \<Rightarrow> 0 | Some a \<Rightarrow> version D a)"

text \<open>The insertion into the in-memory outbox cannot fail, so neither can the commit.\<close>

lemma uow_insert_all_ok [simp]: "fst (uow_insert_all ms ob) = Ok ()"
  by (induction ms arbitrary: ob) (auto simp: ob_insert_def)

context aggregate_root
begin

lemma uow_transactional:
  "transactional_store D state uw_env (uw_store D) (uw_repository D) uw_visible
     (\<lambda>w. \<not> uow_locked (uw_uow w)) (\<lambda>tx w. uow_locked (uw_uow w))
     (\<lambda>tx. (staged_aggregate tx, staged_outbox tx)) (uw_applied D) (uw_current D)"
proof
  show "uow_locked (uw_uow w) \<Longrightarrow> ts_commit (uw_store D) tx w = (r, w') \<Longrightarrow>
      \<not> uow_locked (uw_uow w') \<and> uw_visible w' =
        (if is_ok r then uw_applied D (staged_aggregate tx, staged_outbox tx) (uw_visible w) else uw_visible w)"
    for tx and w :: "('i, 'a) UowWorld" and r w'
    using uow_insert_all_ok [of "staged_outbox tx" "uow_outbox (uw_uow w)"]
    by (cases "uow_insert_all (staged_outbox tx) (uow_outbox (uw_uow w))"; cases "staged_aggregate tx")
      (auto simp: uw_store_def uow_commit_def uw_applied_def Let_def)
qed (auto simp: uw_store_def uw_repository_def uw_env_def uow_begin_def uow_save_in_tx_def uow_rollback_def
      uow_insert_outbox_in_tx_def uw_current_def Let_def split: option.splits if_splits
      intro: set_version_some)

end

interpretation uow: transactional_store derived_aggregate_root agg_data uw_env
    "uw_store derived_aggregate_root" "uw_repository derived_aggregate_root" uw_visible
    "\<lambda>w. \<not> uow_locked (uw_uow w)" "\<lambda>tx w. uow_locked (uw_uow w)"
    "\<lambda>tx. (staged_aggregate tx, staged_outbox tx)" "uw_applied derived_aggregate_root"
    "uw_current derived_aggregate_root"
  by (rule derived.uow_transactional)

definition uow_stored :: "('a, 'i, 'e) AggregateRoot \<Rightarrow> ('i, 'a) InMemoryUnitOfWork \<Rightarrow> 'i \<Rightarrow> nat option" where
  "uow_stored D s i = map_option (version D) (dm_get (uow_aggregates s) i)"

definition uow_try_save ::
    "('a, 'i, 'e) AggregateRoot \<Rightarrow> 'a \<Rightarrow> ('i, 'a) InMemoryUnitOfWork \<Rightarrow> bool \<times> ('i, 'a) InMemoryUnitOfWork" where
  "uow_try_save D a s = (case uow_save D a s of (r, _, s') \<Rightarrow> (is_ok r, s'))"

sublocale aggregate_root \<subseteq> uows: versioned_store "uow_stored D" "uow_try_save D" "ar_id D" "version D"
  by unfold_locales
    (auto simp: uow_try_save_def uow_stored_def uow_save_def snapshot_without_pending_events_def frames Let_def
      split: option.splits if_splits)

section \<open>Properties of the unit of work\<close>

abbreviation save_and_enqueue_derived ::
    "('e \<Rightarrow> (('i, ('i, 'e, 's) Aggregate) UowWorld, string, Message) op) \<Rightarrow> ('i, 'e, 's) Aggregate
     \<Rightarrow> ('i, ('i, 'e, 's) Aggregate) UowWorld \<Rightarrow> (SaveAndEnqueueError + unit) \<times> ('i, 'e, 's) Aggregate \<times> ('i, ('i, 'e, 's) Aggregate) UowWorld" where
  "save_and_enqueue_derived \<equiv> save_and_enqueue_in uw_env derived_aggregate_root
     (uw_store derived_aggregate_root) (uw_repository derived_aggregate_root)"

lemma save_and_enqueue_spec:
  assumes "\<And>e v. uw_uow (snd (f e v)) = uw_uow v"
    and "\<not> uow_locked (uw_uow w)"
    and "save_and_enqueue_derived f a w = (r, a', w')"
  shows "\<not> uow_locked (uw_uow w') \<and> (case r of
      Inl _ \<Rightarrow> uw_visible w' = uw_visible w \<and> a' = a
    | Inr _ \<Rightarrow> agg_version a = derived_current (uow_aggregates (uw_uow w)) (agg_id a)
        \<and> a' = a\<lparr>agg_version := agg_version a + 1, agg_events := events_default\<rparr>
        \<and> uow_aggregates (uw_uow w') = dm_insert (agg_id a) a' (uow_aggregates (uw_uow w))
        \<and> (\<exists>ms. list_all2 (enqueued_as f) (ev_pending (agg_events a)) ms
             \<and> uow_insert_all ms (uow_outbox (uw_uow w)) = (Ok (), uow_outbox (uw_uow w'))))"
proof -
  have "uow.reads_only f" using assms(1) by (simp add: uow.reads_only_def)
  note atomic = uow.save_and_enqueue_in_atomic [OF this assms(2,3)]
  show ?thesis
  proof (cases r)
    case (Inl e)
    then show ?thesis using atomic by simp
  next
    case (Inr u)
    obtain ms where ms: "list_all2 (enqueued_as f) (ev_pending (agg_events a)) ms"
      and v: "uw_visible w' = uw_applied derived_aggregate_root (Some a', ms) (uw_visible w)"
      using atomic Inr by auto
    have a': "a' = a\<lparr>agg_version := agg_version a + 1, agg_events := events_default\<rparr>"
      by (rule derived.determined) (use atomic Inr in \<open>auto simp: events_default_def\<close>)
    show ?thesis
      using atomic Inr v ms uow_insert_all_ok [of ms "uow_outbox (uw_uow w)"]
      unfolding a' by (auto simp: uw_applied_def uw_current_def prod_eq_iff intro!: exI [of _ ms] split: option.split)
  qed
qed

text \<open>
  C3: \<open>save_and_enqueue_in\<close> on the in-memory unit of work is atomic, for every event mapping that
  does not itself write to the unit of work and whatever is stored: on an error of any kind nothing is stored, nothing is enqueued and
  the caller's aggregate is exactly as before (version and pending events included), so the call
  can be repeated; on success the aggregate had the stored version, is stored at the next
  version, and the outbox received exactly one pending message per pending event, in order,
  carrying the mapped event, while the caller's pending events are drained. Either way the
  transaction is closed.
\<close>

theorem save_and_enqueue_atomic:
  assumes "\<And>e v. uw_uow (snd (f e v)) = uw_uow v"
    and "\<not> uow_locked (uw_uow w)"
    and "save_and_enqueue_derived f a w = (r, a', w')"
  shows "\<not> uow_locked (uw_uow w') \<and> (case r of
      Inl _ \<Rightarrow> uw_visible w' = uw_visible w \<and> a' = a
    | Inr _ \<Rightarrow> agg_version a = derived_current (uow_aggregates (uw_uow w)) (agg_id a)
        \<and> a' = a\<lparr>agg_version := agg_version a + 1, agg_events := events_default\<rparr>
        \<and> uow_aggregates (uw_uow w') = dm_insert (agg_id a) a' (uow_aggregates (uw_uow w))
        \<and> (\<exists>ms. list_all2 (enqueued_as f) (ev_pending (agg_events a)) ms
             \<and> uow_insert_all ms (uow_outbox (uw_uow w)) = (Ok (), uow_outbox (uw_uow w'))))"
  by (rule save_and_enqueue_spec [OF assms])

definition uow_sample_world :: "(nat, (nat, string, unit) Aggregate) UowWorld" where
  "uow_sample_world = \<lparr>uw_uow = uow_new ob_default, uw_clock = int, uw_uuids = id, uw_tick = 0\<rparr>"

definition uow_sample :: "(nat, string, unit) Aggregate" where
  "uow_sample = \<lparr>agg_id = 1, agg_events = \<lparr>ev_pending = [''placed'', ''paid'']\<rparr>, agg_version = 0, agg_data = ()\<rparr>"

definition uow_sample_map :: "string \<Rightarrow> ((nat, (nat, string, unit) Aggregate) UowWorld, string, Message) op" where
  "uow_sample_map e w = (let (i, w') = now_v7 uw_env w in (Ok (Message_new i ''orders'' [1, 2] e), w'))"

lemma uow_sample_run:
  "fst (save_and_enqueue_derived uow_sample_map uow_sample uow_sample_world) = Ok ()"
  "map (\<lambda>(_, m). content_type (om_message m)) (ob_store (uow_outbox (uw_uow
     (snd (snd (save_and_enqueue_derived uow_sample_map uow_sample uow_sample_world)))))) = [''placed'', ''paid'']"
  by code_simp+

theorem save_and_enqueue_atomic_witness:
  "\<exists>a' w'. save_and_enqueue_derived uow_sample_map uow_sample uow_sample_world = (Ok (), a', w')
     \<and> \<not> uow_locked (uw_uow w') \<and> agg_version a' = 1 \<and> agg_events a' = events_default
     \<and> dm_get (uow_aggregates (uw_uow w')) 1 = Some a'"
proof -
  obtain a' w' where e: "save_and_enqueue_derived uow_sample_map uow_sample uow_sample_world = (Ok (), a', w')"
    using uow_sample_run(1) by (metis prod.collapse)
  have "\<not> uow_locked (uw_uow uow_sample_world)" by code_simp
  from save_and_enqueue_atomic [OF _ this e] e show ?thesis
    by (auto simp: uow_sample_def uow_sample_map_def uw_env_def)
qed

lemma uow_save_in_tx_Ok:
  "uow_save_in_tx derived_aggregate_root tx a s = (Ok (), tx', a', s') \<longleftrightarrow>
     agg_version a = derived_current (uow_aggregates s) (agg_id a) \<and> a' = a\<lparr>agg_version := agg_version a + 1\<rparr>
     \<and> s' = s \<and> tx' = tx\<lparr>staged_aggregate := Some (snapshot_without_pending_events derived_aggregate_root a')\<rparr>"
  by (auto simp: uow_save_in_tx_def Let_def split: option.splits)

lemma uow_commit_get:
  assumes "staged_aggregate tx = Some a"
  shows "fst (uow_commit derived_aggregate_root tx s) = Ok ()
    \<and> dm_get (uow_aggregates (snd (uow_commit derived_aggregate_root tx s))) (agg_id a) = Some a"
  using assms uow_insert_all_ok [of "staged_outbox tx" "uow_outbox s"]
  by (cases "uow_insert_all (staged_outbox tx) (uow_outbox s)") (simp add: uow_commit_def Let_def)

text \<open>
  The lock of the unit of work protects transactions only from one another: a plain
  \<open>Repository::save\<close> does not take it. When a transaction has staged a save of an aggregate, a
  plain save that read the same version is still accepted, and the later commit overwrites it
  with the staged copy: both writers are told they succeeded and one update is lost.
\<close>

theorem direct_save_lost_update:
  assumes "uow_save_in_tx derived_aggregate_root tx a s = (Ok (), tx', a', s1)"
    and "agg_id b = agg_id a" and "agg_version b = agg_version a"
  shows "case uow_save derived_aggregate_root b s1 of (r, b', s2) \<Rightarrow>
     r = Ok () \<and> dm_get (uow_aggregates s2) (agg_id a) = Some (b'\<lparr>agg_events := events_default\<rparr>)
     \<and> (case uow_commit derived_aggregate_root tx' s2 of (rc, s3) \<Rightarrow>
          rc = Ok () \<and> dm_get (uow_aggregates s3) (agg_id a) = Some (a'\<lparr>agg_events := events_default\<rparr>)
          \<and> agg_version a' = agg_version b')"
proof -
  have v: "agg_version b = derived_current (uow_aggregates s1) (agg_id b)"
    and a': "a' = a\<lparr>agg_version := agg_version a + 1\<rparr>"
    and tx': "staged_aggregate tx' = Some (a'\<lparr>agg_events := events_default\<rparr>)"
    using assms unfolding uow_save_in_tx_Ok by (auto simp: snapshot_without_pending_events_def split: option.split)
  have "uow_save derived_aggregate_root b s1 = (Ok (), b\<lparr>agg_version := agg_version b + 1\<rparr>,
      s1\<lparr>uow_aggregates := dm_insert (agg_id b)
        (b\<lparr>agg_version := agg_version b + 1, agg_events := events_default\<rparr>) (uow_aggregates s1)\<rparr>)"
    using v by (auto simp: uow_save_def Let_def snapshot_without_pending_events_def split: option.splits)
  then show ?thesis
    using uow_commit_get [OF tx'] a' assms(2,3) by (simp add: split_beta)
qed

theorem direct_save_lost_update_witness:
  "let s = uw_uow uow_sample_world; b = uow_sample\<lparr>agg_events := events_default\<rparr>;
       (rt, tx', a', s1) = uow_save_in_tx derived_aggregate_root \<lparr>staged_aggregate = None, staged_outbox = []\<rparr> uow_sample s
   in rt = Ok () \<and> fst (uow_save derived_aggregate_root b s1) = Ok ()"
proof -
  obtain tx' a' s1 where e: "uow_save_in_tx derived_aggregate_root \<lparr>staged_aggregate = None, staged_outbox = []\<rparr>
      uow_sample (uw_uow uow_sample_world) = (Ok (), tx', a', s1)"
    by (simp add: uow_save_in_tx_def uow_sample_world_def uow_new_def uow_sample_def Let_def)
  show ?thesis
    using direct_save_lost_update [OF e, of "uow_sample\<lparr>agg_events := events_default\<rparr>"] e
    by (auto simp: Let_def split: prod.splits)
qed

end
