(* ===== verification/Service.thy ===== *)
theory Service
  imports Event_Bus Unit_Of_Work
begin

text \<open>
  \<open>crates/pharos-app/src/error.rs\<close>, \<open>service.rs\<close>, \<open>aggregate_store.rs\<close>, \<open>default_store.rs\<close> and
  \<open>enrichment.rs\<close>: the error types of the application layer and what they show to a caller, the
  orchestration helpers that save an aggregate and deliver its events, and the default store.
\<close>

section \<open>Errors\<close>

datatype ApplicationError =
    AppDomain DomainError
  | AppRepository string
  | AppConcurrencyConflict nat "nat option"
  | AppEventBus EventBusError
  | AppOutbox OutboxError

text \<open>\<open>show_uuid\<close> is the \<open>Display\<close> of the uuid crate.\<close>

fun OutboxError_to_string :: "(uuid \<Rightarrow> string) \<Rightarrow> OutboxError \<Rightarrow> string" where
  "OutboxError_to_string show_uuid (OutboxNotFound i) = ''outbox message not found: '' @ show_uuid i"
| "OutboxError_to_string show_uuid (OutboxStorage e) = ''outbox storage failed: '' @ e"

fun ApplicationError_to_string :: "(uuid \<Rightarrow> string) \<Rightarrow> ApplicationError \<Rightarrow> string" where
  "ApplicationError_to_string show_uuid (AppDomain e) = DomainError_to_string e"
| "ApplicationError_to_string show_uuid (AppRepository e) = ''repository failure: '' @ e"
| "ApplicationError_to_string show_uuid (AppConcurrencyConflict e a) = conflict_text e a"
| "ApplicationError_to_string show_uuid (AppEventBus e) = EventBusError_to_string e"
| "ApplicationError_to_string show_uuid (AppOutbox e) = OutboxError_to_string show_uuid e"

fun ApplicationError_kind :: "ApplicationError \<Rightarrow> ErrorKind" where
  "ApplicationError_kind (AppDomain e) = DomainError_kind e"
| "ApplicationError_kind (AppConcurrencyConflict _ _) = ConflictKind"
| "ApplicationError_kind (AppRepository _) = InternalKind"
| "ApplicationError_kind (AppEventBus _) = InternalKind"
| "ApplicationError_kind (AppOutbox _) = InternalKind"

fun ApplicationError_public_message :: "ApplicationError \<Rightarrow> string" where
  "ApplicationError_public_message (AppDomain e) = DomainError_public_message e"
| "ApplicationError_public_message (AppConcurrencyConflict e a) = conflict_text e a"
| "ApplicationError_public_message _ = ''internal application error''"

datatype StoreError =
    StoreNotFound
  | StoreConcurrencyConflict nat "nat option"
  | StoreStorage string

fun StoreError_to_string :: "StoreError \<Rightarrow> string" where
  "StoreError_to_string StoreNotFound = ''aggregate not found''"
| "StoreError_to_string (StoreConcurrencyConflict e a) = conflict_text e a"
| "StoreError_to_string (StoreStorage e) = ''aggregate store failed: '' @ e"

fun StoreError_kind :: "StoreError \<Rightarrow> ErrorKind" where
  "StoreError_kind StoreNotFound = NotFoundKind"
| "StoreError_kind (StoreConcurrencyConflict _ _) = ConflictKind"
| "StoreError_kind (StoreStorage _) = InternalKind"

fun StoreError_public_message :: "StoreError \<Rightarrow> string" where
  "StoreError_public_message StoreNotFound = StoreError_to_string StoreNotFound"
| "StoreError_public_message (StoreConcurrencyConflict e a) = StoreError_to_string (StoreConcurrencyConflict e a)"
| "StoreError_public_message (StoreStorage _) = ''internal storage error''"

fun StoreError_from_application :: "(uuid \<Rightarrow> string) \<Rightarrow> ApplicationError \<Rightarrow> StoreError" where
  "StoreError_from_application show_uuid (AppConcurrencyConflict e a) = StoreConcurrencyConflict e a"
| "StoreError_from_application show_uuid other = StoreStorage (ApplicationError_to_string show_uuid other)"

fun StoreError_from_repository :: "RepositoryError \<Rightarrow> StoreError" where
  "StoreError_from_repository (ConcurrencyConflict e a) = StoreConcurrencyConflict e a"
| "StoreError_from_repository (RepositoryStorage e) = StoreStorage e"

section \<open>Saving and delivering\<close>

fun map_repository_error :: "RepositoryError \<Rightarrow> ApplicationError" where
  "map_repository_error (ConcurrencyConflict e a) = AppConcurrencyConflict e a"
| "map_repository_error (RepositoryStorage e) = AppRepository e"

fun publish_pending_batch ::
    "'e DomainEvent \<Rightarrow> ('a, 'i, 'e) AggregateRoot \<Rightarrow> ('w, 'e) EventBus \<Rightarrow> 'a \<Rightarrow> 'e list
     \<Rightarrow> 'w \<Rightarrow> (ApplicationError + unit) \<times> 'a \<times> 'w" where
  "publish_pending_batch De D b a [] w = (Ok (), a, w)"
| "publish_pending_batch De D b a (ev # remaining) w =
     (case bus_publish De b ev w of
        (Inl e, w') \<Rightarrow> (Err (AppEventBus e), restore_events D (ev # remaining) a, w')
      | (Inr _, w') \<Rightarrow> publish_pending_batch De D b a remaining w')"

definition save_and_publish ::
    "'e DomainEvent \<Rightarrow> ('a, 'i, 'e) AggregateRoot \<Rightarrow> ('w, 'a, 'i) Repository \<Rightarrow> ('w, 'e) EventBus \<Rightarrow> 'a
     \<Rightarrow> 'w \<Rightarrow> (ApplicationError + unit) \<times> 'a \<times> 'w" where
  "save_and_publish De D Rp b a w =
     (let events = pending_events D a
      in case repo_save Rp a w of
           (Inl e, a', w') \<Rightarrow> (Err (map_repository_error e), a', w')
         | (Inr _, a', w') \<Rightarrow> publish_pending_batch De D b (snd (drain_events D a')) events w')"

definition republish_pending ::
    "'e DomainEvent \<Rightarrow> ('a, 'i, 'e) AggregateRoot \<Rightarrow> ('w, 'e) EventBus \<Rightarrow> 'a
     \<Rightarrow> 'w \<Rightarrow> (ApplicationError + unit) \<times> 'a \<times> 'w" where
  "republish_pending De D b a w =
     (let (events, a') = drain_events D a in publish_pending_batch De D b a' events w)"

fun enqueue_batch ::
    "'w Env \<Rightarrow> ('a, 'i, 'e) AggregateRoot \<Rightarrow> 'w OutboxRepository \<Rightarrow> ('e \<Rightarrow> 'w \<Rightarrow> Message \<times> 'w) \<Rightarrow> 'a \<Rightarrow> 'e list
     \<Rightarrow> 'w \<Rightarrow> (ApplicationError + unit) \<times> 'a \<times> 'w" where
  "enqueue_batch E D R map_event a [] w = (Ok (), a, w)"
| "enqueue_batch E D R map_event a (ev # remaining) w =
     (let (m, w1) = map_event ev w; (now, w2) = utc_now E w1; (fresh_id, w3) = now_v7 E w2
      in case or_insert R (OutboxMessage_new now fresh_id m) w3 of
           (Inl e, w4) \<Rightarrow> (Err (AppOutbox e), restore_events D (ev # remaining) a, w4)
         | (Inr _, w4) \<Rightarrow> enqueue_batch E D R map_event a remaining w4)"

definition save_and_enqueue ::
    "'w Env \<Rightarrow> ('a, 'i, 'e) AggregateRoot \<Rightarrow> ('w, 'a, 'i) Repository \<Rightarrow> 'w OutboxRepository
     \<Rightarrow> ('e \<Rightarrow> 'w \<Rightarrow> Message \<times> 'w) \<Rightarrow> 'a \<Rightarrow> 'w \<Rightarrow> (ApplicationError + unit) \<times> 'a \<times> 'w" where
  "save_and_enqueue E D Rp R map_event a w =
     (let events = pending_events D a
      in case repo_save Rp a w of
           (Inl e, a', w') \<Rightarrow> (Err (map_repository_error e), a', w')
         | (Inr _, a', w') \<Rightarrow> enqueue_batch E D R map_event (snd (drain_events D a')) events w')"

section \<open>The default aggregate store\<close>

text \<open>A signal is a stored permit: \<open>notify_one\<close> leaves at most one.\<close>

datatype Delivery_mode = Inline | OutboxDelivery (outbox_topic: string) (signalled: bool)

record ('w, 'tx, 'a, 'i, 'e) DefaultAggregateStore =
  das_repo :: "('w, 'a, 'i) Repository"
  das_tx_repo :: "('w, 'tx, 'a) TransactionalRepository"
  das_store :: "('w, 'tx) TransactionalStore"
  das_bus :: "('w, 'e) EventBus"
  das_delivery :: Delivery_mode
  das_enrichers :: "(Message \<Rightarrow> Message) list"

definition das_new ::
    "('w, 'a, 'i) Repository \<Rightarrow> ('w, 'tx, 'a) TransactionalRepository \<Rightarrow> ('w, 'tx) TransactionalStore
     \<Rightarrow> ('w, 'e) EventBus \<Rightarrow> ('w, 'tx, 'a, 'i, 'e) DefaultAggregateStore" where
  "das_new repo tx_repo store bus = \<lparr>das_repo = repo, das_tx_repo = tx_repo, das_store = store, das_bus = bus,
     das_delivery = Inline, das_enrichers = []\<rparr>"

definition with_outbox ::
    "string \<Rightarrow> bool \<Rightarrow> ('w, 'tx, 'a, 'i, 'e) DefaultAggregateStore \<Rightarrow> ('w, 'tx, 'a, 'i, 'e) DefaultAggregateStore" where
  "with_outbox tp signal s = s\<lparr>das_delivery := OutboxDelivery tp signal\<rparr>"

definition with_enricher ::
    "(Message \<Rightarrow> Message) \<Rightarrow> ('w, 'tx, 'a, 'i, 'e) DefaultAggregateStore \<Rightarrow> ('w, 'tx, 'a, 'i, 'e) DefaultAggregateStore" where
  "with_enricher f s = s\<lparr>das_enrichers := das_enrichers s @ [f]\<rparr>"

definition das_find :: "('w, 'tx, 'a, 'i, 'e) DefaultAggregateStore \<Rightarrow> 'i \<Rightarrow> ('w, StoreError, 'a option) op" where
  "das_find s i w = (case find_by_id (das_repo s) i w of (Inl e, w') \<Rightarrow> (Err (StoreStorage e), w') | (Inr v, w') \<Rightarrow> (Ok v, w'))"

text \<open>The provided method \<open>load\<close>.\<close>

definition das_load :: "('w, 'tx, 'a, 'i, 'e) DefaultAggregateStore \<Rightarrow> 'i \<Rightarrow> ('w, StoreError, 'a) op" where
  "das_load s i w = (case das_find s i w of
       (Inl e, w') \<Rightarrow> (Err e, w')
     | (Inr None, w') \<Rightarrow> (Err StoreNotFound, w')
     | (Inr (Some a), w') \<Rightarrow> (Ok a, w'))"

text \<open>\<open>to_vec\<close> is \<open>serde_json::to_vec\<close>; the closure that builds the outgoing message.\<close>

definition das_map_event ::
    "'w Env \<Rightarrow> 'e DomainEvent \<Rightarrow> ('e \<Rightarrow> string + bytes) \<Rightarrow> string \<Rightarrow> (Message \<Rightarrow> Message) list \<Rightarrow> 'e \<Rightarrow> ('w, string, Message) op" where
  "das_map_event E De to_vec tp enrichers ev w =
     (case to_vec ev of
        Inl e \<Rightarrow> (Err e, w)
      | Inr pl \<Rightarrow>
          (let (fresh_id, w') = now_v7 E w;
               m = with_header (with_key (Message_new fresh_id tp pl ''application/json'') (event_aggregate_id De ev))
                     ''event_type'' (event_type De ev)
           in (Ok (fold (\<lambda>f m. f m) enrichers m), w')))"

fun SaveAndEnqueueError_to_string :: "SaveAndEnqueueError \<Rightarrow> string" where
  "SaveAndEnqueueError_to_string (SaeRepository e) = RepositoryError_to_string e"
| "SaveAndEnqueueError_to_string (SaeStore e) = e"
| "SaveAndEnqueueError_to_string (SaeMapping e) = ''event mapping failed: '' @ e"

fun das_store_error :: "SaveAndEnqueueError \<Rightarrow> StoreError" where
  "das_store_error (SaeRepository (ConcurrencyConflict e a)) = StoreConcurrencyConflict e a"
| "das_store_error other = StoreStorage (SaveAndEnqueueError_to_string other)"

definition das_save ::
    "'w Env \<Rightarrow> 'e DomainEvent \<Rightarrow> (uuid \<Rightarrow> string) \<Rightarrow> ('e \<Rightarrow> string + bytes) \<Rightarrow> ('w \<Rightarrow> 'w) \<Rightarrow> ('a, 'i, 'e) AggregateRoot
     \<Rightarrow> ('w, 'tx, 'a, 'i, 'e) DefaultAggregateStore \<Rightarrow> 'a \<Rightarrow> 'w \<Rightarrow> (StoreError + unit) \<times> 'a \<times> 'w" where
  "das_save E De show_uuid to_vec notify D s a w =
     (case das_delivery s of
        Inline \<Rightarrow>
          (case save_and_publish De D (das_repo s) (das_bus s) a w of
             (Inl e, a', w') \<Rightarrow> (Err (StoreError_from_application show_uuid e), a', w')
           | (Inr _, a', w') \<Rightarrow> (Ok (), a', w'))
      | OutboxDelivery tp signal \<Rightarrow>
          (case save_and_enqueue_in E D (das_store s) (das_tx_repo s) (das_map_event E De to_vec tp (das_enrichers s)) a w of
             (Inl e, a', w') \<Rightarrow> (Err (das_store_error e), a', w')
           | (Inr _, a', w') \<Rightarrow> (Ok (), a', if signal then notify w' else w')))"

section \<open>Classified errors\<close>

text \<open>
  The contract of \<open>ClassifiedError\<close>: an internal failure shows its caller nothing but a fixed text.
\<close>

locale classified_error =
  fixes kind :: "'e \<Rightarrow> ErrorKind"
    and public_message :: "'e \<Rightarrow> string"
    and redacted :: string
  assumes internal_redacted: "kind e = InternalKind \<Longrightarrow> public_message e = redacted"
begin

lemma internal_indistinguishable: "kind e = InternalKind \<Longrightarrow> kind e' = InternalKind \<Longrightarrow> public_message e = public_message e'"
  by (simp add: internal_redacted)

end

lemma DomainError_not_internal [simp]: "DomainError_kind e \<noteq> InternalKind"
  by (cases e) simp_all

interpretation domain_error: classified_error DomainError_kind DomainError_public_message "[]"
  by unfold_locales simp

interpretation repository_error: classified_error RepositoryError_kind RepositoryError_public_message "''internal storage error''"
  by unfold_locales (auto elim: RepositoryError_kind.elims)

interpretation application_error: classified_error ApplicationError_kind ApplicationError_public_message
    "''internal application error''"
proof
  fix e
  show "ApplicationError_kind e = InternalKind \<Longrightarrow> ApplicationError_public_message e = ''internal application error''"
    by (cases e) simp_all
qed

interpretation store_error: classified_error StoreError_kind StoreError_public_message "''internal storage error''"
  by unfold_locales (auto elim: StoreError_kind.elims)

section \<open>Delivery of a batch\<close>

text \<open>Publishing a list of events with no failure: the world afterwards.\<close>

fun publish_run :: "'e DomainEvent \<Rightarrow> ('w, 'e) EventBus \<Rightarrow> 'e list \<Rightarrow> 'w \<Rightarrow> 'w option" where
  "publish_run De b [] w = Some w"
| "publish_run De b (ev # evs) w =
     (case bus_publish De b ev w of (Inl _, _) \<Rightarrow> None | (Inr _, w') \<Rightarrow> publish_run De b evs w')"

text \<open>\<open>failed_at\<close>: the events before \<open>ev\<close> were published, \<open>ev\<close> failed, \<open>post\<close> was not tried.\<close>

definition failed_at ::
    "'e DomainEvent \<Rightarrow> ('w, 'e) EventBus \<Rightarrow> 'e list \<Rightarrow> 'w \<Rightarrow> 'e list \<Rightarrow> EventBusError \<Rightarrow> 'w \<Rightarrow> bool" where
  "failed_at De b evs w rest e w' \<longleftrightarrow> (\<exists>pre w1. evs = pre @ rest \<and> publish_run De b pre w = Some w1
     \<and> rest \<noteq> [] \<and> bus_publish De b (hd rest) w1 = (Err e, w'))"

lemma failed_at_here: "bus_publish De b ev w = (Err e, w') \<Longrightarrow> failed_at De b (ev # evs) w (ev # evs) e w'"
  by (simp add: failed_at_def exI [of _ "[]"])

lemma failed_at_later:
  assumes "bus_publish De b ev w = (Ok (), w1)" and "failed_at De b evs w1 rest e w'"
  shows "failed_at De b (ev # evs) w rest e w'"
proof -
  obtain pre w2 where "evs = pre @ rest" "publish_run De b pre w1 = Some w2" "rest \<noteq> []"
    "bus_publish De b (hd rest) w2 = (Err e, w')"
    using assms(2) by (auto simp: failed_at_def)
  then show ?thesis unfolding failed_at_def using assms(1) by (intro exI [of _ "ev # pre"] exI [of _ w2]) simp
qed

lemma publish_pending_batch_cases:
  "publish_pending_batch De D b a evs w = (r, a', w') \<Longrightarrow>
     r = Ok () \<and> a' = a \<and> publish_run De b evs w = Some w'
     \<or> (\<exists>rest e. failed_at De b evs w rest e w' \<and> r = Err (AppEventBus e) \<and> a' = restore_events D rest a)"
proof (induction evs arbitrary: w)
  case (Cons ev evs)
  obtain r1 w1 where e1: "bus_publish De b ev w = (r1, w1)" by fastforce
  show ?case
  proof (cases r1)
    case (Inl x)
    then show ?thesis using Cons.prems e1 failed_at_here [of De b ev w x w1 evs] by auto
  next
    case (Inr u)
    with Cons.prems e1 have b: "publish_pending_batch De D b a evs w1 = (r, a', w')" by simp
    from Cons.IH [OF b] show ?thesis
      using e1 Inr failed_at_later [of De b ev w w1 evs] by fastforce
  qed
qed simp

text \<open>
  What the helpers rely on: a failed save leaves the aggregate as it was, a successful one stores
  it, advances the version and touches nothing but the version and the pending events.
\<close>

locale saving_repository = aggregate_root D state
  for D :: "('a, 'i, 'e) AggregateRoot" and state :: "'a \<Rightarrow> 's" +
  fixes Rp :: "('w, 'a, 'i) Repository"
    and saved :: "'a \<Rightarrow> 'w \<Rightarrow> 'w"
  assumes save_failed: "repo_save Rp a w = (Err e, a', w') \<Longrightarrow> a' = a"
    and save_ok: "repo_save Rp a w = (Ok (), a', w') \<Longrightarrow>
      version D a' = version D a + 1 \<and> ar_id D a' = ar_id D a \<and> state a' = state a \<and> w' = saved a w"
begin

text \<open>The aggregate after a save, holding the given pending events.\<close>

definition advanced :: "'a \<Rightarrow> 'e list \<Rightarrow> 'a" where
  "advanced a es = restore_events D es (snd (drain_events D (set_version D (version D a + 1) a)))"

lemma advanced_frames: "pending_events D (advanced a es) = es" "version D (advanced a es) = version D a + 1"
    "ar_id D (advanced a es) = ar_id D a" "state (advanced a es) = state a"
  by (simp_all add: advanced_def frames)

lemma drained_advanced:
  assumes "repo_save Rp a w = (Ok (), a1, w1)"
  shows "restore_events D es (snd (drain_events D a1)) = advanced a es" "snd (drain_events D a1) = advanced a []"
  by (rule determined; use save_ok [OF assms] in \<open>simp add: frames advanced_frames\<close>)+

lemma save_and_publish_cases:
  assumes "save_and_publish De D Rp b a w = (r, a', w')"
  shows "(\<exists>e. r = Err (map_repository_error e) \<and> a' = a \<and> repo_save Rp a w = (Err e, a, w'))
    \<or> r = Ok () \<and> a' = advanced a [] \<and> publish_run De b (pending_events D a) (saved a w) = Some w'
    \<or> (\<exists>rest e. r = Err (AppEventBus e) \<and> a' = advanced a rest \<and> failed_at De b (pending_events D a) (saved a w) rest e w')"
proof -
  obtain r1 a1 w1 where e1: "repo_save Rp a w = (r1, a1, w1)" by (metis prod.exhaust)
  show ?thesis
  proof (cases r1)
    case (Inl e)
    then have "a1 = a" using e1 save_failed by blast
    then show ?thesis using e1 Inl assms by (auto simp: save_and_publish_def)
  next
    case (Inr u)
    then have e2: "repo_save Rp a w = (Ok (), a1, w1)" using e1 by simp
    have "publish_pending_batch De D b (snd (drain_events D a1)) (pending_events D a) w1 = (r, a', w')"
      using assms e2 by (simp add: save_and_publish_def)
    from publish_pending_batch_cases [OF this] show ?thesis
      using drained_advanced [OF e2] save_ok [OF e2] by auto
  qed
qed

lemma republish_cases:
  assumes "republish_pending De D b (advanced a rest) w = (r, a', w')"
  shows "r = Ok () \<and> a' = advanced a [] \<and> publish_run De b rest w = Some w'
    \<or> (\<exists>rest' e. r = Err (AppEventBus e) \<and> a' = advanced a rest' \<and> failed_at De b rest w rest' e w')"
proof -
  have "snd (drain_events D (advanced a rest)) = advanced a []"
    and r: "restore_events D es (advanced a []) = advanced a es" for es
    by (rule determined; simp add: frames advanced_frames)+
  then have "publish_pending_batch De D b (advanced a []) rest w = (r, a', w')"
    using assms by (simp add: republish_pending_def split_beta frames advanced_frames)
  from publish_pending_batch_cases [OF this] show ?thesis by (auto simp: r)
qed

end

section \<open>The helpers over the in-memory repository\<close>

text \<open>The repository lives in the first component of the world, what the handlers keep in the second.\<close>

definition on_repo ::
    "('a, 'i, 'e) AggregateRoot \<Rightarrow> (('i, 'a) InMemoryRepository \<times> 'h, 'a, 'i) Repository" where
  "on_repo D = \<lparr>
     find_by_id = (\<lambda>i (s, h). let (r, s') = imr_find_by_id i s in (r, s', h)),
     repo_save = (\<lambda>a (s, h). let (r, a', s') = imr_save D a s in (r, a', s', h)),
     repo_delete = (\<lambda>i (s, h). let (r, s') = imr_delete i s in (r, s', h))\<rparr>"

definition repo_saved ::
    "('a, 'i, 'e) AggregateRoot \<Rightarrow> 'a \<Rightarrow> ('i, 'a) InMemoryRepository \<times> 'h \<Rightarrow> ('i, 'a) InMemoryRepository \<times> 'h" where
  "repo_saved D a w = (dm_insert (ar_id D a) (snapshot_without_pending_events D (set_version D (version D a + 1) a)) (fst w), snd w)"

sublocale aggregate_root \<subseteq> on_repo: saving_repository D state "on_repo D" "repo_saved D"
proof
  fix a a' e and w w' :: "('i, 'a) InMemoryRepository \<times> 'x"
  show "repo_save (on_repo D) a w = (Err e, a', w') \<Longrightarrow> a' = a"
    by (cases w; cases "imr_save D a (fst w)") (auto simp: on_repo_def imr_save_Err)
  show "repo_save (on_repo D) a w = (Ok (), a', w') \<Longrightarrow> version D a' = version D a + 1
      \<and> ar_id D a' = ar_id D a \<and> state a' = state a \<and> w' = repo_saved D a w"
    by (cases w; cases "imr_save D a (fst w)") (auto simp: on_repo_def repo_saved_def imr_save_Ok frames)
qed

definition after_save :: "('i, 'e, 's) Aggregate \<Rightarrow> 'e list \<Rightarrow> ('i, 'e, 's) Aggregate" where
  "after_save a es = a\<lparr>agg_version := agg_version a + 1, agg_events := \<lparr>ev_pending = es\<rparr>\<rparr>"

lemma derived_advanced: "derived.on_repo.advanced a es = after_save a es"
  by (rule derived.determined) (use derived.on_repo.advanced_frames [of a es] in \<open>auto simp: after_save_def\<close>)

lemma on_repo_conflict:
  "repo_save (on_repo derived_aggregate_root) a w = (Err e, a', w') \<Longrightarrow>
     w' = w \<and> e = ConcurrencyConflict (agg_version a) (map_option agg_version (dm_get (fst w) (agg_id a)))"
  by (cases w; cases "imr_save derived_aggregate_root a (fst w)")
    (auto simp: on_repo_def derived.imr_save_Err imr_stored_def)

section \<open>Properties of the application layer\<close>

text \<open>
  C22: \<open>save_and_publish\<close> over the in-memory repository, for every bus and every state. A version
  conflict changes nothing, in the store or the caller's aggregate. After an accepted save either
  every pending event was published, in order, and none is pending; or publishing stopped at the
  first event that failed: then the save stands, the version is advanced by one, and exactly the
  failed event and the ones after it are pending again, in order. A \<open>republish_pending\<close> of that
  aggregate starts at the failed event: when it succeeds, every event was published, those before
  the failed one once only, and the version was advanced once.
\<close>

theorem save_and_publish_remainder:
  assumes run: "save_and_publish De derived_aggregate_root (on_repo derived_aggregate_root) b a w = (r, a', w')"
    and saved: "saved = repo_saved derived_aggregate_root a w" and evs: "evs = ev_pending (agg_events a)"
  shows "r = Err (AppConcurrencyConflict (agg_version a) (map_option agg_version (dm_get (fst w) (agg_id a))))
      \<and> a' = a \<and> w' = w
    \<or> r = Ok () \<and> a' = after_save a [] \<and> publish_run De b evs saved = Some w'
    \<or> (\<exists>rest e. r = Err (AppEventBus e) \<and> a' = after_save a rest \<and> failed_at De b evs saved rest e w'
        \<and> (\<forall>a2 w2. republish_pending De derived_aggregate_root b a' w' = (Ok (), a2, w2) \<longrightarrow>
             a2 = after_save a [] \<and> publish_run De b rest w' = Some w2))"
proof -
  have again: "republish_pending De derived_aggregate_root b (after_save a rest) w' = (Ok (), a2, w2) \<Longrightarrow>
      a2 = after_save a [] \<and> publish_run De b rest w' = Some w2" for rest a2 w2
    using derived.on_repo.republish_cases [of De b a rest w' "Ok ()" a2 w2] by (simp add: derived_advanced)
  from derived.on_repo.save_and_publish_cases [OF run] show ?thesis
    unfolding derived_advanced
  proof (elim disjE exE conjE)
    fix e assume "r = Err (map_repository_error e)" "a' = a"
      "repo_save (on_repo derived_aggregate_root) a w = (Err e, a, w')"
    with on_repo_conflict [of a w e a w'] show ?thesis by (simp add: saved evs)
  next
    fix rest e assume "r = Err (AppEventBus e)" "a' = after_save a rest"
      "failed_at De b (pending_events derived_aggregate_root a) (repo_saved derived_aggregate_root a w) rest e w'"
    then show ?thesis unfolding saved evs using again by auto
  qed (simp add: saved evs)
qed

definition order_sample :: "(nat, nat \<times> nat, unit) Aggregate" where
  "order_sample = \<lparr>agg_id = 1, agg_events = \<lparr>ev_pending = [(7, 2), (7, 0), (7, 5)]\<rparr>, agg_version = 0, agg_data = ()\<rparr>"

text \<open>A handler that refuses the event \<open>(7, 0)\<close> and logs the others.\<close>

definition log_handler ::
    "nat \<times> nat \<Rightarrow> ((nat, (nat, nat \<times> nat, unit) Aggregate) InMemoryRepository \<times> nat list, string, unit) op" where
  "log_handler ev w = (if snd ev = 0 then (Err ''refused'', w) else (Ok (), fst w, snd w @ [snd ev]))"

lemma order_sample_run:
  "save_and_publish toy_event derived_aggregate_root (on_repo derived_aggregate_root)
     (bus_register 7 ''Log'' log_handler bus_new) order_sample ([], [])
   = (Err (AppEventBus (HandlerError ''Placed'' ''refused'')), after_save order_sample [(7, 0), (7, 5)],
      [(1, after_save order_sample [])], [2])"
  by code_simp

theorem save_and_publish_remainder_witness:
  "\<exists>rest. rest = [(7, 0), (7, 5)] \<and>
     failed_at toy_event (bus_register 7 ''Log'' log_handler bus_new) [(7, 2), (7, 0), (7, 5)]
       (repo_saved derived_aggregate_root order_sample ([], [])) rest (HandlerError ''Placed'' ''refused'')
       ([(1, after_save order_sample [])], [2])"
proof -
  from save_and_publish_remainder [OF order_sample_run refl refl] obtain rest where
    "after_save order_sample [(7, 0), (7, 5)] = after_save order_sample rest"
    "failed_at toy_event (bus_register 7 ''Log'' log_handler bus_new) (ev_pending (agg_events order_sample))
       (repo_saved derived_aggregate_root order_sample ([], [])) rest (HandlerError ''Placed'' ''refused'')
       ([(1, after_save order_sample [])], [2])"
    by auto
  moreover from this(1) have "rest = [(7, 0), (7, 5)]"
    by (simp add: after_save_def order_sample_def)
  ultimately show ?thesis by (simp add: order_sample_def)
qed

text \<open>
  Nothing internal leaks through \<open>public_message\<close>: at every layer two failures classified as
  internal look the same to the caller, whatever adapter error they carry, and turning an
  application error into a store error keeps a conflict a conflict and turns everything else into
  an internal failure with the fixed text.
\<close>

theorem internal_errors_redacted:
  "(RepositoryError_kind e1 = InternalKind \<longrightarrow> RepositoryError_public_message e1 = ''internal storage error'')
   \<and> (ApplicationError_kind e2 = InternalKind \<longrightarrow> ApplicationError_public_message e2 = ''internal application error'')
   \<and> (StoreError_kind e3 = InternalKind \<longrightarrow> StoreError_public_message e3 = ''internal storage error'')
   \<and> StoreError_public_message (StoreError_from_application show_uuid e2) =
       (case e2 of AppConcurrencyConflict e a \<Rightarrow> ApplicationError_public_message e2 | _ \<Rightarrow> ''internal storage error'')
   \<and> StoreError_kind (StoreError_from_repository e1) = RepositoryError_kind e1
   \<and> StoreError_public_message (StoreError_from_repository e1) = RepositoryError_public_message e1"
proof -
  have "StoreError_public_message (StoreError_from_application show_uuid e2) =
       (case e2 of AppConcurrencyConflict e a \<Rightarrow> ApplicationError_public_message e2 | _ \<Rightarrow> ''internal storage error'')"
    by (cases e2) simp_all
  moreover have "StoreError_kind (StoreError_from_repository e1) = RepositoryError_kind e1
      \<and> StoreError_public_message (StoreError_from_repository e1) = RepositoryError_public_message e1"
    by (cases e1) simp_all
  ultimately show ?thesis
    using repository_error.internal_redacted application_error.internal_redacted store_error.internal_redacted by simp
qed

theorem internal_errors_redacted_witness:
  "ApplicationError_public_message (AppRepository ''connection refused: postgres:5432'') = ''internal application error''"
  using internal_errors_redacted [where ?e2.0 = "AppRepository ''connection refused: postgres:5432''"] by simp

text \<open>
  With inline delivery, \<open>AggregateStore::save\<close> reports a failing event handler as a storage
  failure although the save stands: the version of the aggregate is advanced and a proper suffix
  or all of its events is pending again, so the aggregate is not what it was before the call.
\<close>

theorem inline_failure_keeps_save:
  assumes "das_delivery s = Inline" and "das_repo s = on_repo derived_aggregate_root"
    and "das_save E De show_uuid to_vec notify derived_aggregate_root s a w = (Err (StoreStorage x), a', w')"
  shows "agg_version a' = agg_version a + 1 \<and> ev_pending (agg_events a') \<noteq> []
    \<and> suffix (ev_pending (agg_events a')) (ev_pending (agg_events a)) \<and> (\<exists>e. x = EventBusError_to_string e)"
proof -
  obtain r a1 w1 where e: "save_and_publish De derived_aggregate_root (on_repo derived_aggregate_root) (das_bus s) a w = (r, a1, w1)"
    by (metis prod.exhaust)
  from derived.on_repo.save_and_publish_cases [OF e] show ?thesis
    using assms e on_repo_conflict [of a w _ a1 w1]
    by (auto simp: das_save_def derived_advanced after_save_def failed_at_def suffix_def)
qed

definition inline_sample ::
    "((nat, (nat, nat \<times> nat, unit) Aggregate) InMemoryRepository \<times> nat list, unit,
      (nat, nat \<times> nat, unit) Aggregate, nat, nat \<times> nat) DefaultAggregateStore" where
  "inline_sample = das_new (on_repo derived_aggregate_root) \<lparr>save_in_tx = \<lambda>tx a w. (Ok (), tx, a, w)\<rparr>
     \<lparr>ts_begin = \<lambda>w. (Ok (), w), ts_commit = \<lambda>_ w. (Ok (), w), ts_rollback = \<lambda>_ w. w,
      insert_outbox_in_tx = \<lambda>tx _ w. (Ok (), tx, w)\<rparr> (bus_register 7 ''Log'' log_handler bus_new)"

definition still_env :: "'w Env" where
  "still_env = \<lparr>utc_now = \<lambda>w. (0, w), now_v7 = \<lambda>w. (0, w), random_f64 = \<lambda>w. (0, w), from_std = Inr\<rparr>"

lemma inline_sample_run:
  "das_save still_env toy_event (\<lambda>_. []) (\<lambda>_. Ok []) id derived_aggregate_root inline_sample order_sample ([], [])
   = (Err (StoreStorage (EventBusError_to_string (HandlerError ''Placed'' ''refused''))),
      after_save order_sample [(7, 0), (7, 5)], [(1, after_save order_sample [])], [2])"
  by code_simp

theorem inline_failure_keeps_save_witness:
  "agg_version (after_save order_sample [(7, 0), (7, 5)]) = agg_version order_sample + 1
   \<and> suffix (ev_pending (agg_events (after_save order_sample [(7, 0), (7, 5)]))) (ev_pending (agg_events order_sample))"
  using inline_failure_keeps_save [OF _ _ inline_sample_run] by (simp add: inline_sample_def das_new_def)

text \<open>
  C23: With outbox delivery over the in-memory unit of work, \<open>AggregateStore::save\<close> either fails and
  leaves the stores and the aggregate exactly as they were, or stores the aggregate at the next
  version together with one pending outbox message per event, in order: each carries the event
  serialised as JSON under the configured topic, keyed by the event's aggregate so that the
  broker keeps its order, with the event type as a header and every enricher applied in order.
\<close>

theorem outbox_save_messages:
  fixes w :: "('i, ('i, 'e, 's) Aggregate) UowWorld"
  assumes "das_delivery s = OutboxDelivery tp signal"
    and "das_store s = uw_store derived_aggregate_root" and "das_tx_repo s = uw_repository derived_aggregate_root"
    and "\<not> uow_locked (uw_uow w)" and "\<And>v. uw_uow (notify v) = uw_uow v"
    and "das_save uw_env De show_uuid to_vec notify derived_aggregate_root s a w = (r, a', w')"
  shows "case r of
      Inl _ \<Rightarrow> uw_visible w' = uw_visible w \<and> a' = a
    | Inr _ \<Rightarrow> a' = after_save a [] \<and> uow_aggregates (uw_uow w') = dm_insert (agg_id a) a' (uow_aggregates (uw_uow w))
        \<and> (\<exists>ms. list_all2 (\<lambda>ev m. \<exists>pl fresh_id. to_vec ev = Ok pl \<and> om_status m = Pending \<and>
               om_message m = fold (\<lambda>f. f) (das_enrichers s)
                 \<lparr>message_id = fresh_id, topic = tp, key = Some (event_aggregate_id De ev),
                  headers = [(''event_type'', event_type De ev)], payload = pl, content_type = ''application/json''\<rparr>)
               (ev_pending (agg_events a)) ms
             \<and> uow_insert_all ms (uow_outbox (uw_uow w)) = (Ok (), uow_outbox (uw_uow w')))"
proof -
  let ?f = "das_map_event (uw_env :: ('i, ('i, 'e, 's) Aggregate) UowWorld Env) De to_vec tp (das_enrichers s)"
  obtain r1 a1 w1 where e: "save_and_enqueue_derived ?f a w = (r1, a1, w1)" by (metis prod.exhaust)
  have f: "uw_uow (snd (?f ev v)) = uw_uow v" for ev v
    by (simp add: das_map_event_def uw_env_def split: sum.split)
  have m: "enqueued_as ?f ev m \<Longrightarrow> \<exists>pl fresh_id. to_vec ev = Ok pl \<and> om_status m = Pending \<and>
      om_message m = fold (\<lambda>f. f) (das_enrichers s)
        \<lparr>message_id = fresh_id, topic = tp, key = Some (event_aggregate_id De ev),
         headers = [(''event_type'', event_type De ev)], payload = pl, content_type = ''application/json''\<rparr>" for ev m
    by (cases "to_vec ev") (auto simp: enqueued_as_def das_map_event_def with_header_def with_key_def Message_new_def
        dm_insert_def split_beta intro: sym)
  note spec = save_and_enqueue_spec [OF f assms(4) e]
  show ?thesis
  proof (cases r1)
    case (Inl x)
    then show ?thesis using spec e assms by (auto simp: das_save_def)
  next
    case (Inr u)
    then have res: "r = Ok ()" "a' = a1" "uw_uow w' = uw_uow w1" using e assms by (auto simp: das_save_def)
    obtain ms where "list_all2 (enqueued_as ?f) (ev_pending (agg_events a)) ms"
      and ins: "uow_insert_all ms (uow_outbox (uw_uow w)) = (Ok (), uow_outbox (uw_uow w1))"
      using spec Inr by auto
    from list.rel_mono_strong [OF this(1) m] ins show ?thesis
      using spec Inr res by (auto simp: after_save_def events_default_def intro!: exI [of _ ms])
  qed
qed

definition outbox_sample ::
    "((nat, (nat, string, unit) Aggregate) UowWorld, (nat, string, unit) Aggregate InMemoryTx,
      (nat, string, unit) Aggregate, nat, string) DefaultAggregateStore" where
  "outbox_sample = with_enricher (\<lambda>m. with_header m ''tenant_id'' ''acme'') (with_outbox ''orders'' True
     (das_new \<lparr>find_by_id = \<lambda>i w. (Ok None, w), repo_save = \<lambda>a w. (Ok (), a, w), repo_delete = \<lambda>i w. (Ok (), w)\<rparr>
        (uw_repository derived_aggregate_root) (uw_store derived_aggregate_root) bus_new))"

definition text_event :: "string DomainEvent" where
  "text_event = \<lparr>type_id = (\<lambda>_. 1), event_type = id, occurred_at = (\<lambda>_. 0), event_aggregate_id = (\<lambda>_. ''1'')\<rparr>"

abbreviation outbox_sample_run ::
    "(StoreError + unit) \<times> (nat, string, unit) Aggregate \<times> (nat, (nat, string, unit) Aggregate) UowWorld" where
  "outbox_sample_run \<equiv> das_save uw_env text_event (\<lambda>_. []) (\<lambda>e. Ok (map (of_char :: char \<Rightarrow> nat) e)) id
     derived_aggregate_root outbox_sample uow_sample uow_sample_world"

lemma outbox_sample_ok: "fst outbox_sample_run = Ok ()"
  by code_simp

theorem outbox_save_messages_witness:
  "\<exists>ms. list_all2 (\<lambda>ev m. om_status m = Pending) [''placed'', ''paid''] ms
     \<and> uow_insert_all ms ob_default = (Ok (), uow_outbox (uw_uow (snd (snd outbox_sample_run))))"
proof -
  obtain a' w' where e: "outbox_sample_run = (Ok (), a', w')" using outbox_sample_ok by (metis prod.collapse)
  have l: "\<not> uow_locked (uw_uow uow_sample_world)" by code_simp
  have s: "das_delivery outbox_sample = OutboxDelivery ''orders'' True"
    "das_store outbox_sample = uw_store derived_aggregate_root" "das_tx_repo outbox_sample = uw_repository derived_aggregate_root"
    by (simp_all add: outbox_sample_def with_outbox_def with_enricher_def das_new_def)
  from outbox_save_messages [OF s l _ e] obtain ms where
    "list_all2 (\<lambda>ev m. om_status m = Pending) [''placed'', ''paid''] ms"
    "uow_insert_all ms (uow_outbox (uw_uow uow_sample_world)) = (Ok (), uow_outbox (uw_uow w'))"
    by (auto simp: uow_sample_def list_all2_Cons1)
  then show ?thesis unfolding e by (auto simp: uow_sample_world_def uow_new_def)
qed

end
