(* ===== verification/Handlers.thy ===== *)
theory Handlers
  imports Service Memory_World
begin

text \<open>
  \<open>crates/pharos-app/src/command.rs\<close>, \<open>query.rs\<close> and \<open>resilience.rs\<close>: validated dispatch of commands,
  dispatch of queries, and the two decorators of event handlers, one that retries under a policy
  and one that parks what still fails.
\<close>

section \<open>Commands and queries\<close>

record FieldViolation =
  fv_path :: string
  fv_message :: string

definition FieldViolation_to_string :: "FieldViolation \<Rightarrow> string" where
  "FieldViolation_to_string v = (if fv_path v = [] then fv_message v else fv_path v @ '': '' @ fv_message v)"

record ValidationError =
  ve_violations :: "FieldViolation list"

definition ValidationError_new :: "FieldViolation list \<Rightarrow> ValidationError" where
  "ValidationError_new vs = \<lparr>ve_violations = vs\<rparr>"

definition violation :: "string \<Rightarrow> string \<Rightarrow> ValidationError" where
  "violation path message = ValidationError_new [\<lparr>fv_path = path, fv_message = message\<rparr>]"

definition ve_is_empty :: "ValidationError \<Rightarrow> bool" where
  "ve_is_empty e = (ve_violations e = [])"

text \<open>The loop of \<open>Display\<close>: \<open>i\<close> is the index of the violation to write.\<close>

fun write_violations :: "nat \<Rightarrow> FieldViolation list \<Rightarrow> string" where
  "write_violations i [] = []"
| "write_violations i (v # vs) = (if i = 0 then '': '' else ''; '') @ FieldViolation_to_string v @ write_violations (i + 1) vs"

definition ValidationError_to_string :: "ValidationError \<Rightarrow> string" where
  "ValidationError_to_string e = ''invalid input'' @ write_violations 0 (ve_violations e)"

definition ValidationError_kind :: "ValidationError \<Rightarrow> ErrorKind" where
  "ValidationError_kind e = ValidationKind"

definition ValidationError_public_message :: "ValidationError \<Rightarrow> string" where
  "ValidationError_public_message e = ValidationError_to_string e"

text \<open>The command trait: its name, whether it is internal, and its validation, by default none.\<close>

record 'c Command =
  command_NAME :: string
  INTERNAL_ONLY :: bool
  validate_input :: "'c \<Rightarrow> ValidationError + unit"

definition default_validate_input :: "'c \<Rightarrow> ValidationError + unit" where
  "default_validate_input c = Ok ()"

datatype 'e DispatchError = DispatchValidation ValidationError | DispatchHandler 'e

fun DispatchError_kind :: "('e \<Rightarrow> ErrorKind) \<Rightarrow> 'e DispatchError \<Rightarrow> ErrorKind" where
  "DispatchError_kind kind (DispatchValidation v) = ValidationKind"
| "DispatchError_kind kind (DispatchHandler e) = kind e"

fun DispatchError_public_message :: "('e \<Rightarrow> string) \<Rightarrow> 'e DispatchError \<Rightarrow> string" where
  "DispatchError_public_message msg (DispatchValidation v) = ValidationError_public_message v"
| "DispatchError_public_message msg (DispatchHandler e) = msg e"

definition command_dispatch :: "'c Command \<Rightarrow> ('c \<Rightarrow> ('w, 'e, 'o) op) \<Rightarrow> 'c \<Rightarrow> ('w, 'e DispatchError, 'o) op" where
  "command_dispatch C handle c w = (case validate_input C c of
       Err v \<Rightarrow> (Err (DispatchValidation v), w)
     | Ok _ \<Rightarrow> (case handle c w of
           (Err e, w') \<Rightarrow> (Err (DispatchHandler e), w')
         | (Ok out, w') \<Rightarrow> (Ok out, w')))"

definition query_dispatch :: "('q \<Rightarrow> ('w, 'e, 'o) op) \<Rightarrow> 'q \<Rightarrow> ('w, 'e, 'o) op" where
  "query_dispatch handle q w = handle q w"

section \<open>Resilience\<close>

text \<open>
  The loop of \<open>Retrying\<close>: the effect of sleeping is the parameter \<open>sleep\<close>, and \<open>random_f64\<close> feeds the
  jitter of the delay.
\<close>

function retry_loop ::
    "'w Env \<Rightarrow> (duration \<Rightarrow> 'w \<Rightarrow> 'w) \<Rightarrow> RetryPolicy \<Rightarrow> ('ev \<Rightarrow> ('w, string, unit) op) \<Rightarrow> 'ev \<Rightarrow> nat \<Rightarrow> ('w, string, unit) op" where
  "retry_loop E sleep policy handle ev attempt w = (case handle ev w of
       (Ok _, w1) \<Rightarrow> (Ok (), w1)
     | (Err e, w1) \<Rightarrow>
         (let (u, w2) = random_f64 E w1 in
          case decide policy u attempt of
            RetryAfter delay \<Rightarrow> retry_loop E sleep policy handle ev (attempt + 1) (sleep delay w2)
          | DeadLetter \<Rightarrow> (Err e, w2)))"
  by pat_completeness auto
termination
  by (relation "measure (\<lambda>(E, sleep, policy, handle, ev, attempt, w). max_attempts policy - attempt)")
    (auto simp: decide_def split: if_splits)

declare retry_loop.simps [simp del]

definition retrying_handle ::
    "'w Env \<Rightarrow> (duration \<Rightarrow> 'w \<Rightarrow> 'w) \<Rightarrow> RetryPolicy \<Rightarrow> ('ev \<Rightarrow> ('w, string, unit) op) \<Rightarrow> 'ev \<Rightarrow> ('w, string, unit) op" where
  "retrying_handle E sleep policy handle ev w = retry_loop E sleep policy handle ev 1 w"

record DeadLetteringError =
  handler_error :: string
  dead_letter_error :: DeadLetterError

definition dead_lettering_handle ::
    "'w Env \<Rightarrow> ('ev \<Rightarrow> ('w, string, unit) op) \<Rightarrow> 'w DeadLetterQueue \<Rightarrow> string \<Rightarrow> ('ev \<Rightarrow> 'w \<Rightarrow> Message \<times> 'w)
     \<Rightarrow> 'ev \<Rightarrow> ('w, DeadLetteringError, unit) op" where
  "dead_lettering_handle E inner Q tp map_event ev w = (case inner ev w of
       (Ok _, w1) \<Rightarrow> (Ok (), w1)
     | (Err error, w1) \<Rightarrow>
         (let (message, w2) = map_event ev w1;
              (fresh_id, w3) = now_v7 E w2;
              (now, w4) = utc_now E w3
          in case dlq_dead_letter Q (DeadLetterMessage_new fresh_id now (message\<lparr>topic := tp\<rparr>) error 1) w4 of
               (Err dead, w5) \<Rightarrow> (Err \<lparr>handler_error = error, dead_letter_error = dead\<rparr>, w5)
             | (Ok _, w5) \<Rightarrow> (Ok (), w5)))"

section \<open>Properties\<close>

text \<open>
  The world after \<open>i\<close> failed attempts from attempt number \<open>k\<close> on, each followed by its backoff.
\<close>

fun after_tries ::
    "'w Env \<Rightarrow> (duration \<Rightarrow> 'w \<Rightarrow> 'w) \<Rightarrow> RetryPolicy \<Rightarrow> ('ev \<Rightarrow> ('w, string, unit) op) \<Rightarrow> 'ev \<Rightarrow> nat \<Rightarrow> nat \<Rightarrow> 'w \<Rightarrow> 'w" where
  "after_tries E sleep policy handle ev k 0 w = w"
| "after_tries E sleep policy handle ev k (Suc i) w =
     (let (u, w2) = random_f64 E (snd (handle ev w))
      in after_tries E sleep policy handle ev (k + 1) i (sleep (delay_for u (backoff policy) k) w2))"

lemma retry_loop_tries:
  assumes "\<And>j. j < i \<Longrightarrow> \<not> is_ok (fst (handle ev (after_tries E sleep policy handle ev k j w)))"
    and "k + i \<le> max_attempts policy \<or> i = 0"
  shows "retry_loop E sleep policy handle ev k w
    = retry_loop E sleep policy handle ev (k + i) (after_tries E sleep policy handle ev k i w)"
  using assms
proof (induction i arbitrary: k w)
  case 0
  then show ?case by simp
next
  case (Suc i)
  obtain e w1 where h: "handle ev w = (Err e, w1)"
    using Suc.prems(1) [of 0] by (cases "handle ev w"; cases "fst (handle ev w)") auto
  obtain u w2 where u: "random_f64 E w1 = (u, w2)" by fastforce
  let ?w = "sleep (delay_for u (backoff policy) k) w2"
  have "retry_loop E sleep policy handle ev k w = retry_loop E sleep policy handle ev (k + 1) ?w"
    using h u Suc.prems(2) by (subst retry_loop.simps) (simp add: decide_def)
  also have "\<dots> = retry_loop E sleep policy handle ev (k + 1 + i) (after_tries E sleep policy handle ev (k + 1) i ?w)"
  proof (rule Suc.IH)
    show "\<not> is_ok (fst (handle ev (after_tries E sleep policy handle ev (k + 1) j ?w)))" if "j < i" for j
      using Suc.prems(1) [of "Suc j"] that h u by simp
  qed (use Suc.prems(2) in simp)
  finally show ?case using h u by simp
qed

definition try_at ::
    "'w Env \<Rightarrow> (duration \<Rightarrow> 'w \<Rightarrow> 'w) \<Rightarrow> RetryPolicy \<Rightarrow> ('ev \<Rightarrow> ('w, string, unit) op) \<Rightarrow> 'ev \<Rightarrow> 'w \<Rightarrow> nat \<Rightarrow> (string + unit) \<times> 'w" where
  "try_at E sleep policy handle ev w i = handle ev (after_tries E sleep policy handle ev 1 i w)"

lemma retrying_first_success:
  assumes "i < max 1 (max_attempts policy)"
    and "\<And>j. j < i \<Longrightarrow> \<not> is_ok (fst (try_at E sleep policy handle ev w j))"
    and "is_ok (fst (try_at E sleep policy handle ev w i))"
  shows "retrying_handle E sleep policy handle ev w = (Ok (), snd (try_at E sleep policy handle ev w i))"
proof -
  let ?after = "\<lambda>i. after_tries E sleep policy handle ev 1 i w"
  have "retry_loop E sleep policy handle ev 1 w = retry_loop E sleep policy handle ev (1 + i) (?after i)"
    by (rule retry_loop_tries) (use assms in \<open>auto simp: try_at_def\<close>)
  moreover obtain w1 where "handle ev (?after i) = (Ok (), w1)"
    using assms(3) unfolding try_at_def by (cases "handle ev (?after i)"; cases "fst (handle ev (?after i))") auto
  ultimately show ?thesis
    by (simp add: retrying_handle_def try_at_def retry_loop.simps [of _ _ _ _ _ "Suc i"])
qed

lemma retrying_all_fail:
  assumes N: "N = max 1 (max_attempts policy)"
    and all: "\<And>i. i < N \<Longrightarrow> \<not> is_ok (fst (try_at E sleep policy handle ev w i))"
  shows "retrying_handle E sleep policy handle ev w
    = (fst (try_at E sleep policy handle ev w (N - 1)), snd (random_f64 E (snd (try_at E sleep policy handle ev w (N - 1)))))"
proof -
  let ?after = "\<lambda>i. after_tries E sleep policy handle ev 1 i w"
  have n: "0 < N" "1 + (N - 1) \<le> max_attempts policy \<or> N - 1 = 0" using N by auto
  have loop: "retry_loop E sleep policy handle ev 1 w = retry_loop E sleep policy handle ev N (?after (N - 1))"
    using retry_loop_tries [of "N - 1" handle ev E sleep policy 1 w] all n by (auto simp: try_at_def)
  have "\<not> is_ok (fst (handle ev (?after (N - 1))))" using all [of "N - 1"] n(1) by (simp add: try_at_def)
  then obtain e w1 where h: "handle ev (?after (N - 1)) = (Err e, w1)"
    by (cases "handle ev (?after (N - 1))"; cases "fst (handle ev (?after (N - 1)))") auto
  have "\<not> N < max_attempts policy" using N by simp
  then show ?thesis unfolding retrying_handle_def loop try_at_def
    by (subst retry_loop.simps) (simp add: h [simplified] decide_def split_beta)
qed

text \<open>
  Retrying runs the handler until it succeeds, at most as often as the policy allows and at
  least once. If the \<open>i\<close>-th attempt is the first to succeed, the result is that success, after
  exactly \<open>i\<close> failed attempts each followed by its backoff; if all attempts fail, the error
  returned is the one of the last attempt.
\<close>

theorem retrying_attempts:
  "(\<forall>i < max 1 (max_attempts policy).
      (\<forall>j < i. \<not> is_ok (fst (try_at E sleep policy handle ev w j))) \<longrightarrow>
      is_ok (fst (try_at E sleep policy handle ev w i)) \<longrightarrow>
      retrying_handle E sleep policy handle ev w = (Ok (), snd (try_at E sleep policy handle ev w i)))
    \<and> ((\<forall>i < max 1 (max_attempts policy). \<not> is_ok (fst (try_at E sleep policy handle ev w i))) \<longrightarrow>
      fst (retrying_handle E sleep policy handle ev w)
        = fst (try_at E sleep policy handle ev w (max 1 (max_attempts policy) - 1)))"
  using retrying_first_success [of _ policy E sleep handle ev w]
    retrying_all_fail [OF refl, of policy E sleep handle ev w]
  by simp

text \<open>
  A handler that fails twice and then succeeds, retried under a budget of three attempts on the
  world \<open>nat\<close> that counts the calls.
\<close>

definition third_time_lucky :: "unit \<Rightarrow> (nat, string, unit) op" where
  "third_time_lucky ev w = (if w < 2 then Err ''not yet'' else Ok (), w + 1)"

definition counting_env :: "nat Env" where
  "counting_env = \<lparr>utc_now = Pair 0, now_v7 = Pair 0, random_f64 = Pair 0, from_std = Inr\<rparr>"

lemmas retry_samples = third_time_lucky_def counting_env_def try_at_def RetryPolicy_new_def

theorem retrying_attempts_witness:
  "retrying_handle counting_env (\<lambda>d w. w) (RetryPolicy_new 3 0) third_time_lucky () 0 = (Ok (), 3)
    \<and> fst (retrying_handle counting_env (\<lambda>d w. w) (RetryPolicy_new 2 0) third_time_lucky () 0) = Err ''not yet''"
proof
  let ?run = "try_at counting_env (\<lambda>d w. w) (RetryPolicy_new 3 0) third_time_lucky () 0"
  have "\<forall>j < 2. \<not> is_ok (fst (?run j))" "is_ok (fst (?run 2))" "snd (?run 2) = 3"
    by (simp_all add: retry_samples less_Suc_eq numeral_2_eq_2 is_ok_def)
  then show "retrying_handle counting_env (\<lambda>d w. w) (RetryPolicy_new 3 0) third_time_lucky () 0 = (Ok (), 3)"
    using conjunct1 [OF retrying_attempts [of "RetryPolicy_new 3 0" counting_env "\<lambda>d w. w" third_time_lucky "()" 0],
        rule_format, of 2]
    by (simp add: RetryPolicy_new_def)
  let ?two = "try_at counting_env (\<lambda>d w. w) (RetryPolicy_new 2 0) third_time_lucky () 0"
  have "\<forall>j < 2. \<not> is_ok (fst (?two j))" "fst (?two (max 1 2 - 1)) = Err ''not yet''"
    by (simp_all add: retry_samples less_Suc_eq numeral_2_eq_2 is_ok_def)
  then show "fst (retrying_handle counting_env (\<lambda>d w. w) (RetryPolicy_new 2 0) third_time_lucky () 0) = Err ''not yet''"
    using retrying_attempts [of "RetryPolicy_new 2 0" counting_env "\<lambda>d w. w" third_time_lucky "()" 0]
    by (simp add: RetryPolicy_new_def)
qed

section \<open>Retrying inside dead-lettering\<close>

lemma after_tries_keeps:
  assumes "\<And>w. keep (snd (handle ev w)) = keep w" "\<And>d w. keep (sleep d w) = keep w"
    and "\<And>w. keep (snd (random_f64 E w)) = keep w"
  shows "keep (after_tries E sleep policy handle ev k i w) = keep w"
  by (induction i arbitrary: k w) (simp_all add: assms split_beta)

lemma retrying_keeps:
  assumes "\<And>w. keep (snd (handle ev w)) = keep w" "\<And>d w. keep (sleep d w) = keep w"
    and "\<And>w. keep (snd (random_f64 E w)) = keep w"
  shows "keep (snd (retrying_handle E sleep policy handle ev w)) = keep w"
proof -
  have "keep (snd (retry_loop E sleep policy handle ev k w)) = keep w" for k
    using assms
  proof (induction E sleep policy handle ev k w rule: retry_loop.induct)
    case (1 E sleep policy handle ev k w)
    obtain r w1 where h: "handle ev w = (r, w1)" by fastforce
    obtain u w2 where u: "random_f64 E w1 = (u, w2)" by fastforce
    have k: "keep w1 = keep w" "keep w2 = keep w" using "1.prems"(1) [of w] "1.prems"(3) [of w1] h u by simp_all
    show ?case
      using "1.IH" [OF h [symmetric] _ refl, of _ u w2] h u k "1.prems"
      by (subst retry_loop.simps) (auto split: sum.splits RetryDecision.splits)
  qed
  then show ?thesis by (simp add: retrying_handle_def)
qed

text \<open>
  Dead-lettering around retrying loses no event and never fails on the in-memory queue: the
  handler succeeds, and the queue grows by exactly one letter when every attempt of the budget
  failed, by none otherwise. The letter carries the topic of the decorator and the error of the last
  attempt, and it records one attempt whatever the number of attempts made.
\<close>

theorem parked_after_retries:
  fixes handle :: "'ev \<Rightarrow> (World, string, unit) op"
  assumes "\<And>w. w_dlq (snd (handle ev w)) = w_dlq w" "\<And>d w. w_dlq (sleep d w) = w_dlq w"
    and "\<And>w. w_dlq (snd (map_event ev w)) = w_dlq w"
    and E_def: "E = mem_env conv" and N_def: "N = max 1 (max_attempts policy)"
  shows "\<exists>w'. dead_lettering_handle E (retrying_handle E sleep policy handle) mem_dlq tp map_event ev w = (Ok (), w')
    \<and> (if \<exists>i < N. is_ok (fst (try_at E sleep policy handle ev w i))
       then w_dlq w' = w_dlq w
       else \<exists>l. w_dlq w' = w_dlq w @ [l] \<and> topic (dl_message l) = tp \<and> dl_attempts l = 1
          \<and> fst (try_at E sleep policy handle ev w (N - 1)) = Err (dl_reason l))"
proof -
  let ?run = "try_at E sleep policy handle ev w"
  obtain r w1 where r: "retrying_handle E sleep policy handle ev w = (r, w1)" by fastforce
  have "w_dlq (snd (random_f64 E w)) = w_dlq w" for w by (simp add: E_def mem_defs)
  then have d1: "w_dlq w1 = w_dlq w" using retrying_keeps [of w_dlq handle ev sleep E policy w] assms(1,2) r by simp
  show ?thesis
  proof (cases "\<exists>i < N. is_ok (fst (?run i))")
    case True
    then obtain i where i: "i < N" "is_ok (fst (?run i))" "\<And>j. j < i \<Longrightarrow> \<not> is_ok (fst (?run j))"
      using exists_least_iff [of "\<lambda>i. i < N \<and> is_ok (fst (?run i))"] by (metis less_trans)
    have "r = Ok ()" using retrying_first_success [of i policy E sleep handle ev w] i r by (simp add: N_def)
    then show ?thesis using True r d1 by (simp add: dead_lettering_handle_def)
  next
    case False
    then have f: "\<not> is_ok (fst (?run i))" if "i < N" for i using that by blast
    then have "r = fst (?run (N - 1))" using retrying_all_fail [OF N_def, of E sleep handle ev w] r by simp
    moreover have "\<not> is_ok (fst (?run (N - 1)))" by (rule f) (simp add: N_def)
    ultimately obtain e where e: "r = Err e" "fst (?run (N - 1)) = Err e" using not_is_ok_Err by metis
    obtain m w2 where m: "map_event ev w1 = (m, w2)" by fastforce
    then have "w_dlq w2 = w_dlq w" using assms(3) [of w1] d1 by simp
    then show ?thesis using False r e m
      by (simp add: dead_lettering_handle_def E_def mem_defs mem_dead_letter_def DeadLetterMessage_new_def)
  qed
qed

theorem parked_after_retries_witness:
  "\<exists>w' l. dead_lettering_handle (mem_env Inr) (retrying_handle (mem_env Inr) (\<lambda>d w. w) (RetryPolicy_new 3 0) (\<lambda>ev w. (Err ''down'', w)))
      mem_dlq ''dead'' (\<lambda>ev w. (Message_new ev ''orders'' [] [], w)) 7 (empty_world (\<lambda>_. None)) = (Ok (), w')
    \<and> w_dlq w' = [l] \<and> topic (dl_message l) = ''dead'' \<and> dl_attempts l = 1 \<and> dl_reason l = ''down''"
  using parked_after_retries [of "\<lambda>ev w. (Err ''down'', w)" 7 "\<lambda>d w. w" "\<lambda>ev w. (Message_new ev ''orders'' [] [], w)"
      "mem_env Inr" Inr 3 "RetryPolicy_new 3 0" "''dead''" "empty_world (\<lambda>_. None)"]
  by (auto simp: try_at_def empty_world_def RetryPolicy_new_def)

end
