(* ===== verification/Http.thy ===== *)
theory Http
  imports Handlers
begin

text \<open>
  \<open>crates/pharos-axum/src/lib.rs\<close>: the HTTP boundary. Which status and body answer a failure, and the
  entry points that run a command or a query for a request. Also the \<open>tower\<close> adapters of
  \<open>crates/pharos-app/src/tower_service.rs\<close> and the wrapper of \<open>crates/pharos-core/src/secret.rs\<close>.
  Extraction of the request by \<open>axum\<close> and the encoding of the response are outside the model: an
  entry point takes the decoded command and returns its output or the error to answer.
\<close>

section \<open>Errors at the boundary\<close>

fun status_for :: "ErrorKind \<Rightarrow> nat" where
  "status_for NotFoundKind = 404"
| "status_for ValidationKind = 422"
| "status_for ConflictKind = 409"
| "status_for UnauthorizedKind = 401"
| "status_for ForbiddenKind = 403"
| "status_for RateLimitedKind = 429"
| "status_for UnavailableKind = 503"
| "status_for InternalKind = 500"

record HandlerError =
  he_status :: nat
  he_message :: string

definition HandlerError_new :: "nat \<Rightarrow> string \<Rightarrow> HandlerError" where
  "HandlerError_new status message = \<lparr>he_status = status, he_message = message\<rparr>"

definition HandlerError_internal :: "'e \<Rightarrow> HandlerError" where
  "HandlerError_internal e = HandlerError_new 500 ''internal server error''"

text \<open>\<open>from_classified\<close> on an error with its two methods \<open>kind\<close> and \<open>public_message\<close>.\<close>

definition from_classified :: "('e \<Rightarrow> ErrorKind) \<Rightarrow> ('e \<Rightarrow> string) \<Rightarrow> 'e \<Rightarrow> HandlerError" where
  "from_classified kind public_message e = HandlerError_new (status_for (kind e)) (public_message e)"

definition HandlerError_validation :: "ValidationError \<Rightarrow> HandlerError" where
  "HandlerError_validation e = from_classified ValidationError_kind ValidationError_public_message e"

definition from_domain :: "DomainError \<Rightarrow> HandlerError" where
  "from_domain e = from_classified DomainError_kind DomainError_public_message e"

definition internal_command :: "string \<Rightarrow> HandlerError" where
  "internal_command nm = HandlerError_new 404 ''command is internal-only and cannot be invoked over HTTP''"

definition HandlerError_into_response :: "HandlerError \<Rightarrow> nat \<times> string" where
  "HandlerError_into_response e = (he_status e, he_message e)"

section \<open>Entry points\<close>

definition command_state_dispatch ::
    "'c Command \<Rightarrow> ('c \<Rightarrow> ('w, 'e, 'o) op) \<Rightarrow> 'c \<Rightarrow> ('w, 'e DispatchError, 'o) op" where
  "command_state_dispatch C handle c w =
     (if INTERNAL_ONLY C
      then (Err (DispatchValidation (violation [] ''command is internal-only and cannot be invoked over this seam'')), w)
      else command_dispatch C handle c w)"

definition query_state_dispatch :: "('q \<Rightarrow> ('w, 'e, 'o) op) \<Rightarrow> 'q \<Rightarrow> ('w, 'e, 'o) op" where
  "query_state_dispatch handle q w = query_dispatch handle q w"

definition run_command :: "'c Command \<Rightarrow> ('c \<Rightarrow> ('w, 'e, 'o) op) \<Rightarrow> 'c \<Rightarrow> ('w, HandlerError, 'o) op" where
  "run_command C handle c w =
     (if INTERNAL_ONLY C then (Err (internal_command (command_NAME C)), w)
      else (case command_dispatch C handle c w of
          (Ok out, w1) \<Rightarrow> (Ok out, w1)
        | (Err (DispatchValidation e), w1) \<Rightarrow> (Err (HandlerError_validation e), w1)
        | (Err (DispatchHandler e), w1) \<Rightarrow> (Err (HandlerError_internal e), w1)))"

definition run_query :: "('q \<Rightarrow> ('w, 'e, 'o) op) \<Rightarrow> 'q \<Rightarrow> ('w, HandlerError, 'o) op" where
  "run_query handle q w = (case query_dispatch handle q w of
       (Ok out, w1) \<Rightarrow> (Ok out, w1)
     | (Err e, w1) \<Rightarrow> (Err (HandlerError_internal e), w1))"

definition run_command_from_state :: "'c Command \<Rightarrow> ('c \<Rightarrow> ('w, 'e, 'o) op) \<Rightarrow> 'c \<Rightarrow> ('w, HandlerError, 'o) op" where
  "run_command_from_state C handle c w = run_command C handle c w"

definition run_query_from_state :: "('q \<Rightarrow> ('w, 'e, 'o) op) \<Rightarrow> 'q \<Rightarrow> ('w, HandlerError, 'o) op" where
  "run_query_from_state handle q w = run_query handle q w"

text \<open>The \<open>tower\<close> services are always ready and call the same dispatch.\<close>

definition command_service_call :: "'c Command \<Rightarrow> ('c \<Rightarrow> ('w, 'e, 'o) op) \<Rightarrow> 'c \<Rightarrow> ('w, 'e DispatchError, 'o) op" where
  "command_service_call C handle c w = command_dispatch C handle c w"

definition query_service_call :: "('q \<Rightarrow> ('w, 'e, 'o) op) \<Rightarrow> 'q \<Rightarrow> ('w, 'e, 'o) op" where
  "query_service_call handle q w = query_dispatch handle q w"

section \<open>Secrets\<close>

datatype 'a Secret = Secret 'a

definition REDACTED :: string where
  "REDACTED = ''[redacted]''"

fun expose :: "'a Secret \<Rightarrow> 'a" where
  "expose (Secret x) = x"

definition Secret_debug :: "'a Secret \<Rightarrow> string" where
  "Secret_debug s = REDACTED"

definition Secret_display :: "'a Secret \<Rightarrow> string" where
  "Secret_display s = REDACTED"

section \<open>Properties\<close>

lemmas boundary_defs = HandlerError_internal_def HandlerError_new_def HandlerError_validation_def from_classified_def
  internal_command_def ValidationError_kind_def ValidationError_public_message_def

text \<open>
  C34: What crosses the HTTP boundary. A command marked as internal is never run, at either entry
  point, and nothing changes; an invalid command is answered 422 with its violations and is not
  run either; every other command runs exactly once. A failing handler of a command or a query
  is answered 500 with a fixed text that does not depend on the failure.
\<close>

theorem http_boundary:
  "(if INTERNAL_ONLY C then
      run_command C handle c w = (Err \<lparr>he_status = 404, he_message = ''command is internal-only and cannot be invoked over HTTP''\<rparr>, w)
      \<and> (\<exists>v. command_state_dispatch C handle c w = (Err (DispatchValidation v), w))
    else (case validate_input C c of
        Err v \<Rightarrow> run_command C handle c w = (Err \<lparr>he_status = 422, he_message = ValidationError_to_string v\<rparr>, w)
          \<and> command_state_dispatch C handle c w = (Err (DispatchValidation v), w)
      | Ok _ \<Rightarrow> snd (run_command C handle c w) = snd (handle c w)
          \<and> command_state_dispatch C handle c w = map_prod (map_sum DispatchHandler id) id (handle c w)
          \<and> fst (run_command C handle c w) = (case fst (handle c w) of
              Err e \<Rightarrow> Err \<lparr>he_status = 500, he_message = ''internal server error''\<rparr> | Ok out \<Rightarrow> Ok out)))
    \<and> run_query q_handle q w' = map_prod (map_sum (\<lambda>e. \<lparr>he_status = 500, he_message = ''internal server error''\<rparr>) id) id (q_handle q w')"
proof
  show "run_query q_handle q w' = map_prod (map_sum (\<lambda>e. \<lparr>he_status = 500, he_message = ''internal server error''\<rparr>) id) id (q_handle q w')"
    by (cases "q_handle q w'"; cases "fst (q_handle q w')")
      (simp_all add: run_query_def query_dispatch_def HandlerError_internal_def HandlerError_new_def)
qed (cases "validate_input C c"; cases "handle c w"; cases "fst (handle c w)";
    simp add: run_command_def command_state_dispatch_def command_dispatch_def boundary_defs)

lemma server_status: "500 \<le> status_for k \<longleftrightarrow> k = UnavailableKind \<or> k = InternalKind"
  by (cases k) simp_all

text \<open>The HTTP answer to an error of a layer that never reports itself as unavailable.\<close>

context classified_error
begin

lemma server_answer_redacted:
  assumes "\<And>e. kind e \<noteq> UnavailableKind" "500 \<le> he_status (from_classified kind public_message e)"
  shows "he_message (from_classified kind public_message e) = redacted"
  using assms internal_redacted by (auto simp: from_classified_def HandlerError_new_def server_status)

end

text \<open>
  C35: An answer with a server status says nothing about the failure: whatever repository, store or
  application error is mapped to a response, a status of 500 or above comes with the fixed text of
  its layer. A domain error is never a server error: it is answered 404, 409 or 422 with its text.
\<close>

theorem server_errors_redacted:
  "(500 \<le> he_status (from_classified ApplicationError_kind ApplicationError_public_message e1) \<longrightarrow>
      he_message (from_classified ApplicationError_kind ApplicationError_public_message e1) = ''internal application error'')
   \<and> (500 \<le> he_status (from_classified StoreError_kind StoreError_public_message e2) \<longrightarrow>
      he_message (from_classified StoreError_kind StoreError_public_message e2) = ''internal storage error'')
   \<and> (500 \<le> he_status (from_classified RepositoryError_kind RepositoryError_public_message e3) \<longrightarrow>
      he_message (from_classified RepositoryError_kind RepositoryError_public_message e3) = ''internal storage error'')
   \<and> he_status (from_domain e4) = (case e4 of NotFound _ \<Rightarrow> 404 | Validation _ \<Rightarrow> 422 | _ \<Rightarrow> 409)
   \<and> he_message (from_domain e4) = DomainError_to_string e4"
proof -
  have "DomainError_kind e \<noteq> UnavailableKind" for e by (cases e) simp_all
  then have k: "ApplicationError_kind e \<noteq> UnavailableKind" "StoreError_kind e' \<noteq> UnavailableKind" "RepositoryError_kind e'' \<noteq> UnavailableKind" for e e' e''
    by (cases e; cases e'; cases e''; simp)+
  show ?thesis
    using application_error.server_answer_redacted [OF k(1)] store_error.server_answer_redacted [OF k(2)]
      repository_error.server_answer_redacted [OF k(3)]
    by (cases e4) (simp_all add: from_domain_def from_classified_def HandlerError_new_def DomainError_public_message_def)
qed

theorem server_errors_redacted_witness:
  "HandlerError_into_response (from_classified ApplicationError_kind ApplicationError_public_message
     (AppRepository ''connection refused: postgres:5432'')) = (500, ''internal application error'')"
  using server_errors_redacted [of "AppRepository ''connection refused: postgres:5432''"]
  by (simp add: HandlerError_into_response_def from_classified_def HandlerError_new_def)

end
