(* ===== verification/Registry.thy ===== *)
theory Registry
  imports Messaging
begin

text \<open>
  \<open>crates/pharos-messaging/src/schema_registry.rs\<close> and \<open>consumer_group.rs\<close> with their in-memory
  adapters in \<open>crates/pharos-memory\<close>: versioned schemas of integration events, and the coordination
  of consumer groups.
\<close>

section \<open>Schemas\<close>

record EventSchema =
  es_event_type :: string
  es_version :: nat
  es_format :: string
  es_schema :: string
  es_registered_at :: instant

definition EventSchema_new :: "instant \<Rightarrow> string \<Rightarrow> nat \<Rightarrow> string \<Rightarrow> string \<Rightarrow> EventSchema" where
  "EventSchema_new now ty v fmt doc =
     \<lparr>es_event_type = ty, es_version = v, es_format = fmt, es_schema = doc, es_registered_at = now\<rparr>"

datatype SchemaRegistryError = SchemaNotFound string nat | SchemaStorage string

type_synonym InMemorySchemaRegistry = "(string \<times> nat, EventSchema) dashmap"

definition isr_new :: InMemorySchemaRegistry where
  "isr_new = []"

definition isr_register :: "EventSchema \<Rightarrow> (InMemorySchemaRegistry, SchemaRegistryError, unit) op" where
  "isr_register sc s = (Ok (), dm_insert (es_event_type sc, es_version sc) sc s)"

definition isr_get :: "string \<Rightarrow> nat \<Rightarrow> (InMemorySchemaRegistry, SchemaRegistryError, EventSchema option) op" where
  "isr_get ty v s = (Ok (dm_get s (ty, v)), s)"

text \<open>\<open>Iterator::max_by_key\<close>: of several maximal elements the last.\<close>

fun max_by_key :: "('a \<Rightarrow> nat) \<Rightarrow> 'a list \<Rightarrow> 'a option" where
  "max_by_key f [] = None"
| "max_by_key f (x # xs) = (case max_by_key f xs of
       None \<Rightarrow> Some x
     | Some y \<Rightarrow> if f x \<le> f y then Some y else Some x)"

definition isr_latest :: "string \<Rightarrow> (InMemorySchemaRegistry, SchemaRegistryError, EventSchema option) op" where
  "isr_latest ty s =
     (Ok (map_option snd (max_by_key (\<lambda>e. snd (fst e)) (filter (\<lambda>e. fst (fst e) = ty) s))), s)"

text \<open>The registry trait as a dictionary, and the in-memory one.\<close>

record 'w SchemaRegistry =
  reg_register :: "EventSchema \<Rightarrow> ('w, SchemaRegistryError, unit) op"
  reg_get :: "string \<Rightarrow> nat \<Rightarrow> ('w, SchemaRegistryError, EventSchema option) op"
  reg_latest :: "string \<Rightarrow> ('w, SchemaRegistryError, EventSchema option) op"

definition isr_registry :: "InMemorySchemaRegistry SchemaRegistry" where
  "isr_registry = \<lparr>reg_register = isr_register, reg_get = isr_get, reg_latest = isr_latest\<rparr>"

section \<open>Consumer groups\<close>

record PartitionAssignment =
  pa_group :: string
  pa_consumer_id :: string
  pa_topic :: string
  pa_partition :: int

definition PartitionAssignment_new :: "string \<Rightarrow> string \<Rightarrow> string \<Rightarrow> int \<Rightarrow> PartitionAssignment" where
  "PartitionAssignment_new g c t p = \<lparr>pa_group = g, pa_consumer_id = c, pa_topic = t, pa_partition = p\<rparr>"

datatype ConsumerGroupError = Coordination string

type_synonym InMemoryConsumerGroupCoordinator = "(string, PartitionAssignment list) dashmap"

definition cg_new :: InMemoryConsumerGroupCoordinator where
  "cg_new = []"

definition cg_join ::
    "string \<Rightarrow> string \<Rightarrow> string list
     \<Rightarrow> (InMemoryConsumerGroupCoordinator, ConsumerGroupError, PartitionAssignment list) op" where
  "cg_join grp consumer topics s =
     (let assigned = map (\<lambda>(p, t). PartitionAssignment_new grp consumer t (as_i32 p)) (enumerate 0 topics)
      in (Ok assigned, dm_insert grp assigned s))"

definition cg_leave :: "string \<Rightarrow> string \<Rightarrow> (InMemoryConsumerGroupCoordinator, ConsumerGroupError, unit) op" where
  "cg_leave grp consumer s = (case dm_get s grp of
       Some assigned \<Rightarrow> (Ok (), dm_insert grp (filter (\<lambda>a. pa_consumer_id a \<noteq> consumer) assigned) s)
     | None \<Rightarrow> (Ok (), s))"

definition cg_assignments ::
    "string \<Rightarrow> (InMemoryConsumerGroupCoordinator, ConsumerGroupError, PartitionAssignment list) op" where
  "cg_assignments grp s = (Ok (case dm_get s grp of Some assigned \<Rightarrow> assigned | None \<Rightarrow> []), s)"

record 'w ConsumerGroupCoordinator =
  gc_join :: "string \<Rightarrow> string \<Rightarrow> string list \<Rightarrow> ('w, ConsumerGroupError, PartitionAssignment list) op"
  gc_leave :: "string \<Rightarrow> string \<Rightarrow> ('w, ConsumerGroupError, unit) op"
  gc_assignments :: "string \<Rightarrow> ('w, ConsumerGroupError, PartitionAssignment list) op"

definition cg_coordinator :: "InMemoryConsumerGroupCoordinator ConsumerGroupCoordinator" where
  "cg_coordinator = \<lparr>gc_join = cg_join, gc_leave = cg_leave, gc_assignments = cg_assignments\<rparr>"

section \<open>The contract of a schema registry\<close>

lemma find_append_two: "find P (xs @ ys) = (case find P xs of Some x \<Rightarrow> Some x | None \<Rightarrow> find P ys)"
  by (induction xs) auto

text \<open>
  What a client of \<open>SchemaRegistry\<close> relies on: a registration is total, replaces exactly the entry
  of its event type and version, and the latest schema is the registered one of the highest version.
\<close>

locale schema_registry =
  fixes register :: "EventSchema \<Rightarrow> ('s, SchemaRegistryError, unit) op"
    and lookup :: "string \<Rightarrow> nat \<Rightarrow> ('s, SchemaRegistryError, EventSchema option) op"
    and latest :: "string \<Rightarrow> ('s, SchemaRegistryError, EventSchema option) op"
    and wf :: "'s \<Rightarrow> bool"
    and schemas :: "'s \<Rightarrow> string \<Rightarrow> nat \<Rightarrow> EventSchema option"
  assumes register_ok: "fst (register sc s) = Ok ()"
    and register_wf: "wf s \<Longrightarrow> wf (snd (register sc s))"
    and register_schemas: "wf s \<Longrightarrow> schemas (snd (register sc s)) ty v
      = (if ty = es_event_type sc \<and> v = es_version sc then Some sc else schemas s ty v)"
    and lookup_schemas: "lookup ty v s = (Ok (schemas s ty v), s)"
    and latest_none: "wf s \<Longrightarrow> (\<And>v. schemas s ty v = None) \<Longrightarrow> latest ty s = (Ok None, s)"
    and latest_some: "wf s \<Longrightarrow> schemas s ty v = Some sc \<Longrightarrow> (\<And>v' sc'. schemas s ty v' = Some sc' \<Longrightarrow> v' \<le> v)
      \<Longrightarrow> latest ty s = (Ok (Some sc), s)"
begin

primrec register_all :: "EventSchema list \<Rightarrow> 's \<Rightarrow> 's" where
  "register_all [] s = s"
| "register_all (sc # scs) s = register_all scs (snd (register sc s))"

lemma register_all_schemas:
  "wf s \<Longrightarrow> wf (register_all scs s) \<and> schemas (register_all scs s) ty v
     = (case find (\<lambda>sc. es_event_type sc = ty \<and> es_version sc = v) (rev scs) of Some sc \<Rightarrow> Some sc | None \<Rightarrow> schemas s ty v)"
proof (induction scs arbitrary: s)
  case (Cons sc scs)
  then show ?case using Cons.IH [OF register_wf [OF Cons.prems], of sc]
    by (auto simp: find_append_two register_schemas split: option.splits)
qed simp

text \<open>The latest schema after a series of registrations, without mention of the store.\<close>

lemma latest_register_all:
  assumes s: "wf s" "\<And>v. schemas s ty v = None"
    and vs_def: "vs = map es_version (filter (\<lambda>sc. es_event_type sc = ty) scs)"
  shows "latest ty (register_all scs s)
    = (Ok (if vs = [] then None else find (\<lambda>sc. es_event_type sc = ty \<and> es_version sc = Max (set vs)) (rev scs)), register_all scs s)"
proof (cases "vs = []")
  case True
  then have "schemas (register_all scs s) ty v = None" for v
  proof -
    have "find (\<lambda>sc. es_event_type sc = ty \<and> es_version sc = v) (rev scs) = None"
      using True by (auto simp: find_None_iff vs_def filter_empty_conv)
    then show ?thesis using register_all_schemas [OF s(1), of scs ty v] s(2) by simp
  qed
  then show ?thesis using latest_none register_all_schemas [OF s(1)] True by simp
next
  case False
  then have "Max (set vs) \<in> set vs" by simp
  then obtain sc where sc: "find (\<lambda>sc. es_event_type sc = ty \<and> es_version sc = Max (set vs)) (rev scs) = Some sc"
    by (cases "find (\<lambda>sc. es_event_type sc = ty \<and> es_version sc = Max (set vs)) (rev scs)") (auto simp: find_None_iff vs_def)
  have "v' \<le> Max (set vs)" if some: "schemas (register_all scs s) ty v' = Some sc'" for v' sc'
  proof -
    have "find (\<lambda>sc. es_event_type sc = ty \<and> es_version sc = v') (rev scs) \<noteq> None"
      using some register_all_schemas [OF s(1), of scs ty v'] s(2) by (auto split: option.splits)
    then have "v' \<in> set vs" by (auto simp: find_None_iff vs_def)
    then show ?thesis by simp
  qed
  moreover have "wf (register_all scs s)" "schemas (register_all scs s) ty (Max (set vs)) = Some sc"
    using register_all_schemas [OF s(1), of scs ty "Max (set vs)"] sc by simp_all
  ultimately have "latest ty (register_all scs s) = (Ok (Some sc), register_all scs s)"
    by (blast intro: latest_some)
  then show ?thesis using False sc by simp
qed

end

lemma max_by_key_None [simp]: "max_by_key f xs = None \<longleftrightarrow> xs = []"
  by (cases xs) (auto split: option.splits)

lemma max_by_key_Some: "max_by_key f xs = Some x \<Longrightarrow> x \<in> set xs \<and> list_all (\<lambda>y. f y \<le> f x) xs"
proof (induction xs arbitrary: x)
  case (Cons a xs)
  show ?case
  proof (cases "max_by_key f xs")
    case (Some y)
    note IH = Cons.IH [OF Some]
    show ?thesis using IH Cons.prems Some by (auto simp: list_all_iff split: if_splits)
  qed (use Cons.prems in simp)
qed simp

interpretation mem_registry: schema_registry isr_register isr_get isr_latest dm_wf "\<lambda>s ty v. dm_get s (ty, v)"
proof
  fix s :: InMemorySchemaRegistry and ty
  show "isr_latest ty s = (Ok None, s)" if "dm_wf s" "\<And>v. dm_get s (ty, v) = None"
  proof -
    have "filter (\<lambda>e. fst (fst e) = ty) s = []"
      using that(2) unfolding filter_empty_conv dm_get_def map_of_eq_None_iff by (metis image_eqI prod.collapse)
    then show ?thesis by (simp add: isr_latest_def)
  qed
  show "isr_latest ty s = (Ok (Some sc), s)"
    if wf: "dm_wf s" and sc: "dm_get s (ty, v) = Some sc" and top: "\<And>v' sc'. dm_get s (ty, v') = Some sc' \<Longrightarrow> v' \<le> v" for v sc
  proof -
    let ?es = "filter (\<lambda>e. fst (fst e) = ty) s"
    have "((ty, v), sc) \<in> set ?es" using wf sc by (simp add: dm_get_in_set)
    moreover from this obtain e where m: "max_by_key (\<lambda>e. snd (fst e)) ?es = Some e"
      by (metis empty_iff empty_set max_by_key_None not_None_eq)
    ultimately have e: "max_by_key (\<lambda>e. snd (fst e)) ?es = Some e" "e \<in> set ?es" "v \<le> snd (fst e)"
      using max_by_key_Some [OF m] by (force simp: list_all_iff)+
    have "dm_get s (ty, snd (fst e)) = Some (snd e)" using e(2) wf by (auto simp: dm_get_in_set)
    then have "snd (fst e) = v" using top e(3) by (simp add: le_antisym)
    then show ?thesis using \<open>dm_get s (ty, snd (fst e)) = Some (snd e)\<close> sc e(1) by (simp add: isr_latest_def)
  qed
qed (simp_all add: isr_register_def isr_get_def)

section \<open>Properties\<close>

text \<open>
  After any series of registrations into a new registry, looking up an event type and version
  gives the last schema registered for it, and the latest schema of an event type is the last one
  registered for the highest version of that type, whatever the order of the registrations and of
  the map.
\<close>

theorem registry_get_latest:
  "\<exists>s. s = fold (\<lambda>sc s. snd (isr_register sc s)) scs isr_new
    \<and> isr_get ty v s = (Ok (find (\<lambda>sc. es_event_type sc = ty \<and> es_version sc = v) (rev scs)), s)
    \<and> isr_latest ty s = (Ok (let vs = map es_version (filter (\<lambda>sc. es_event_type sc = ty) scs)
        in if vs = [] then None else find (\<lambda>sc. es_event_type sc = ty \<and> es_version sc = Max (set vs)) (rev scs)), s)"
proof -
  have "mem_registry.register_all scs s = fold (\<lambda>sc s. snd (isr_register sc s)) scs s" for s
    by (induction scs arbitrary: s) simp_all
  then show ?thesis
    using mem_registry.register_all_schemas [of isr_new scs ty v] mem_registry.latest_register_all [of isr_new ty _ scs]
    by (simp add: isr_new_def isr_get_def Let_def split: option.splits)
qed

text \<open>
  A consumer that joins a group replaces the assignments of the whole group: those of the other
  consumers are forgotten, and the remaining consumer can leave only for itself.
\<close>

theorem join_forgets_members:
  "\<exists>s1 s2 a b. cg_join ''workers'' ''one'' [''orders''] cg_new = (Ok a, s1)
    \<and> cg_join ''workers'' ''two'' [''orders''] s1 = (Ok b, s2)
    \<and> cg_assignments ''workers'' s2 = (Ok b, s2) \<and> a \<noteq> []
    \<and> list_all (\<lambda>x. pa_consumer_id x \<noteq> ''one'') b"
  by (simp add: cg_join_def cg_new_def cg_assignments_def PartitionAssignment_new_def Let_def)

text \<open>What a join assigns: every topic, numbered by its position, and nothing of other groups changes.\<close>

lemma cg_join_assigns:
  assumes "length topics \<le> 2 ^ 31" "cg_join grp consumer topics s = (Ok a, s')"
  shows "map pa_topic a = topics" "distinct (map pa_partition a)"
    and "fst (cg_assignments other s') = (if other = grp then Ok a else fst (cg_assignments other s))"
  using assms
  by (auto simp: cg_join_def cg_assignments_def PartitionAssignment_new_def split_beta comp_def enumerate_eq_zip distinct_map
      inj_on_def as_i32_small Let_def set_zip intro!: distinct_zipI1)

text \<open>Leaving removes exactly the assignments of the consumer in the group.\<close>

lemma cg_leave_removes:
  "\<exists>s'. cg_leave grp consumer s = (Ok (), s')
    \<and> fst (cg_assignments grp s') = map_sum id (filter (\<lambda>a. pa_consumer_id a \<noteq> consumer)) (fst (cg_assignments grp s))
    \<and> (other \<noteq> grp \<longrightarrow> cg_assignments other s' = (fst (cg_assignments other s), s'))"
  by (auto simp: cg_leave_def cg_assignments_def split: option.splits)

end
