(* ===== verification/Contract_Kit.thy ===== *)
theory Contract_Kit
  imports Event_Sourcing Saga Unit_Of_Work Consumer Registry
begin

text \<open>
  \<open>crates/pharos-testing/src/contract\<close>: the conformance suites that an adapter of the framework has to
  pass, as programs over the dictionary of the adapter, and the proofs that the in-memory adapters
  pass them, from every state in which the identifiers the suite draws are new. A suite ends with
  \<open>Ok\<close>, or with a failed assertion, a missing value or an error of the adapter; the texts of the
  assertions are left out. Each identifier and clock reading a suite draws is an argument.
\<close>

section \<open>Suites\<close>

datatype SuiteFailure = AssertionFailed | ValueMissing | AdapterFailed

type_synonym ('w, 'a) suite = "('w, SuiteFailure, 'a) op"

text \<open>Sequencing, the operator \<open>?\<close> on a call of the adapter, an assertion, and \<open>ok_or(..)?\<close>.\<close>

definition bind_op :: "('w, 'e, 'a) op \<Rightarrow> ('a \<Rightarrow> ('w, 'e, 'b) op) \<Rightarrow> ('w, 'e, 'b) op" where
  "bind_op m f w = (case m w of (Err e, w') \<Rightarrow> (Err e, w') | (Ok x, w') \<Rightarrow> f x w')"

definition ask :: "('w, 'e, 'a) op \<Rightarrow> ('w, 'a) suite" where
  "ask m w = (case m w of (Err e, w') \<Rightarrow> (Err AdapterFailed, w') | (Ok x, w') \<Rightarrow> (Ok x, w'))"

definition ensure :: "bool \<Rightarrow> ('w, unit) suite" where
  "ensure b w = ((if b then Ok () else Err AssertionFailed), w)"

definition found :: "'a option \<Rightarrow> ('w, 'a) suite" where
  "found x w = ((case x of Some y \<Rightarrow> Ok y | None \<Rightarrow> Err ValueMissing), w)"

text \<open>A call whose result is looked at instead of propagated.\<close>

definition observe :: "('w, 'e, 'a) op \<Rightarrow> ('w, 'e + 'a) suite" where
  "observe m w = (let (r, w') = m w in (Ok r, w'))"

definition finished :: "('w, unit) suite" where
  "finished w = (Ok (), w)"

definition passes :: "('w, 'a) suite \<Rightarrow> 'w \<Rightarrow> bool" where
  "passes m w \<longleftrightarrow> is_ok (fst (m w))"

lemmas suite_defs = bind_op_def ask_def ensure_def found_def observe_def finished_def passes_def

section \<open>Fixtures\<close>

record ContractEvent =
  ce_aggregate_id :: string
  ce_occurred_at :: instant
  ce_label :: string

definition event_type_of :: "ContractEvent \<Rightarrow> string" where
  "event_type_of ev = ''ContractEvent''"

text \<open>
  The contract aggregate: an identifier, a version, the pending events and a label. \<open>show_id\<close> renders
  an identifier.
\<close>

type_synonym ContractAggregate = "(uuid, ContractEvent, string) Aggregate"

definition contract_new :: "(uuid \<Rightarrow> string) \<Rightarrow> instant \<Rightarrow> uuid \<Rightarrow> string \<Rightarrow> ContractAggregate" where
  "contract_new show_id now i lb =
     \<lparr>agg_id = i,
      agg_events = raise \<lparr>ce_aggregate_id = show_id i, ce_occurred_at = now, ce_label = lb\<rparr> events_default,
      agg_version = 0, agg_data = lb\<rparr>"

definition relabel :: "(uuid \<Rightarrow> string) \<Rightarrow> instant \<Rightarrow> string \<Rightarrow> ContractAggregate \<Rightarrow> ContractAggregate" where
  "relabel show_id now lb a =
     (let a1 = a\<lparr>agg_data := lb\<rparr>
      in a1\<lparr>agg_events := raise \<lparr>ce_aggregate_id = show_id (agg_id a1), ce_occurred_at = now, ce_label = agg_data a1\<rparr> (agg_events a1)\<rparr>)"

definition contract_root :: "(ContractAggregate, uuid, ContractEvent) AggregateRoot" where
  "contract_root = \<lparr>
     ar_id = agg_id,
     pending_events = (\<lambda>a. ev_pending (agg_events a)),
     drain_events = (\<lambda>a. let (es, s) = drain (agg_events a) in (es, a\<lparr>agg_events := s\<rparr>)),
     restore_events = (\<lambda>es a. a\<lparr>agg_events := restore es (agg_events a)\<rparr>),
     version = agg_version,
     set_version = (\<lambda>n a. a\<lparr>agg_version := n\<rparr>)\<rparr>"

text \<open>The hand-written implementation is what the derive macro would generate.\<close>

lemma contract_root_derived: "contract_root = derived_aggregate_root"
  by (simp add: contract_root_def derived_aggregate_root_def)

section \<open>The repository suite\<close>

text \<open>A save whose aggregate is used afterwards.\<close>

definition save_ok :: "('w, 'a, 'i) Repository \<Rightarrow> 'a \<Rightarrow> ('w, 'a) suite" where
  "save_ok Rp a w = (case repo_save Rp a w of (Err e, a', w') \<Rightarrow> (Err AdapterFailed, w') | (Ok _, a', w') \<Rightarrow> (Ok a', w'))"

definition save_result :: "('w, 'a, 'i) Repository \<Rightarrow> 'a \<Rightarrow> ('w, RepositoryError + unit) suite" where
  "save_result Rp a w = (let (r, a', w') = repo_save Rp a w in (Ok r, w'))"

definition repository_run ::
    "(uuid \<Rightarrow> string) \<Rightarrow> ('w, ContractAggregate, uuid) Repository \<Rightarrow> uuid \<Rightarrow> instant \<Rightarrow> instant \<Rightarrow> instant \<Rightarrow> ('w, unit) suite" where
  "repository_run show_id Rp i t1 t2 t3 =
     bind_op (ask (find_by_id Rp i)) (\<lambda>none.
     bind_op (ensure (none = None)) (\<lambda>_.
     bind_op (save_ok Rp (contract_new show_id t1 i ''first'')) (\<lambda>aggregate.
     bind_op (ensure (agg_version aggregate = 1)) (\<lambda>_.
     bind_op (bind_op (ask (find_by_id Rp i)) found) (\<lambda>loaded.
     bind_op (ensure (agg_id loaded = i \<and> agg_data loaded = ''first'' \<and> agg_version loaded = 1)) (\<lambda>_.
     bind_op (ensure (pending_events contract_root loaded = [])) (\<lambda>_.
     bind_op (save_ok Rp (relabel show_id t2 ''second'' loaded)) (\<lambda>to_update.
     bind_op (ensure (agg_version to_update = 2)) (\<lambda>_.
     bind_op (bind_op (ask (find_by_id Rp i)) found) (\<lambda>loaded.
     bind_op (ensure (agg_data loaded = ''second'' \<and> agg_version loaded = 2)) (\<lambda>_.
     bind_op (save_result Rp (set_version contract_root 1 (contract_new show_id t3 i ''stale''))) (\<lambda>result.
     bind_op (ensure (result = Err (ConcurrencyConflict 1 (Some 2)))) (\<lambda>_.
     bind_op (bind_op (ask (find_by_id Rp i)) found) (\<lambda>loaded.
     bind_op (ensure (agg_data loaded = ''second'')) (\<lambda>_.
     bind_op (ask (repo_delete Rp i)) (\<lambda>_.
     bind_op (ask (find_by_id Rp i)) (\<lambda>none.
     ensure (none = None))))))))))))))))))"

lemmas contract_defs = contract_new_def relabel_def contract_root_def raise_def drain_def restore_def events_default_def
  save_ok_def save_result_def

text \<open>
  The in-memory repository passes the conformance suite of the framework, from every state in
  which the identifier drawn by the suite is new. The suite runs one scenario; the repository is
  specified in general by \<open>repository_save_find\<close>.
\<close>

theorem repository_conforms:
  assumes "dm_get s i = None"
  shows "passes (repository_run show_id (imr_repository contract_root) i t1 t2 t3) s"
  using assms
  by (simp add: repository_run_def suite_defs contract_defs imr_repository_def imr_find_by_id_def imr_save_def imr_delete_def
      snapshot_without_pending_events_def Let_def split_beta)

theorem repository_conforms_witness:
  "passes (repository_run (\<lambda>_. ''id'') (imr_repository contract_root) 1 10 20 30) []"
  by (rule repository_conforms) simp

section \<open>The suites of the queue, the registry and the coordinator\<close>

text \<open>The loop that parks three more letters, numbered \<open>ks\<close>; \<open>ids\<close> and \<open>ts\<close> are its readings.\<close>

fun park_more :: "'w DeadLetterQueue \<Rightarrow> nat list \<Rightarrow> (nat \<Rightarrow> uuid) \<Rightarrow> (nat \<Rightarrow> instant) \<Rightarrow> ('w, unit) suite" where
  "park_more Q [] ids ts = finished"
| "park_more Q (k # ks) ids ts =
     bind_op (ask (dlq_dead_letter Q
         (DeadLetterMessage_new (ids k) (ts k) (Message_new (ids k) ''orders'' [k] ''application/json'') ''reason'' 1)))
       (\<lambda>_. park_more Q ks ids ts)"

definition dead_letter_run ::
    "'w DeadLetterQueue \<Rightarrow> uuid \<Rightarrow> instant \<Rightarrow> (nat \<Rightarrow> uuid) \<Rightarrow> (nat \<Rightarrow> instant) \<Rightarrow> ('w, unit) suite" where
  "dead_letter_run Q i t ids ts =
     (let message = DeadLetterMessage_new i t (Message_new i ''orders'' [112, 97, 121, 108, 111, 97, 100] ''application/json'')
            ''handler panicked'' 3
      in bind_op (ask (dlq_dead_letter Q message)) (\<lambda>_.
     bind_op (ask (dlq_list Q 10)) (\<lambda>listed.
     bind_op (found (find (\<lambda>m. dl_id m = i) listed)) (\<lambda>letter.
     bind_op (ensure (dl_reason letter = ''handler panicked'' \<and> dl_attempts letter = 3)) (\<lambda>_.
     bind_op (park_more Q [0, 1, 2] ids ts) (\<lambda>_.
     bind_op (ask (dlq_list Q 2)) (\<lambda>limited.
     ensure (length limited \<le> 2))))))))"

definition schema_registry_run :: "'w SchemaRegistry \<Rightarrow> instant \<Rightarrow> instant \<Rightarrow> ('w, unit) suite" where
  "schema_registry_run R t1 t2 =
     bind_op (ask (reg_get R ''OrderPlaced'' 1)) (\<lambda>x. bind_op (ensure (x = None)) (\<lambda>_.
     bind_op (ask (reg_latest R ''OrderPlaced'')) (\<lambda>x. bind_op (ensure (x = None)) (\<lambda>_.
     bind_op (ask (reg_register R (EventSchema_new t1 ''OrderPlaced'' 1 ''json-schema'' ''{}''))) (\<lambda>_.
     bind_op (bind_op (ask (reg_get R ''OrderPlaced'' 1)) found) (\<lambda>fetched.
     bind_op (ensure (es_format fetched = ''json-schema'')) (\<lambda>_.
     bind_op (bind_op (ask (reg_latest R ''OrderPlaced'')) found) (\<lambda>latest.
     bind_op (ensure (es_version latest = 1)) (\<lambda>_.
     bind_op (ask (reg_register R (EventSchema_new t2 ''OrderPlaced'' 2 ''json-schema'' ''{\"v\":2}''))) (\<lambda>_.
     bind_op (bind_op (ask (reg_latest R ''OrderPlaced'')) found) (\<lambda>latest.
     bind_op (ensure (es_version latest = 2)) (\<lambda>_.
     bind_op (bind_op (ask (reg_get R ''OrderPlaced'' 1)) found) (\<lambda>still_v1.
     ensure (es_version still_v1 = 1))))))))))))))"

definition consumer_group_run :: "'w ConsumerGroupCoordinator \<Rightarrow> ('w, unit) suite" where
  "consumer_group_run G =
     (let grp = ''pharos-contract-group''; topics = [''orders'', ''payments'']
      in bind_op (ask (gc_join G grp ''consumer-1'' topics)) (\<lambda>assigned.
     bind_op (ensure (assigned \<noteq> [])) (\<lambda>_.
     bind_op (ensure (list_all (\<lambda>t. list_ex (\<lambda>a. pa_topic a = t) assigned) topics)) (\<lambda>_.
     bind_op (ensure (list_all (\<lambda>a. pa_group a = grp \<and> pa_consumer_id a = ''consumer-1'') assigned)) (\<lambda>_.
     bind_op (ask (gc_assignments G grp)) (\<lambda>now.
     bind_op (ensure (now \<noteq> [])) (\<lambda>_.
     bind_op (ask (gc_leave G grp ''consumer-1'')) (\<lambda>_.
     bind_op (ask (gc_assignments G grp)) (\<lambda>after_leave.
     ensure (\<not> list_ex (\<lambda>a. pa_consumer_id a = ''consumer-1'') after_leave))))))))))"

text \<open>
  The in-memory queue passes its suite exactly when it holds fewer than ten letters at the start
  and none with the same identifier: the suite looks for its letter among the first ten.
\<close>

definition dlq_dictionary :: "InMemoryDeadLetterQueue DeadLetterQueue" where
  "dlq_dictionary = \<lparr>dlq_dead_letter = mem_dead_letter, dlq_list = mem_dlq_list\<rparr>"

theorem dead_letter_conforms:
  assumes "list_all (\<lambda>m. dl_id m \<noteq> i) q"
  shows "passes (dead_letter_run dlq_dictionary i t ids ts) q \<longleftrightarrow> length q < 10"
proof -
  have n: "find (\<lambda>m. dl_id m = i) xs = None" if "set xs \<subseteq> set q" for xs
    using assms that by (auto simp: find_None_iff list_all_iff)
  have "find (\<lambda>m. dl_id m = i) (take 10 (q @ [m])) = (if length q < 10 then Some m else None)" if "dl_id m = i" for m
    using that n [of q] n [of "take 10 q"] by (auto simp: find_append_two set_take_subset)
  then show ?thesis
    by (simp add: dead_letter_run_def suite_defs dlq_dictionary_def mem_dead_letter_def mem_dlq_list_def
        DeadLetterMessage_new_def Let_def)
qed

text \<open>The in-memory registry passes its suite when it holds no schema of the event type of the suite.\<close>

theorem schema_registry_conforms:
  assumes "dm_wf s" "\<And>v. dm_get s (''OrderPlaced'', v) = None"
  shows "passes (schema_registry_run isr_registry t1 t2) s"
proof -
  let ?e1 = "EventSchema_new t1 ''OrderPlaced'' 1 ''json-schema'' ''{}''"
  let ?e2 = "EventSchema_new t2 ''OrderPlaced'' 2 ''json-schema'' ''{\"v\":2}''"
  let ?s1 = "dm_insert (''OrderPlaced'', 1) ?e1 s"
  let ?s2 = "dm_insert (''OrderPlaced'', 2) ?e2 ?s1"
  have "isr_latest ''OrderPlaced'' s = (Ok None, s)" using assms by (rule mem_registry.latest_none)
  moreover have "isr_latest ''OrderPlaced'' ?s1 = (Ok (Some ?e1), ?s1)"
    by (rule mem_registry.latest_some [where v = 1]) (use assms in \<open>auto split: if_splits\<close>)
  moreover have "isr_latest ''OrderPlaced'' ?s2 = (Ok (Some ?e2), ?s2)"
    by (rule mem_registry.latest_some [where v = 2]) (use assms in \<open>auto split: if_splits\<close>)
  ultimately show ?thesis using assms(2)
    by (simp add: schema_registry_run_def suite_defs isr_registry_def isr_get_def isr_register_def)
      (simp add: EventSchema_new_def suite_defs isr_get_def)
qed

text \<open>The in-memory coordinator passes its suite from every state; the suite joins a single consumer.\<close>

theorem consumer_group_conforms: "passes (consumer_group_run cg_coordinator) s"
  by (simp add: consumer_group_run_def suite_defs cg_coordinator_def cg_join_def cg_leave_def cg_assignments_def
      PartitionAssignment_new_def Let_def)

section \<open>The suites of the event-sourcing stores\<close>

text \<open>\<open>ev k lb\<close> is the event the suite builds with the label \<open>lb\<close> at its \<open>k\<close>-th clock reading.\<close>

definition event_store_run ::
    "(uuid \<Rightarrow> string) \<Rightarrow> ('w, uuid, ContractEvent) EventStore \<Rightarrow> uuid \<Rightarrow> (nat \<Rightarrow> instant) \<Rightarrow> ('w, unit) suite" where
  "event_store_run show_id St i ts =
     (let ev = (\<lambda>k lb. \<lparr>ce_aggregate_id = show_id i, ce_occurred_at = ts k, ce_label = lb\<rparr>)
      in bind_op (ask (es_load St i)) (\<lambda>x. bind_op (ensure (x = [])) (\<lambda>_.
     bind_op (ask (es_append St i 0 [ev 0 ''created''])) (\<lambda>_.
     bind_op (ask (es_load St i)) (\<lambda>loaded.
     bind_op (ensure (length loaded = 1 \<and> se_sequence (loaded ! 0) = 1 \<and> ce_label (se_event (loaded ! 0)) = ''created'')) (\<lambda>_.
     bind_op (observe (es_append St i 0 [ev 1 ''duplicate''])) (\<lambda>stale.
     bind_op (ensure (stale = Err (ConcurrencyConflict 0 (Some 1)))) (\<lambda>_.
     bind_op (ask (es_load St i)) (\<lambda>loaded.
     bind_op (ensure (length loaded = 1)) (\<lambda>_.
     bind_op (ask (es_append St i 1 [ev 2 ''confirmed'', ev 3 ''shipped''])) (\<lambda>_.
     bind_op (ask (es_load St i)) (\<lambda>loaded.
     bind_op (ensure (length loaded = 3 \<and> map se_sequence loaded = [1, 2, 3])) (\<lambda>_.
     bind_op (ask (es_load_after St i 1)) (\<lambda>after_first.
     bind_op (ensure (length after_first = 2 \<and> se_sequence (after_first ! 0) = 2
       \<and> ce_label (se_event (after_first ! 0)) = ''confirmed'')) (\<lambda>_.
     bind_op (ask (es_delete_stream St i)) (\<lambda>_.
     bind_op (ask (es_load St i)) (\<lambda>x. bind_op (ensure (x = [])) (\<lambda>_.
     bind_op (ask (es_append St i 0 [ev 4 ''recreated''])) (\<lambda>_.
     finished)))))))))))))))))))"

definition snapshot_store_run :: "('w, uuid, nat) SnapshotStore \<Rightarrow> uuid \<Rightarrow> instant \<Rightarrow> instant \<Rightarrow> ('w, unit) suite" where
  "snapshot_store_run St i t1 t2 =
     bind_op (ask (ss_load St i)) (\<lambda>x. bind_op (ensure (x = None)) (\<lambda>_.
     bind_op (ask (ss_save St i (Snapshot_new t1 10 3))) (\<lambda>_.
     bind_op (bind_op (ask (ss_load St i)) found) (\<lambda>loaded.
     bind_op (ensure (sn_state loaded = 10 \<and> sn_version loaded = 3)) (\<lambda>_.
     bind_op (ask (ss_save St i (Snapshot_new t2 20 9))) (\<lambda>_.
     bind_op (bind_op (ask (ss_load St i)) found) (\<lambda>loaded.
     ensure (sn_state loaded = 20 \<and> sn_version loaded = 9))))))))"

text \<open>
  The in-memory event store passes the conformance suite of the framework from every state in
  which the identifier drawn by the suite has no stream, and the in-memory snapshot store passes
  its suite from every state in which it has no snapshot.
\<close>

theorem event_stores_conform:
  "(dm_get (ew_streams w) i = None \<longrightarrow> passes (event_store_run show_id ew_store i ts) w)
   \<and> (dm_get (ew_snapshots v) j = None \<longrightarrow> passes (snapshot_store_run ew_snapshot_store j t1 t2) v)"
proof (intro conjI impI)
  assume "dm_get (ew_snapshots v) j = None"
  then show "passes (snapshot_store_run ew_snapshot_store j t1 t2) v"
    by (simp add: snapshot_store_run_def suite_defs ew_snapshot_store_def iss_load_def iss_save_def Snapshot_new_def Let_def)
next
  assume "dm_get (ew_streams w) i = None"
  then show "passes (event_store_run show_id ew_store i ts) w"
    by (simp add: event_store_run_def suite_defs ew_store_def ew_load_def default_load_after_def ies_load_def ies_append_def
        ies_delete_stream_def ies_enumerate_def StoredEvent_new_def Let_def)
qed

section \<open>The suites of the saga store\<close>

definition saga_store_run :: "('w, string, nat) SagaStore \<Rightarrow> instant \<Rightarrow> instant \<Rightarrow> ('w, unit) suite" where
  "saga_store_run St t1 t2 =
     (let i = ''contract-saga-1''
      in bind_op (ask (saga_load St i)) (\<lambda>x. bind_op (ensure (x = None)) (\<lambda>_.
     bind_op (ask (saga_save St (SagaInstance_running t1 i 1))) (\<lambda>_.
     bind_op (bind_op (ask (saga_load St i)) found) (\<lambda>loaded.
     bind_op (ensure (si_version loaded = 1 \<and> si_state loaded = 1)) (\<lambda>_.
     bind_op (observe (saga_save St (SagaInstance_running t2 i 99))) (\<lambda>conflicting_create.
     bind_op (ensure (conflicting_create = Err (SagaConcurrencyConflict 0 (Some 1)))) (\<lambda>_.
     bind_op (ask (saga_save St (loaded\<lparr>si_state := 2\<rparr>))) (\<lambda>_.
     bind_op (bind_op (ask (saga_load St i)) found) (\<lambda>loaded.
     bind_op (ensure (si_version loaded = 2 \<and> si_state loaded = 2)) (\<lambda>_.
     bind_op (observe (saga_save St (loaded\<lparr>si_version := 1, si_state := 3\<rparr>))) (\<lambda>stale_result.
     bind_op (ensure (stale_result = Err (SagaConcurrencyConflict 1 (Some 2)))) (\<lambda>_.
     bind_op (bind_op (ask (saga_load St i)) found) (\<lambda>unchanged.
     ensure (si_state unchanged = 2)))))))))))))))"

definition saga_timeout_run :: "('w, string, nat) SagaStore \<Rightarrow> instant \<Rightarrow> (nat \<Rightarrow> instant) \<Rightarrow> ('w, unit) suite" where
  "saga_timeout_run St now ts =
     (let secs = (\<lambda>n. n * 10 ^ 9);
          sooner = ''contract-saga-sooner''; later = ''contract-saga-later''
      in bind_op (ask (saga_save St ((SagaInstance_running_until (ts 0) ''contract-saga-completed'' 1 (now - secs 5))\<lparr>si_status := Completed\<rparr>))) (\<lambda>_.
     bind_op (ask (saga_save St (SagaInstance_running_until (ts 1) ''contract-saga-future'' 1 (now + secs 3600)))) (\<lambda>_.
     bind_op (ask (saga_save St (SagaInstance_running (ts 2) ''contract-saga-no-deadline'' 1))) (\<lambda>_.
     bind_op (ask (claim_due St now (secs 60) 10)) (\<lambda>claimed.
     bind_op (ensure (claimed = [])) (\<lambda>_.
     bind_op (ask (saga_save St (SagaInstance_running_until (ts 3) later 1 (now - secs 5)))) (\<lambda>_.
     bind_op (ask (saga_save St (SagaInstance_running_until (ts 4) sooner 1 (now - secs 50)))) (\<lambda>_.
     bind_op (ask (claim_due St now (secs 60) 10)) (\<lambda>claimed.
     bind_op (ensure (length claimed = 2 \<and> si_id (claimed ! 0) = sooner \<and> si_id (claimed ! 1) = later)) (\<lambda>_.
     bind_op (ask (claim_due St now (secs 60) 10)) (\<lambda>second_sweep.
     ensure (second_sweep = []))))))))))))"

theorem saga_store_conforms:
  assumes "dm_get (sw_sagas w) ''contract-saga-1'' = None"
  shows "passes (saga_store_run sw_store t1 t2) w"
  using assms
  by (simp add: saga_store_run_def suite_defs sw_store_def in_sagas_def isg_load_def isg_save_def SagaInstance_running_def Let_def)

theorem saga_timeout_conforms:
  "passes (saga_timeout_run sw_store now ts) (w\<lparr>sw_sagas := []\<rparr>)"
  by (simp add: saga_timeout_run_def suite_defs sw_store_def in_sagas_def isg_save_def isg_claim_due_def isg_candidates_def isg_due_def
      SagaInstance_running_def SagaInstance_running_until_def dm_get_def dm_insert_def Let_def)

section \<open>The suites of the inbox and the broker\<close>

definition inbox_run :: "'w InboxStore \<Rightarrow> uuid \<Rightarrow> uuid \<Rightarrow> ('w, unit) suite" where
  "inbox_run I mid failing_id =
     (let consumer = ''billing''
      in bind_op (ask (begin_processing I mid consumer)) (\<lambda>x. bind_op (ensure (x = StartProcessing)) (\<lambda>_.
     bind_op (ask (begin_processing I mid consumer)) (\<lambda>x. bind_op (ensure (x = AlreadyProcessing)) (\<lambda>_.
     bind_op (bind_op (ask (inbox_get I mid consumer)) found) (\<lambda>entry.
     bind_op (ensure (im_message_id entry = mid \<and> im_status entry = InboxStatus.Processing)) (\<lambda>_.
     bind_op (ask (mark_completed I mid consumer)) (\<lambda>_.
     bind_op (ask (begin_processing I mid consumer)) (\<lambda>x. bind_op (ensure (x = AlreadyCompleted)) (\<lambda>_.
     bind_op (bind_op (ask (inbox_get I mid consumer)) found) (\<lambda>completed.
     bind_op (ensure (im_status completed = InboxStatus.Completed)) (\<lambda>_.
     bind_op (ask (begin_processing I failing_id consumer)) (\<lambda>_.
     bind_op (ask (inbox_mark_failed I failing_id consumer ''handler panicked'')) (\<lambda>_.
     bind_op (ask (begin_processing I failing_id consumer)) (\<lambda>x. bind_op (ensure (x = RetryPreviousFailure)) (\<lambda>_.
     bind_op (bind_op (ask (inbox_get I failing_id consumer)) found) (\<lambda>failed.
     bind_op (ensure (im_last_error failed = Some ''handler panicked'')) (\<lambda>_.
     bind_op (ask (mark_completed I failing_id consumer)) (\<lambda>_.
     bind_op (ask (begin_processing I failing_id consumer)) (\<lambda>x. bind_op (ensure (x = AlreadyCompleted)) (\<lambda>_.
     bind_op (ask (begin_processing I mid ''shipping'')) (\<lambda>x.
     ensure (x = StartProcessing)))))))))))))))))))))))"

definition publish_and_consume :: "'w MessagePublisher \<Rightarrow> 'w MessageConsumer \<Rightarrow> uuid \<Rightarrow> ('w, unit) suite" where
  "publish_and_consume P C i =
     (let tp = ''pharos-contract-topic''
      in bind_op (ask (next_delivery C tp)) (\<lambda>x. bind_op (ensure (x = None)) (\<lambda>_.
     bind_op (ask (publish P (Message_new i tp [112, 97, 121, 108, 111, 97, 100] ''text/plain''))) (\<lambda>_.
     bind_op (bind_op (ask (next_delivery C tp)) found) (\<lambda>delivery.
     bind_op (ensure (message_id (d_message delivery) = i \<and> d_attempt delivery = 1)) (\<lambda>_.
     bind_op (ask (next_delivery C tp)) (\<lambda>x.
     ensure (x = None))))))))"

definition acknowledger_run ::
    "'w MessagePublisher \<Rightarrow> 'w MessageConsumer \<Rightarrow> 'w MessageAcknowledger \<Rightarrow> uuid \<Rightarrow> uuid \<Rightarrow> ('w, unit) suite" where
  "acknowledger_run P C A i1 i2 =
     (let tp = ''pharos-contract-ack-topic''
      in bind_op (ask (publish P (Message_new i1 tp [100, 114, 111, 112, 112, 101, 100] ''text/plain''))) (\<lambda>_.
     bind_op (bind_op (ask (next_delivery C tp)) found) (\<lambda>delivery.
     bind_op (ask (nack A delivery False)) (\<lambda>_.
     bind_op (ask (next_delivery C tp)) (\<lambda>x. bind_op (ensure (x = None)) (\<lambda>_.
     bind_op (ask (publish P (Message_new i2 tp [114, 101, 113, 117, 101, 117, 101, 100] ''text/plain''))) (\<lambda>_.
     bind_op (bind_op (ask (next_delivery C tp)) found) (\<lambda>first_delivery.
     bind_op (ask (nack A first_delivery True)) (\<lambda>_.
     bind_op (bind_op (ask (next_delivery C tp)) found) (\<lambda>redelivered.
     bind_op (ensure (message_id (d_message redelivered) = i2 \<and> d_attempt redelivered = d_attempt first_delivery + 1)) (\<lambda>_.
     bind_op (ask (ack A redelivered)) (\<lambda>_.
     finished))))))))))))"

text \<open>
  The in-memory inbox passes the conformance suite of the framework, from every state in which the
  identifiers of the suite are new, as long as the second delivery comes before the first one counts
  as stale.
\<close>

theorem inbox_conforms:
  assumes "ib_lookup (w_inbox w) mid ''billing'' = None" "ib_lookup (w_inbox w) mid ''shipping'' = None"
    and "ib_lookup (w_inbox w) failing_id ''billing'' = None" "mid \<noteq> failing_id"
    and "conv (ib_stale_after (w_inbox w)) = Ok stale_after"
    and "w_clock w (w_tick w + 2) < w_clock w (w_tick w) + stale_after"
  shows "passes (inbox_run (mem_inbox conv) mid failing_id) w"
  using assms
  by (simp add: inbox_run_def suite_defs mem_inbox_def timed_def mem_now_def on_inbox_def ib_begin_processing_def
      ib_mark_completed_def ib_mark_failed_def ib_modify_def ib_get_def InboxMessage_processing_def im_mark_completed_def
      im_mark_failed_def Let_def)

lemmas broker_defs = mem_publisher_def mem_consumer_def mem_acknowledger_def mem_publish_def on_broker_def br_publish_def
  br_push_def br_next_def br_nack_def br_ack_def br_queue_def Delivery_new_def Message_new_def Let_def

theorem broker_conforms:
  "(w_queue w ''pharos-contract-topic'' = [] \<and> w_faults w (w_publishes w) = None \<longrightarrow>
      passes (publish_and_consume mem_publisher mem_consumer i) w)
   \<and> (w_queue v ''pharos-contract-ack-topic'' = [] \<and> w_faults v (w_publishes v) = None
      \<and> w_faults v (Suc (w_publishes v)) = None \<longrightarrow>
      passes (acknowledger_run mem_publisher mem_consumer mem_acknowledger i1 i2) v)"
proof (intro conjI impI; elim conjE)
  assume "w_queue w ''pharos-contract-topic'' = []" "w_faults w (w_publishes w) = None"
  then show "passes (publish_and_consume mem_publisher mem_consumer i) w"
    by (cases "dm_get (br_topics (w_broker w)) ''pharos-contract-topic''")
      (simp_all add: publish_and_consume_def suite_defs broker_defs)
next
  assume "w_queue v ''pharos-contract-ack-topic'' = []" "w_faults v (w_publishes v) = None" "w_faults v (Suc (w_publishes v)) = None"
  then show "passes (acknowledger_run mem_publisher mem_consumer mem_acknowledger i1 i2) v"
    by (cases "dm_get (br_topics (w_broker v)) ''pharos-contract-ack-topic''")
      (simp_all add: acknowledger_run_def suite_defs broker_defs)
qed

section \<open>The suites of the outbox\<close>

text \<open>\<open>suite_row ids ts k pl\<close> is the \<open>k\<close>-th record the suite builds; \<open>ids\<close> are its identifiers and \<open>ts\<close> its clock readings.\<close>

definition suite_row :: "(nat \<Rightarrow> uuid) \<Rightarrow> (nat \<Rightarrow> instant) \<Rightarrow> nat \<Rightarrow> bytes \<Rightarrow> OutboxMessage" where
  "suite_row ids ts k pl = OutboxMessage_new (ts k) (ids (2 * k + 1)) (Message_new (ids (2 * k)) ''orders'' pl ''application/json'')"

definition has_id :: "uuid \<Rightarrow> OutboxMessage list \<Rightarrow> bool" where
  "has_id i ms \<longleftrightarrow> list_ex (\<lambda>m. om_id m = i) ms"

definition outbox_run :: "'w OutboxRepository \<Rightarrow> (nat \<Rightarrow> uuid) \<Rightarrow> (nat \<Rightarrow> instant) \<Rightarrow> ('w, unit) suite" where
  "outbox_run R ids ts =
     (let published = suite_row ids ts 0 [97]; published_id = om_id published;
          failing = suite_row ids ts 1 [98]; failing_id = om_id failing;
          batch = [suite_row ids ts 2 [99], suite_row ids ts 3 [100]]
      in bind_op (ask (or_insert R published)) (\<lambda>_.
     bind_op (ask (or_pending R 10)) (\<lambda>claimed.
     bind_op (ensure (has_id published_id claimed)) (\<lambda>_.
     bind_op (ask (or_record_attempt R published_id)) (\<lambda>_.
     bind_op (ask (or_mark_published R published_id)) (\<lambda>_.
     bind_op (ask (or_pending R 10)) (\<lambda>after_publish.
     bind_op (ensure (\<not> has_id published_id after_publish)) (\<lambda>_.
     bind_op (ask (or_failed R 10)) (\<lambda>never_failed.
     bind_op (ensure (\<not> has_id published_id never_failed)) (\<lambda>_.
     bind_op (ask (or_insert R failing)) (\<lambda>_.
     bind_op (ask (or_pending R 10)) (\<lambda>_.
     bind_op (ask (or_mark_failed R failing_id ''broker unreachable'')) (\<lambda>_.
     bind_op (bind_op (ask (or_failed R 10)) (\<lambda>failed. found (find (\<lambda>m. om_id m = failing_id) failed))) (\<lambda>row.
     bind_op (ensure (om_status row = OutboxStatus.Failed \<and> om_last_error row = Some ''broker unreachable'')) (\<lambda>_.
     bind_op (ask (or_mark_dead_lettered R failing_id)) (\<lambda>_.
     bind_op (ask (or_failed R 10)) (\<lambda>failed_after_dlq.
     bind_op (ensure (\<not> has_id failing_id failed_after_dlq)) (\<lambda>_.
     bind_op (ask (insert_many R batch)) (\<lambda>_.
     bind_op (ask (or_pending R 10)) (\<lambda>claimed.
     ensure (list_all (\<lambda>i. has_id i claimed) (map om_id batch))))))))))))))))))))))"

text \<open>The two calls that are joined; the in-memory outbox does not await between them.\<close>

definition no_double_claim_run :: "'w OutboxRepository \<Rightarrow> (nat \<Rightarrow> uuid) \<Rightarrow> (nat \<Rightarrow> instant) \<Rightarrow> ('w, unit) suite" where
  "no_double_claim_run R ids ts =
     (let message = suite_row ids ts 0 [114, 97, 99, 101]; i = om_id message
      in bind_op (ask (or_insert R message)) (\<lambda>_.
     bind_op (ask (or_pending R 10)) (\<lambda>a.
     bind_op (ask (or_pending R 10)) (\<lambda>b.
     ensure (length (filter (\<lambda>m. om_id m = i) a) + length (filter (\<lambda>m. om_id m = i) b) = 1)))))"

lemmas outbox_defs = mem_outbox_def timed_def mem_now_def on_outbox_def ob_insert_def ob_pending_def ob_candidates_def
  ob_claim_one_def ob_due_def ob_failed_def ob_modify_def ob_record_attempt_def ob_mark_published_def ob_mark_failed_def
  ob_mark_dead_lettered_def om_record_attempt_def om_mark_published_def om_mark_failed_def ob_put_def ob_get_def
  dm_values_def dm_insert_def dm_get_def OutboxMessage_new_def

text \<open>
  The in-memory outbox passes both suites when it starts empty: the second of two claims has to come
  within the lease of the first, and a record may not be created after the claim that has to see it.
\<close>

theorem no_double_claim_conforms:
  assumes "ob_store (w_outbox w) = []" "ts 0 \<le> w_clock w (w_tick w)"
    and "w_clock w (Suc (w_tick w)) < w_clock w (w_tick w) + ob_claim_lease (w_outbox w)"
  shows "passes (no_double_claim_run (mem_outbox conv) ids ts) w"
  using assms
  by (simp add: no_double_claim_run_def suite_row_def suite_defs outbox_defs Let_def split_beta)

theorem outbox_conforms:
  assumes "ob_store (w_outbox w) = []" "distinct [ids 1, ids 3, ids 5, ids 7]"
    and "ts 0 \<le> w_clock w (w_tick w)" "ts 2 \<le> w_clock w (w_tick w + 7)" "ts 3 \<le> w_clock w (w_tick w + 7)"
  shows "passes (outbox_run (mem_outbox conv) ids ts) w"
proof -
  have "w_tick w + 7 = Suc (Suc (Suc (Suc (Suc (Suc (Suc (w_tick w)))))))" by simp
  note last_claim = assms(4,5) [unfolded this]
  show ?thesis
    using assms(1-3) last_claim
    by (simp add: outbox_run_def suite_row_def has_id_def suite_defs outbox_defs Let_def split_beta)
qed

section \<open>The suites of the transactional store\<close>

text \<open>
  The unit of work as a repository and as the outbox that shares its records, on the world of the
  transactional dictionaries.
\<close>

definition on_uow :: "(('i, 'a) InMemoryUnitOfWork, 'e, 'b) op \<Rightarrow> (('i, 'a) UowWorld, 'e, 'b) op" where
  "on_uow f w = (let (r, s) = f (uw_uow w) in (r, w\<lparr>uw_uow := s\<rparr>))"

definition uw_reads :: "('a, 'i, 'e) AggregateRoot \<Rightarrow> (('i, 'a) UowWorld, 'a, 'i) Repository" where
  "uw_reads D = \<lparr>
     find_by_id = (\<lambda>i. on_uow (uow_find_by_id i)),
     repo_save = (\<lambda>a w. let (r, a', s) = uow_save D a (uw_uow w) in (r, a', w\<lparr>uw_uow := s\<rparr>)),
     repo_delete = (\<lambda>i. on_uow (uow_delete i))\<rparr>"

definition on_shared :: "(InMemoryOutboxRepository, 'e, 'b) op \<Rightarrow> (('i, 'a) UowWorld, 'e, 'b) op" where
  "on_shared f = on_uow (\<lambda>s. let (r, ob) = f (uow_outbox s) in (r, s\<lparr>uow_outbox := ob\<rparr>))"

definition stamped :: "(instant \<Rightarrow> (('i, 'a) UowWorld, 'e, 'b) op) \<Rightarrow> (('i, 'a) UowWorld, 'e, 'b) op" where
  "stamped f w = (let (t, w1) = utc_now uw_env w in f t w1)"

definition uw_outbox :: "('i, 'a) UowWorld OutboxRepository" where
  "uw_outbox = \<lparr>
     or_insert = \<lambda>m. on_shared (ob_insert m),
     or_pending = \<lambda>n. stamped (\<lambda>t. on_shared (ob_pending t n)),
     or_record_attempt = \<lambda>i. stamped (\<lambda>t. on_shared (ob_record_attempt t i)),
     or_schedule_retry = \<lambda>i d. stamped (\<lambda>t. stamped (\<lambda>t2. on_shared (ob_schedule_retry Inr t t2 i d))),
     or_mark_published = \<lambda>i. stamped (\<lambda>t. on_shared (ob_mark_published t i)),
     or_mark_failed = \<lambda>i e. stamped (\<lambda>t. on_shared (ob_mark_failed t i e)),
     or_failed = \<lambda>n. on_shared (ob_failed n),
     or_mark_dead_lettered = \<lambda>i. stamped (\<lambda>t. on_shared (ob_mark_dead_lettered t i))\<rparr>"

text \<open>\<open>save_in_tx(&mut tx, &mut a).await?\<close>: an error leaves the suite and drops the transaction.\<close>

definition save_tx ::
    "('w, 'tx) TransactionalStore \<Rightarrow> ('w, 'tx, 'a) TransactionalRepository \<Rightarrow> 'tx \<Rightarrow> 'a \<Rightarrow> ('w, 'tx \<times> 'a) suite" where
  "save_tx S T tx a w =
     (case save_in_tx T tx a w of
        (Err e, tx', a', w') \<Rightarrow> (Err AdapterFailed, ts_rollback S tx' w')
      | (Ok _, tx', a', w') \<Rightarrow> (Ok (tx', a'), w'))"

definition drop_tx :: "('w, 'tx) TransactionalStore \<Rightarrow> 'tx \<Rightarrow> ('w, unit) suite" where
  "drop_tx S tx w = (Ok (), ts_rollback S tx w)"

definition transactional_repository ::
    "(uuid \<Rightarrow> string) \<Rightarrow> ('w, ContractAggregate, uuid) Repository \<Rightarrow> ('w, 'tx, ContractAggregate) TransactionalRepository
     \<Rightarrow> ('w, 'tx) TransactionalStore \<Rightarrow> uuid \<Rightarrow> uuid \<Rightarrow> instant \<Rightarrow> instant \<Rightarrow> ('w, unit) suite" where
  "transactional_repository show_id R T S committed_id dropped_id t1 t2 =
     bind_op (ask (ts_begin S)) (\<lambda>tx.
     bind_op (save_tx S T tx (contract_new show_id t1 committed_id ''tx-committed'')) (\<lambda>(tx, committed).
     bind_op (ask (ts_commit S tx)) (\<lambda>_.
     bind_op (bind_op (ask (find_by_id R committed_id)) found) (\<lambda>loaded.
     bind_op (ensure (agg_data loaded = ''tx-committed'')) (\<lambda>_.
     bind_op (ask (ts_begin S)) (\<lambda>tx.
     bind_op (save_tx S T tx (contract_new show_id t2 dropped_id ''tx-dropped'')) (\<lambda>(tx, dropped).
     bind_op (drop_tx S tx) (\<lambda>_.
     bind_op (ask (find_by_id R dropped_id)) (\<lambda>none.
     ensure (none = None))))))))))"

text \<open>The mapping of the suite; the label is plain ASCII, so its bytes are its characters.\<close>

definition map_contract_event :: "'w Env \<Rightarrow> ContractEvent \<Rightarrow> ('w, string, Message) op" where
  "map_contract_event E ev w =
     (let (i, w1) = now_v7 E w in (Ok (Message_new i ''ContractEvent'' (map of_char (ce_label ev)) ''text/plain''), w1))"

definition enqueue_result ::
    "'w Env \<Rightarrow> ('w, 'tx, ContractAggregate) TransactionalRepository \<Rightarrow> ('w, 'tx) TransactionalStore \<Rightarrow> ContractAggregate
     \<Rightarrow> ('w, (SaveAndEnqueueError + unit) \<times> ContractAggregate) suite" where
  "enqueue_result E T S a w =
     (let (r, a', w') = save_and_enqueue_in E contract_root S T (map_contract_event E) a w in (Ok (r, a'), w'))"

definition save_and_enqueue_atomicity ::
    "'w Env \<Rightarrow> (uuid \<Rightarrow> string) \<Rightarrow> ('w, ContractAggregate, uuid) Repository \<Rightarrow> ('w, 'tx, ContractAggregate) TransactionalRepository
     \<Rightarrow> ('w, 'tx) TransactionalStore \<Rightarrow> 'w OutboxRepository \<Rightarrow> uuid \<Rightarrow> uuid \<Rightarrow> instant \<Rightarrow> instant \<Rightarrow> ('w, unit) suite" where
  "save_and_enqueue_atomicity E show_id R T S ob ok_id fail_id t1 t2 =
     bind_op (enqueue_result E T S (contract_new show_id t1 ok_id ''atomic-ok'')) (\<lambda>(result, ok_aggregate).
     bind_op (ask (\<lambda>w. (result, w))) (\<lambda>_.
     bind_op (ensure (agg_version ok_aggregate = 1)) (\<lambda>_.
     bind_op (ensure (pending_events contract_root ok_aggregate = [])) (\<lambda>_.
     bind_op (bind_op (ask (find_by_id R ok_id)) found) (\<lambda>loaded.
     bind_op (ensure (agg_data loaded = ''atomic-ok'')) (\<lambda>_.
     bind_op (ask (or_pending ob 100)) (\<lambda>pending.
     bind_op (ensure (list_ex (\<lambda>m. topic (om_message m) = ''ContractEvent'') pending)) (\<lambda>_.
     bind_op (enqueue_result E T S (set_version contract_root 7 (contract_new show_id t2 fail_id ''atomic-fail'')))
       (\<lambda>(result, fail_aggregate).
     bind_op (ensure (case result of Err (SaeRepository (ConcurrencyConflict _ _)) \<Rightarrow> True | _ \<Rightarrow> False)) (\<lambda>_.
     bind_op (ask (find_by_id R fail_id)) (\<lambda>none.
     bind_op (ensure (none = None)) (\<lambda>_.
     bind_op (ask (or_pending ob 100)) (\<lambda>pending_after_failure.
     bind_op (ensure (\<not> list_ex (\<lambda>m. topic (om_message m) = ''ContractEvent''
         \<and> payload (om_message m) = map of_char ''atomic-fail'') pending_after_failure)) (\<lambda>_.
     bind_op (ensure (agg_version fail_aggregate = 7)) (\<lambda>_.
     ensure (length (pending_events contract_root fail_aggregate) = 1))))))))))))))))"

lemmas uow_suite_defs = uw_reads_def uw_repository_def uw_store_def uw_env_def on_uow_def save_tx_def drop_tx_def
  uow_find_by_id_def uow_begin_def uow_commit_def uow_rollback_def uow_save_in_tx_def uow_insert_outbox_in_tx_def
  snapshot_without_pending_events_def contract_new_def contract_root_def raise_def drain_def events_default_def ob_insert_def

text \<open>
  The in-memory unit of work passes both suites: a committed transaction is visible, a dropped one
  leaves no trace, and a refused save leaves neither the aggregate nor a message behind.
\<close>

theorem transactional_repository_conforms:
  assumes "dm_get (uow_aggregates (uw_uow w)) committed_id = None"
    and "dm_get (uow_aggregates (uw_uow w)) dropped_id = None" "committed_id \<noteq> dropped_id"
  shows "passes (transactional_repository show_id (uw_reads contract_root) (uw_repository contract_root)
    (uw_store contract_root) committed_id dropped_id t1 t2) w"
  using assms by (simp add: transactional_repository_def suite_defs uow_suite_defs Let_def)

theorem save_and_enqueue_atomicity_conforms:
  assumes "dm_get (uow_aggregates (uw_uow w)) ok_id = None"
    and "dm_get (uow_aggregates (uw_uow w)) fail_id = None" "ok_id \<noteq> fail_id"
    and "ob_store (uow_outbox (uw_uow w)) = []"
    and "uw_clock w (uw_tick w + 1) \<le> uw_clock w (uw_tick w + 3)"
  shows "passes (save_and_enqueue_atomicity uw_env show_id (uw_reads contract_root) (uw_repository contract_root)
    (uw_store contract_root) uw_outbox ok_id fail_id t1 t2) w"
proof -
  have "uw_tick w + 3 = Suc (Suc (Suc (uw_tick w)))" by simp
  note in_time = assms(5) [unfolded this]
  show ?thesis
    using assms(1-4) in_time
    by (simp add: save_and_enqueue_atomicity_def suite_defs uow_suite_defs enqueue_result_def map_contract_event_def
      save_and_enqueue_in_def run_transaction_def uw_outbox_def stamped_def on_shared_def ob_pending_def ob_candidates_def
      ob_claim_one_def ob_due_def ob_put_def ob_get_def dm_values_def dm_insert_def dm_get_def OutboxMessage_new_def
      update_conv' Message_new_def Let_def)
qed

end
