(* ===== verification/Derive.thy ===== *)
theory Derive
  imports Http
begin

text \<open>
  \<open>crates/pharos-macros/src/lib.rs\<close>: what the derive and attribute macros make of an item. The item
  is taken as \<open>syn\<close> has parsed it; what the parser of an option's value yields is part of the
  parsed option. The generated code is a record of what varies in it, together with the
  dictionary or function that it defines at run time. Generics are passed through unchanged by
  the code and left out; spans of errors are left out.
\<close>

section \<open>Parsed items\<close>

datatype RustType = TypePath "PathSegment list" | TypeOther string
and PathSegment = PathSegment string PathArguments
and PathArguments = NoArguments | AngleBracketed "GenericArgument list" | Parenthesized
and GenericArgument = TypeArgument RustType | OtherArgument

text \<open>
  One option in the parentheses of an attribute: its path, the outcome of parsing its value as a
  string literal, as an unsigned 32-bit literal and as a type, and the error that is reported when
  the macro does not read the value although there is one.
\<close>

record NestedMeta =
  nm_path :: string
  nm_str :: "string + string"
  nm_u32 :: "string + nat"
  nm_type :: "string + RustType"
  nm_unread :: "string option"

text \<open>\<open>at_bare\<close> is \<open>Meta::Path\<close>; \<open>at_syntax\<close> is the syntax error that follows the options, if there is one.\<close>

record Attribute =
  at_path :: string
  at_bare :: bool
  at_nested :: "NestedMeta list"
  at_syntax :: "string option"

record Field =
  fd_ident :: "string option"
  fd_type :: RustType
  fd_attrs :: "Attribute list"

datatype Fields = NamedFields "Field list" | UnnamedFields "Field list" | UnitFields

record Variant =
  va_ident :: string
  va_attrs :: "Attribute list"
  va_fields :: Fields

datatype Data = StructData Fields | EnumData "Variant list" | UnionData

record DeriveInput =
  di_ident :: string
  di_attrs :: "Attribute list"
  di_data :: Data

text \<open>\<open>parse_nested_meta\<close> gives every option to the closure, whose captured variables are the state.\<close>

fun parse_nested_meta :: "('s \<Rightarrow> NestedMeta \<Rightarrow> string + 's) \<Rightarrow> 's \<Rightarrow> NestedMeta list \<Rightarrow> string option \<Rightarrow> string + 's" where
  "parse_nested_meta f s [] syntax = (case syntax of None \<Rightarrow> Ok s | Some e \<Rightarrow> Err e)"
| "parse_nested_meta f s (m # ms) syntax =
     (case f s m of Err e \<Rightarrow> Err e | Ok s' \<Rightarrow> parse_nested_meta f s' ms syntax)"

definition take_flag :: "NestedMeta \<Rightarrow> 's \<Rightarrow> string + 's" where
  "take_flag m s = (case nm_unread m of None \<Rightarrow> Ok s | Some e \<Rightarrow> Err e)"

definition has_attr :: "string \<Rightarrow> Field \<Rightarrow> bool" where
  "has_attr a f \<longleftrightarrow> list_ex (\<lambda>x. at_path x = a) (fd_attrs f)"

section \<open>Paths of the crates\<close>

text \<open>The answer of \<open>proc_macro_crate::crate_name\<close>; \<open>None\<close> is its error.\<close>

datatype FoundCrate = CrateName string | CrateItself

type_synonym crate_names = "string \<Rightarrow> FoundCrate option"

record PharosPaths =
  path_core :: string
  path_app :: string

definition direct_path :: "crate_names \<Rightarrow> string \<Rightarrow> string \<Rightarrow> string option" where
  "direct_path crate_name package fallback = (case crate_name package of
       Some (CrateName n) \<Rightarrow> Some (''::'' @ n)
     | Some CrateItself \<Rightarrow> Some (''::'' @ fallback)
     | None \<Rightarrow> None)"

definition facade_path :: "crate_names \<Rightarrow> string option" where
  "facade_path crate_name = (case crate_name ''pharos-rs'' of
       Some (CrateName n) \<Rightarrow> Some (''::'' @ n)
     | Some CrateItself \<Rightarrow> Some ''::pharos''
     | None \<Rightarrow> None)"

definition resolve_path :: "crate_names \<Rightarrow> string \<Rightarrow> string \<Rightarrow> string \<Rightarrow> string" where
  "resolve_path crate_name package fallback reexport = (case direct_path crate_name package fallback of
       Some p \<Rightarrow> p
     | None \<Rightarrow> (case facade_path crate_name of Some f \<Rightarrow> f @ ''::'' @ reexport | None \<Rightarrow> ''::'' @ fallback))"

definition pharos_paths :: "crate_names \<Rightarrow> PharosPaths" where
  "pharos_paths crate_name =
     \<lparr>path_core = resolve_path crate_name ''pharos-core'' ''pharos_core'' ''core'',
      path_app = resolve_path crate_name ''pharos-app'' ''pharos_app'' ''app''\<rparr>"

record ExternalPaths =
  path_serde :: string
  path_uuid :: string

definition resolve_external :: "crate_names \<Rightarrow> string \<Rightarrow> string \<Rightarrow> string" where
  "resolve_external crate_name package fallback = (case crate_name package of
       Some (CrateName n) \<Rightarrow> ''::'' @ n
     | Some CrateItself \<Rightarrow> ''::'' @ fallback
     | None \<Rightarrow> ''::'' @ fallback)"

definition external_paths :: "crate_names \<Rightarrow> ExternalPaths" where
  "external_paths crate_name =
     \<lparr>path_serde = resolve_external crate_name ''serde'' ''serde'', path_uuid = resolve_external crate_name ''uuid'' ''uuid''\<rparr>"

section \<open>Entities and aggregate roots\<close>

definition find_field_with_attr :: "DeriveInput \<Rightarrow> string \<Rightarrow> string + Field" where
  "find_field_with_attr ast a = (case di_data ast of
       StructData (NamedFields fs) \<Rightarrow> (case find (has_attr a) fs of
           Some f \<Rightarrow> Ok f
         | None \<Rightarrow> Err (''no field annotated with `#['' @ a @ '']` was found''))
     | StructData _ \<Rightarrow> Err ''this derive requires a struct with named fields''
     | _ \<Rightarrow> Err ''this derive only applies to structs'')"

definition field_with_attr :: "Field list \<Rightarrow> string \<Rightarrow> string option" where
  "field_with_attr fs a = (case List.map_filter fd_ident (filter (has_attr a) fs) of [] \<Rightarrow> None | i # _ \<Rightarrow> Some i)"

definition extract_single_generic :: "RustType \<Rightarrow> string \<Rightarrow> string + RustType" where
  "extract_single_generic ty wrapper =
     (let failure = Err (''the `#[events]` field must have type `'' @ wrapper @ ''<YourEvent>`'')
      in case ty of
           TypePath segs \<Rightarrow> (case rev segs of
               PathSegment i (AngleBracketed (TypeArgument inner # _)) # _ \<Rightarrow> if i = wrapper then Ok inner else failure
             | _ \<Rightarrow> failure)
         | TypeOther _ \<Rightarrow> failure)"

record EntityImpl =
  ei_core :: string
  ei_id_type :: RustType
  ei_field :: string

definition derive_entity :: "crate_names \<Rightarrow> DeriveInput \<Rightarrow> string + EntityImpl" where
  "derive_entity cn ast = (case find_field_with_attr ast ''id'' of
       Err e \<Rightarrow> Err e
     | Ok f \<Rightarrow> (case fd_ident f of
           None \<Rightarrow> Err ''the `#[id]` field must be named''
         | Some n \<Rightarrow> Ok \<lparr>ei_core = path_core (pharos_paths cn), ei_id_type = fd_type f, ei_field = n\<rparr>))"

record AggregateImpl =
  ai_core :: string
  ai_event :: RustType
  ai_events :: string
  ai_version :: string

definition derive_aggregate_root :: "crate_names \<Rightarrow> DeriveInput \<Rightarrow> string + AggregateImpl" where
  "derive_aggregate_root cn ast = (case find_field_with_attr ast ''events'' of
       Err e \<Rightarrow> Err e
     | Ok f \<Rightarrow> (case fd_ident f of
           None \<Rightarrow> Err ''the `#[events]` field must be named''
         | Some n \<Rightarrow> (case extract_single_generic (fd_type f) ''AggregateEvents'' of
               Err e \<Rightarrow> Err e
             | Ok ty \<Rightarrow> (case find_field_with_attr ast ''version'' of
                   Err _ \<Rightarrow> Err (''#[derive(AggregateRoot)] requires a `#[version]` field of type `u64` '' @
                     ''for optimistic concurrency control'')
                 | Ok v \<Rightarrow> (case fd_ident v of
                       None \<Rightarrow> Err ''the `#[version]` field must be named''
                     | Some vn \<Rightarrow> Ok \<lparr>ai_core = path_core (pharos_paths cn), ai_event = ty, ai_events = n, ai_version = vn\<rparr>)))))"

section \<open>Domain events\<close>

text \<open>One arm of each generated match: the name, the version and the two fields of a variant.\<close>

record EventArm =
  arm_variant :: string
  arm_name :: string
  arm_schema_version :: nat
  arm_at :: string
  arm_id :: string

definition event_option :: "string \<times> nat \<Rightarrow> NestedMeta \<Rightarrow> string + string \<times> nat" where
  "event_option s m =
     (if nm_path m = ''name'' then map_sum id (\<lambda>n. (n, snd s)) (nm_str m)
      else if nm_path m = ''schema_version'' then map_sum id (\<lambda>v. (fst s, v)) (nm_u32 m)
      else Err ''unsupported option; expected `name` or `schema_version`'')"

fun event_options :: "string \<times> nat \<Rightarrow> Attribute list \<Rightarrow> string + string \<times> nat" where
  "event_options s [] = Ok s"
| "event_options s (a # as) =
     (if at_path a \<noteq> ''event'' then event_options s as
      else (case parse_nested_meta event_option s (at_nested a) (at_syntax a) of
          Err e \<Rightarrow> Err e
        | Ok s' \<Rightarrow> event_options s' as))"

definition event_arm :: "Variant \<Rightarrow> string + EventArm" where
  "event_arm v = (case event_options (va_ident v, 0) (va_attrs v) of
       Err e \<Rightarrow> Err e
     | Ok (n, sv) \<Rightarrow> (case va_fields v of
           NamedFields named \<Rightarrow> (case field_with_attr named ''occurred_at'' of
               None \<Rightarrow> Err ''variant is missing a `#[occurred_at]` field (DateTime<Utc>)''
             | Some at_field \<Rightarrow> (case field_with_attr named ''aggregate_id'' of
                   None \<Rightarrow> Err ''variant is missing a `#[aggregate_id]` field''
                 | Some id_field \<Rightarrow> Ok \<lparr>arm_variant = va_ident v, arm_name = n, arm_schema_version = sv,
                     arm_at = at_field, arm_id = id_field\<rparr>))
         | _ \<Rightarrow> Err ''each event variant must use named fields ({ ... })''))"

fun event_arms :: "Variant list \<Rightarrow> string + EventArm list" where
  "event_arms [] = Ok []"
| "event_arms (v # vs) = (case event_arm v of
       Err e \<Rightarrow> Err e
     | Ok a \<Rightarrow> map_sum id (\<lambda>as. a # as) (event_arms vs))"

record DomainEventImpl =
  dei_core :: string
  dei_arms :: "EventArm list"

definition derive_domain_event :: "crate_names \<Rightarrow> DeriveInput \<Rightarrow> string + DomainEventImpl" where
  "derive_domain_event cn ast = (case di_data ast of
       EnumData vs \<Rightarrow> map_sum id (\<lambda>as. \<lparr>dei_core = path_core (pharos_paths cn), dei_arms = as\<rparr>) (event_arms vs)
     | _ \<Rightarrow> Err ''#[derive(DomainEvent)] only supports enums'')"

text \<open>
  The generated methods on a value: its variant and its fields by name. The first arm of the variant
  is taken.
\<close>

record 'v EventValue =
  evv_variant :: string
  evv_field :: "string \<Rightarrow> 'v"

definition arm_of :: "DomainEventImpl \<Rightarrow> 'v EventValue \<Rightarrow> EventArm option" where
  "arm_of i x = find (\<lambda>a. arm_variant a = evv_variant x) (dei_arms i)"

definition generated_event_type :: "DomainEventImpl \<Rightarrow> 'v EventValue \<Rightarrow> string option" where
  "generated_event_type i x = map_option arm_name (arm_of i x)"

definition generated_schema_version :: "DomainEventImpl \<Rightarrow> 'v EventValue \<Rightarrow> nat option" where
  "generated_schema_version i x = map_option arm_schema_version (arm_of i x)"

definition generated_occurred_at :: "DomainEventImpl \<Rightarrow> 'v EventValue \<Rightarrow> 'v option" where
  "generated_occurred_at i x = map_option (\<lambda>a. evv_field x (arm_at a)) (arm_of i x)"

definition generated_aggregate_id :: "DomainEventImpl \<Rightarrow> 'v EventValue \<Rightarrow> 'v option" where
  "generated_aggregate_id i x = map_option (\<lambda>a. evv_field x (arm_id a)) (arm_of i x)"

section \<open>Commands and queries\<close>

datatype Dispatchable = CommandKind | QueryKind

fun kind_attr :: "Dispatchable \<Rightarrow> string" where
  "kind_attr CommandKind = ''command''"
| "kind_attr QueryKind = ''query''"

fun kind_span :: "Dispatchable \<Rightarrow> string \<times> string" where
  "kind_span CommandKind = (''command.handle'', ''command'')"
| "kind_span QueryKind = (''query.handle'', ''query'')"

fun trait_path :: "Dispatchable \<Rightarrow> string \<Rightarrow> string" where
  "trait_path CommandKind app = app @ ''::Command''"
| "trait_path QueryKind app = app @ ''::Query''"

definition struct_fields :: "DeriveInput \<Rightarrow> Field list option" where
  "struct_fields ast = (case di_data ast of
       StructData (NamedFields fs) \<Rightarrow> Some fs
     | StructData (UnnamedFields fs) \<Rightarrow> Some fs
     | _ \<Rightarrow> None)"

text \<open>
  The rules of one \<open>#[garde(..)]\<close>. An option with a value is read together with everything that
  follows it, so nothing after it is looked at.
\<close>

fun has_rule :: "NestedMeta list \<Rightarrow> bool" where
  "has_rule [] \<longleftrightarrow> False"
| "has_rule (m # ms) \<longleftrightarrow> nm_path m \<noteq> ''skip'' \<or> (nm_unread m = None \<and> has_rule ms)"

definition has_garde_fields :: "DeriveInput \<Rightarrow> bool" where
  "has_garde_fields ast \<longleftrightarrow> (case struct_fields ast of
       None \<Rightarrow> False
     | Some fs \<Rightarrow> list_ex (\<lambda>f. list_ex (\<lambda>a. has_rule (at_nested a)) (filter (\<lambda>a. at_path a = ''garde'') (fd_attrs f))) fs)"

datatype TraceMode = TraceValue | TraceDisplay | TraceDebug | TraceSkip

record TraceField =
  tf_key :: string
  tf_mode :: TraceMode
  tf_access :: string

definition trace_option :: "TraceMode \<times> string option \<Rightarrow> NestedMeta \<Rightarrow> string + TraceMode \<times> string option" where
  "trace_option s m =
     (if nm_path m = ''skip'' then take_flag m (TraceSkip, snd s)
      else if nm_path m = ''value'' then take_flag m (TraceValue, snd s)
      else if nm_path m = ''display'' then take_flag m (TraceDisplay, snd s)
      else if nm_path m = ''debug'' then take_flag m (TraceDebug, snd s)
      else if nm_path m = ''name'' then map_sum id (\<lambda>n. (fst s, Some n)) (nm_str m)
      else Err ''expected `skip`, `value`, `display`, `debug`, or `name = \"...\"`'')"

text \<open>Mode and name of a field, from its first \<open>#[trace]\<close>.\<close>

definition trace_settings :: "Field \<Rightarrow> string + TraceMode \<times> string option" where
  "trace_settings f = (case find (\<lambda>a. at_path a = ''trace'') (fd_attrs f) of
       None \<Rightarrow> Ok (TraceDebug, None)
     | Some a \<Rightarrow> if at_bare a then Ok (TraceValue, None)
                 else parse_nested_meta trace_option (TraceDebug, None) (at_nested a) (at_syntax a))"

definition trace_access :: "nat \<Rightarrow> Field \<Rightarrow> string" where
  "trace_access index f = (case fd_ident f of Some i \<Rightarrow> i | None \<Rightarrow> dec_string index)"

definition trace_default_key :: "nat \<Rightarrow> Field \<Rightarrow> string" where
  "trace_default_key index f = (case fd_ident f of Some i \<Rightarrow> i | None \<Rightarrow> ''_'' @ dec_string index)"

fun trace_loop :: "nat \<Rightarrow> Field list \<Rightarrow> string + TraceField list" where
  "trace_loop index [] = Ok []"
| "trace_loop index (f # fs) = (case trace_settings f of
       Err e \<Rightarrow> Err e
     | Ok (mode, rename) \<Rightarrow>
         (let key = (case rename of Some l \<Rightarrow> l | None \<Rightarrow> trace_default_key index f)
          in if mode = TraceSkip then trace_loop (index + 1) fs
             else map_sum id (\<lambda>out. \<lparr>tf_key = key, tf_mode = mode, tf_access = trace_access index f\<rparr> # out)
                    (trace_loop (index + 1) fs)))"

definition collect_trace_fields :: "DeriveInput \<Rightarrow> string + TraceField list" where
  "collect_trace_fields ast = (case struct_fields ast of None \<Rightarrow> Ok [] | Some fs \<Rightarrow> trace_loop 0 fs)"

record DispatchOptions =
  name_override :: "string option"
  result_ty :: "RustType option"
  has_validate :: bool
  is_internal :: bool

definition dispatch_option :: "Dispatchable \<Rightarrow> DispatchOptions \<Rightarrow> NestedMeta \<Rightarrow> string + DispatchOptions" where
  "dispatch_option kind s m =
     (if nm_path m = ''name'' then map_sum id (\<lambda>n. s\<lparr>name_override := Some n\<rparr>) (nm_str m)
      else if kind = QueryKind \<and> nm_path m = ''result'' then map_sum id (\<lambda>ty. s\<lparr>result_ty := Some ty\<rparr>) (nm_type m)
      else if kind = CommandKind \<and> nm_path m = ''validate'' then take_flag m (s\<lparr>has_validate := True\<rparr>)
      else if kind = CommandKind \<and> nm_path m = ''internal'' then take_flag m (s\<lparr>is_internal := True\<rparr>)
      else Err (''unsupported option; expected `name`, `validate`, `internal` '' @ ''(or `result` for queries)''))"

fun dispatch_options :: "Dispatchable \<Rightarrow> DispatchOptions \<Rightarrow> Attribute list \<Rightarrow> string + DispatchOptions" where
  "dispatch_options kind s [] = Ok s"
| "dispatch_options kind s (a # as) =
     (if at_path a \<noteq> kind_attr kind then dispatch_options kind s as
      else (case parse_nested_meta (dispatch_option kind) s (at_nested a) (at_syntax a) of
          Err e \<Rightarrow> Err e
        | Ok s' \<Rightarrow> dispatch_options kind s' as))"

record DispatchImpl =
  im_trait :: string
  im_type :: string
  im_name :: string
  im_result :: "RustType option"
  im_internal :: bool
  im_trace :: "TraceField list"
  im_validate :: bool

definition expand_dispatchable :: "crate_names \<Rightarrow> DeriveInput \<Rightarrow> Dispatchable \<Rightarrow> string + DispatchImpl" where
  "expand_dispatchable cn ast kind =
     (let app = path_app (pharos_paths cn)
      in case dispatch_options kind \<lparr>name_override = None, result_ty = None, has_validate = False, is_internal = False\<rparr> (di_attrs ast) of
        Err e \<Rightarrow> Err e
      | Ok s \<Rightarrow>
          (let name_lit = (case name_override s of Some l \<Rightarrow> l | None \<Rightarrow> di_ident ast)
           in case collect_trace_fields ast of
             Err e \<Rightarrow> Err e
           | Ok trace_fields \<Rightarrow>
               (let validates = (kind = CommandKind \<and> (has_validate s \<or> has_garde_fields ast))
                in case kind of
                  CommandKind \<Rightarrow> Ok \<lparr>im_trait = trait_path kind app, im_type = di_ident ast, im_name = name_lit, im_result = None,
                    im_internal = is_internal s, im_trace = trace_fields, im_validate = validates\<rparr>
                | QueryKind \<Rightarrow> (case result_ty s of
                      None \<Rightarrow> Err ''#[derive(Query)] requires the read model type: `#[query(result = Type)]`''
                    | Some ty \<Rightarrow> Ok \<lparr>im_trait = trait_path kind app, im_type = di_ident ast, im_name = name_lit, im_result = Some ty,
                        im_internal = False, im_trace = trace_fields, im_validate = False\<rparr>))))"

definition derive_command :: "crate_names \<Rightarrow> DeriveInput \<Rightarrow> string + DispatchImpl" where
  "derive_command cn ast = expand_dispatchable cn ast CommandKind"

definition derive_query :: "crate_names \<Rightarrow> DeriveInput \<Rightarrow> string + DispatchImpl" where
  "derive_query cn ast = expand_dispatchable cn ast QueryKind"

text \<open>
  The generated implementation at run time. \<open>garde\<close> is the validation that the user's type derives:
  its report is a list of paths and messages.
\<close>

definition generated_validate_input :: "('c \<Rightarrow> (string \<times> string) list + unit) \<Rightarrow> 'c \<Rightarrow> ValidationError + unit" where
  "generated_validate_input garde c = (case garde c of
       Ok _ \<Rightarrow> Ok ()
     | Err report \<Rightarrow> Err (ValidationError_new (map (\<lambda>(p, e). \<lparr>fv_path = p, fv_message = e\<rparr>) report)))"

definition generated_command :: "DispatchImpl \<Rightarrow> ('c \<Rightarrow> (string \<times> string) list + unit) \<Rightarrow> 'c Command" where
  "generated_command i garde =
     \<lparr>command_NAME = im_name i, INTERNAL_ONLY = im_internal i,
      validate_input = (if im_validate i then generated_validate_input garde else default_validate_input)\<rparr>"

text \<open>The fields of the span of a dispatch; \<open>render\<close> records one field of the value in a mode.\<close>

definition generated_trace_span :: "Dispatchable \<Rightarrow> DispatchImpl \<Rightarrow> (TraceMode \<Rightarrow> string \<Rightarrow> string) \<Rightarrow> string \<times> (string \<times> string) list" where
  "generated_trace_span kind i render =
     (fst (kind_span kind),
      (snd (kind_span kind), im_name i) # map (\<lambda>f. (tf_key f, render (tf_mode f) (tf_access f))) (im_trace i))"

section \<open>Attribute macros and identifiers\<close>

definition serde_skip :: Attribute where
  "serde_skip = \<lparr>at_path = ''serde'', at_bare = False,
     at_nested = [\<lparr>nm_path = ''skip_deserializing'', nm_str = Err [], nm_u32 = Err [], nm_type = Err [], nm_unread = None\<rparr>,
       \<lparr>nm_path = ''default'', nm_str = Err [], nm_u32 = Err [], nm_type = Err [], nm_unread = None\<rparr>],
     at_syntax = None\<rparr>"

definition external_field :: "Field \<Rightarrow> Field" where
  "external_field f =
     (if \<not> has_attr ''external'' f then f
      else f\<lparr>fd_attrs := filter (\<lambda>a. at_path a \<noteq> ''external'') (fd_attrs f) @ [serde_skip]\<rparr>)"

definition external_fields :: "DeriveInput \<Rightarrow> string + DeriveInput" where
  "external_fields ast = (case di_data ast of
       StructData (NamedFields fs) \<Rightarrow> Ok (ast\<lparr>di_data := StructData (NamedFields (map external_field fs))\<rparr>)
     | StructData _ \<Rightarrow> Err ''#[external_fields] requires named fields''
     | _ \<Rightarrow> Err ''#[external_fields] only supports structs'')"

text \<open>
  The arguments of \<open>requires_roles\<close>: \<open>parse_expr\<close> is the expression parser of \<open>syn\<close>. What remains after
  the arguments is an error of \<open>parse_macro_input\<close>.
\<close>

datatype Token = IdentToken string | CommaToken | EqToken | OtherToken string

definition parse_roles_args :: "(Token list \<Rightarrow> string + 'r \<times> Token list) \<Rightarrow> Token list \<Rightarrow> string + 'r \<times> string" where
  "parse_roles_args parse_expr toks = (case parse_expr toks of
       Err e \<Rightarrow> Err e
     | Ok (roles, CommaToken # rest) \<Rightarrow> (case rest of
           IdentToken kw # rest' \<Rightarrow>
             if kw \<noteq> ''principal'' then Err ''expected `principal = <parameter name>`''
             else (case rest' of
                 [EqToken, IdentToken p] \<Rightarrow> Ok (roles, p)
               | EqToken # IdentToken p # _ \<Rightarrow> Err ''unexpected token''
               | EqToken # _ \<Rightarrow> Err ''expected identifier''
               | _ \<Rightarrow> Err ''expected `=`'')
         | _ \<Rightarrow> Err ''expected identifier'')
     | Ok (roles, _) \<Rightarrow> Err ''expected `,`'')"

datatype FnArg = Receiver | TypedIdent string | TypedPattern

datatype ('r, 's) Stmt = AuthorizeStmt string string 'r | UserStmt 's

record ('r, 's) ItemFn =
  fn_inputs :: "FnArg list"
  fn_stmts :: "('r, 's) Stmt list"

definition requires_roles ::
    "crate_names \<Rightarrow> (Token list \<Rightarrow> string + 'r \<times> Token list) \<Rightarrow> Token list \<Rightarrow> ('r, 's) ItemFn \<Rightarrow> string + ('r, 's) ItemFn" where
  "requires_roles cn parse_expr attr func = (case parse_roles_args parse_expr attr of
       Err e \<Rightarrow> Err e
     | Ok (roles, param) \<Rightarrow>
         if \<not> list_ex (\<lambda>a. a = TypedIdent param) (fn_inputs func)
         then Err (''#[requires_roles(...)] expects a parameter named `'' @ param @ ''` (set via `principal = '' @ param @
           ''`), but no such parameter was found'')
         else Ok (func\<lparr>fn_stmts := AuthorizeStmt (path_app (pharos_paths cn)) param roles # fn_stmts func\<rparr>))"

text \<open>A run of a function body: every statement may fail with \<open>?\<close>; \<open>auth\<close> is the \<open>Authorize\<close> implementation of the parameter.\<close>

fun run_body :: "(string \<Rightarrow> 'r \<Rightarrow> 'e + unit) \<Rightarrow> ('s \<Rightarrow> ('w, 'e, unit) op) \<Rightarrow> ('r, 's) Stmt list \<Rightarrow> ('w, 'e, unit) op" where
  "run_body auth exec [] w = (Ok (), w)"
| "run_body auth exec (AuthorizeStmt app p roles # ss) w =
     (case auth p roles of Err e \<Rightarrow> (Err e, w) | Ok _ \<Rightarrow> run_body auth exec ss w)"
| "run_body auth exec (UserStmt s # ss) w =
     (case exec s w of (Err e, w') \<Rightarrow> (Err e, w') | (Ok _, w') \<Rightarrow> run_body auth exec ss w')"

text \<open>The wrapper that \<open>id_type!\<close> generates; rendering and parsing of a \<open>Uuid\<close> are those of its crate.\<close>

datatype TypedId = TypedId uuid

definition id_new_v7 :: "'w Env \<Rightarrow> 'w \<Rightarrow> TypedId \<times> 'w" where
  "id_new_v7 E w = (let (u, w') = now_v7 E w in (TypedId u, w'))"

definition id_new :: "'w Env \<Rightarrow> 'w \<Rightarrow> TypedId \<times> 'w" where
  "id_new E w = id_new_v7 E w"

definition id_from_uuid :: "uuid \<Rightarrow> TypedId" where
  "id_from_uuid u = TypedId u"

definition id_as_uuid :: "TypedId \<Rightarrow> uuid" where
  "id_as_uuid i = (case i of TypedId u \<Rightarrow> u)"

definition id_to_string :: "(uuid \<Rightarrow> string) \<Rightarrow> TypedId \<Rightarrow> string" where
  "id_to_string show_uuid i = show_uuid (id_as_uuid i)"

definition id_from_str :: "(string \<Rightarrow> string + uuid) \<Rightarrow> string \<Rightarrow> string + TypedId" where
  "id_from_str parse_str s = map_sum id TypedId (parse_str s)"

section \<open>Reading options\<close>

text \<open>
  The closures passed to \<open>parse_nested_meta\<close> read one option after the other into the captured
  variables: when all are accepted, the outcome is the fold of a total reading function \<open>g\<close>.
\<close>

locale option_closure =
  fixes f :: "'s \<Rightarrow> NestedMeta \<Rightarrow> string + 's" and g :: "'s \<Rightarrow> NestedMeta \<Rightarrow> 's"
  assumes reads: "f s m = Ok s' \<Longrightarrow> s' = g s m"
begin

lemma parsed: "parse_nested_meta f s ms e = Ok s' \<Longrightarrow> s' = foldl g s ms"
  by (induction ms arbitrary: s) (auto dest: reads split: sum.splits option.splits)

end

definition options_of :: "string \<Rightarrow> Attribute list \<Rightarrow> NestedMeta list" where
  "options_of n attrs = concat (map at_nested (filter (\<lambda>a. at_path a = n) attrs))"

locale option_loop = option_closure +
  fixes n :: string and loop :: "'a \<Rightarrow> Attribute list \<Rightarrow> string + 'a"
  assumes loop_Nil: "loop s [] = Ok s"
    and loop_Cons: "loop s (a # as) = (if at_path a \<noteq> n then loop s as
      else (case parse_nested_meta f s (at_nested a) (at_syntax a) of Err e \<Rightarrow> Err e | Ok s' \<Rightarrow> loop s' as))"
begin

lemma loop_parsed: "loop s as = Ok s' \<Longrightarrow> s' = foldl g s (options_of n as)"
proof (induction as arbitrary: s)
  case (Cons a as)
  then show ?case
    by (auto simp: loop_Cons options_of_def dest!: parsed split: if_splits sum.splits)
qed (simp add: loop_Nil options_of_def)

end

definition read_event :: "string \<times> nat \<Rightarrow> NestedMeta \<Rightarrow> string \<times> nat" where
  "read_event s m = (if nm_path m = ''name'' then (projr (nm_str m), snd s) else (fst s, projr (nm_u32 m)))"

definition read_dispatch :: "Dispatchable \<Rightarrow> DispatchOptions \<Rightarrow> NestedMeta \<Rightarrow> DispatchOptions" where
  "read_dispatch kind s m =
     (if nm_path m = ''name'' then s\<lparr>name_override := Some (projr (nm_str m))\<rparr>
      else if nm_path m = ''result'' then s\<lparr>result_ty := Some (projr (nm_type m))\<rparr>
      else if nm_path m = ''validate'' then s\<lparr>has_validate := True\<rparr>
      else if nm_path m = ''internal'' then s\<lparr>is_internal := True\<rparr> else s)"

definition read_trace :: "TraceMode \<times> string option \<Rightarrow> NestedMeta \<Rightarrow> TraceMode \<times> string option" where
  "read_trace s m =
     (if nm_path m = ''skip'' then (TraceSkip, snd s) else if nm_path m = ''value'' then (TraceValue, snd s)
      else if nm_path m = ''display'' then (TraceDisplay, snd s) else if nm_path m = ''debug'' then (TraceDebug, snd s)
      else (fst s, Some (projr (nm_str m))))"

lemma map_sum_Ok: "map_sum id h r = Ok y \<longleftrightarrow> (\<exists>x. r = Ok x \<and> y = h x)"
  by (cases r) auto

lemma take_flag_Ok: "take_flag m s = Ok s' \<longleftrightarrow> nm_unread m = None \<and> s' = s"
  by (auto simp: take_flag_def split: option.splits)

interpretation event_loop: option_loop event_option read_event "''event''" event_options
  by unfold_locales (auto simp: event_option_def read_event_def map_sum_Ok split: if_splits)

interpretation dispatch_loop: option_loop "dispatch_option kind" "read_dispatch kind" "kind_attr kind" "dispatch_options kind"
  for kind
  by unfold_locales (auto simp: dispatch_option_def read_dispatch_def map_sum_Ok take_flag_Ok split: if_splits)

interpretation trace_closure: option_closure trace_option read_trace
  by unfold_locales (auto simp: trace_option_def read_trace_def map_sum_Ok take_flag_Ok split: if_splits)

section \<open>Derived commands\<close>

lemma internal_read:
  "is_internal (foldl (read_dispatch CommandKind) s ms) \<longleftrightarrow>
     is_internal s \<or> list_ex (\<lambda>m. nm_path m = ''internal'') ms"
  by (induction ms arbitrary: s) (auto simp: read_dispatch_def)

lemma validate_read:
  "has_validate (foldl (read_dispatch CommandKind) s ms) \<longleftrightarrow>
     has_validate s \<or> list_ex (\<lambda>m. nm_path m = ''validate'') ms"
  by (induction ms arbitrary: s) (auto simp: read_dispatch_def)

definition says_internal :: "DeriveInput \<Rightarrow> bool" where
  "says_internal ast \<longleftrightarrow> list_ex (\<lambda>m. nm_path m = ''internal'') (options_of ''command'' (di_attrs ast))"

definition says_validate :: "DeriveInput \<Rightarrow> bool" where
  "says_validate ast \<longleftrightarrow> list_ex (\<lambda>m. nm_path m = ''validate'') (options_of ''command'' (di_attrs ast))"

lemma derive_command_spec:
  assumes "derive_command cn ast = Ok i"
  shows "collect_trace_fields ast = Ok (im_trace i) \<and> im_validate i = (says_validate ast \<or> has_garde_fields ast)
    \<and> im_internal i = says_internal ast"
proof -
  let ?s = "\<lparr>name_override = None, result_ty = None, has_validate = False, is_internal = False\<rparr>"
  obtain s trace where s: "dispatch_options CommandKind ?s (di_attrs ast) = Ok s" and t: "collect_trace_fields ast = Ok trace"
    using assms by (auto simp: derive_command_def expand_dispatchable_def Let_def split: sum.splits)
  have "s = foldl (read_dispatch CommandKind) ?s (options_of ''command'' (di_attrs ast))"
    using dispatch_loop.loop_parsed [OF s] by simp
  then have "has_validate s = says_validate ast" "is_internal s = says_internal ast"
    by (auto simp: validate_read internal_read says_validate_def says_internal_def list_ex_iff)
  then show ?thesis
    using assms s t by (auto simp: derive_command_def expand_dispatchable_def Let_def)
qed

text \<open>
  A field, named or positional, has a validation rule: an option other than \<open>skip\<close> in a
  \<open>#[garde(..)]\<close>, with no option that takes a value before it.
\<close>

definition declares_rule :: "DeriveInput \<Rightarrow> bool" where
  "declares_rule ast \<longleftrightarrow> (\<exists>fs f a ms m ms'. di_data ast \<in> {StructData (NamedFields fs), StructData (UnnamedFields fs)}
     \<and> f \<in> set fs \<and> a \<in> set (fd_attrs f) \<and> at_path a = ''garde'' \<and> at_nested a = ms @ m # ms'
     \<and> nm_path m \<noteq> ''skip'' \<and> list_all (\<lambda>x. nm_unread x = None) ms)"

lemma has_rule_app: "list_all (\<lambda>x. nm_unread x = None) ms \<Longrightarrow> nm_path m \<noteq> ''skip'' \<Longrightarrow> has_rule (ms @ m # ms')"
  by (induction ms) auto

lemma declares_rule_found:
  assumes "declares_rule ast"
  shows "has_garde_fields ast"
proof -
  obtain fs f a ms m ms' where d: "di_data ast \<in> {StructData (NamedFields fs), StructData (UnnamedFields fs)}"
    and f: "f \<in> set fs" and a: "a \<in> set (fd_attrs f)" "at_path a = ''garde''"
    and m: "at_nested a = ms @ m # ms'" "nm_path m \<noteq> ''skip''" "list_all (\<lambda>x. nm_unread x = None) ms"
    using assms unfolding declares_rule_def by blast
  have "has_rule (at_nested a)" using has_rule_app [OF m(3,2)] m(1) by simp
  with a have "list_ex (\<lambda>a. has_rule (at_nested a)) (filter (\<lambda>a. at_path a = ''garde'') (fd_attrs f))"
    unfolding list_ex_iff by (intro bexI [of _ a]) simp_all
  with f have "list_ex (\<lambda>f. list_ex (\<lambda>a. has_rule (at_nested a)) (filter (\<lambda>a. at_path a = ''garde'') (fd_attrs f))) fs"
    unfolding list_ex_iff [of _ fs] by (intro bexI [of _ f])
  with d show ?thesis by (auto simp: has_garde_fields_def struct_fields_def)
qed

text \<open>
  C36: A derived command keeps its declared guards. With \<open>#[command(internal)]\<close> the HTTP entry point
  answers 404 and the handler does not run. With a validation rule on any field, named or
  positional, or with \<open>#[command(validate)]\<close>, every dispatch first runs the validation: a rejected
  command is answered with one violation per entry of the report and does not reach the handler, an
  accepted one is handled.
\<close>

theorem derived_command_guarded:
  assumes "derive_command cn ast = Ok i"
  shows "(says_internal ast \<longrightarrow> run_command (generated_command i garde) handle c w =
        (Err \<lparr>he_status = 404, he_message = ''command is internal-only and cannot be invoked over HTTP''\<rparr>, w))
    \<and> (says_validate ast \<or> declares_rule ast \<longrightarrow> command_dispatch (generated_command i garde) handle c w = (case garde c of
        Err report \<Rightarrow> (Err (DispatchValidation (ValidationError_new (map (\<lambda>(p, e). \<lparr>fv_path = p, fv_message = e\<rparr>) report))), w)
      | Ok _ \<Rightarrow> map_prod (map_sum DispatchHandler id) id (handle c w)))"
  using derive_command_spec [OF assms] declares_rule_found [of ast]
  by (cases "handle c w"; cases "fst (handle c w)"; cases "garde c")
    (auto simp: generated_command_def run_command_def internal_command_def HandlerError_new_def command_dispatch_def
      generated_validate_input_def)

text \<open>
  An enum is accepted by the derive although its fields are not looked at: rules on the fields of its
  variants are never run, and the span records no field.
\<close>

theorem enum_command_unguarded:
  assumes "derive_command cn ast = Ok i" "di_data ast = EnumData vs" "\<not> says_validate ast"
  shows "validate_input (generated_command i garde) c = Ok () \<and> im_trace i = []"
  using derive_command_spec [OF assms(1)] assms(2,3)
  by (simp add: has_garde_fields_def struct_fields_def collect_trace_fields_def generated_command_def
      default_validate_input_def)

section \<open>Derived spans\<close>

definition mode_names :: "string list" where
  "mode_names = [''skip'', ''value'', ''display'', ''debug'']"

text \<open>A field opts out when the last mode its first \<open>#[trace(..)]\<close> names is \<open>skip\<close>.\<close>

definition opts_out :: "Field \<Rightarrow> bool" where
  "opts_out f \<longleftrightarrow> (case find (\<lambda>a. at_path a = ''trace'') (fd_attrs f) of
       None \<Rightarrow> False
     | Some a \<Rightarrow> \<not> at_bare a \<and> last (''debug'' # filter (\<lambda>p. p \<in> set mode_names) (map nm_path (at_nested a))) = ''skip'')"

lemma read_trace_mode:
  "fst (foldl read_trace s ms) = TraceSkip \<longleftrightarrow>
     (let ps = filter (\<lambda>p. p \<in> set mode_names) (map nm_path ms)
      in if ps = [] then fst s = TraceSkip else last ps = ''skip'')"
  by (induction ms arbitrary: s) (auto simp: read_trace_def mode_names_def Let_def)

lemma trace_settings_skip:
  assumes "trace_settings f = Ok (mode, rename)"
  shows "mode = TraceSkip \<longleftrightarrow> opts_out f"
proof (cases "find (\<lambda>a. at_path a = ''trace'') (fd_attrs f)")
  case None
  then show ?thesis using assms by (auto simp: trace_settings_def opts_out_def)
next
  case (Some a)
  show ?thesis
  proof (cases "at_bare a")
    case True
    then show ?thesis using assms Some by (auto simp: trace_settings_def opts_out_def)
  next
    case False
    then have "parse_nested_meta trace_option (TraceDebug, None) (at_nested a) (at_syntax a) = Ok (mode, rename)"
      using assms Some by (simp add: trace_settings_def)
    then have "mode = fst (foldl read_trace (TraceDebug, None) (at_nested a))"
      by (metis trace_closure.parsed fst_conv)
    then show ?thesis
      using Some False by (auto simp: read_trace_mode opts_out_def Let_def)
  qed
qed

lemma trace_loop_spec:
  assumes "trace_loop k fs = Ok ts"
  shows "map tf_access ts = map (\<lambda>(j, f). trace_access j f) (filter (\<lambda>(j, f). \<not> opts_out f) (enumerate k fs))
    \<and> list_all (\<lambda>t. tf_mode t \<noteq> TraceSkip) ts"
  using assms
proof (induction fs arbitrary: k ts)
  case (Cons f fs)
  then show ?case
    by (cases "trace_settings f")
      (auto simp: Let_def map_sum_Ok dest: trace_settings_skip split: if_splits)
qed simp

text \<open>
  The span of a derived command records the command's name and then its fields in the order of
  their declaration, each once: all of them except those that opt out with \<open>#[trace(skip)]\<close>.
\<close>

theorem span_records_fields:
  assumes "derive_command cn ast = Ok i" and "struct_fields ast = Some fs"
  shows "map tf_access (im_trace i) = map (\<lambda>(j, f). trace_access j f) (filter (\<lambda>(j, f). \<not> opts_out f) (enumerate 0 fs))
    \<and> snd (generated_trace_span CommandKind i render)
        = (''command'', im_name i) # map (\<lambda>t. (tf_key t, render (tf_mode t) (tf_access t))) (im_trace i)"
proof -
  have "trace_loop 0 fs = Ok (im_trace i)"
    using derive_command_spec [OF assms(1)] assms(2) by (simp add: collect_trace_fields_def)
  from trace_loop_spec [OF this] show ?thesis by (simp add: generated_trace_span_def)
qed

definition bare_meta :: "string \<Rightarrow> NestedMeta" where
  "bare_meta p = \<lparr>nm_path = p, nm_str = Err [], nm_u32 = Err [], nm_type = Err [], nm_unread = None\<rparr>"

definition plain_attr :: "string \<Rightarrow> NestedMeta list \<Rightarrow> Attribute" where
  "plain_attr p ms = \<lparr>at_path = p, at_bare = (ms = []), at_nested = ms, at_syntax = None\<rparr>"

definition plain_field :: "string \<Rightarrow> Attribute list \<Rightarrow> Field" where
  "plain_field n attrs = \<lparr>fd_ident = Some n, fd_type = TypeOther ''String'', fd_attrs = attrs\<rparr>"

definition sample_command :: DeriveInput where
  "sample_command = \<lparr>di_ident = ''AddItem'', di_attrs = [plain_attr ''command'' [bare_meta ''internal'']],
     di_data = StructData (NamedFields [
       plain_field ''order_id'' [], plain_field ''xml'' [plain_attr ''trace'' [bare_meta ''skip'']],
       plain_field ''quantity'' [plain_attr ''garde'' [bare_meta ''required'']]])\<rparr>"

lemmas sample_command_defs = sample_command_def plain_field_def plain_attr_def bare_meta_def derive_command_def
  expand_dispatchable_def dispatch_option_def take_flag_def collect_trace_fields_def struct_fields_def trace_settings_def
  trace_option_def trace_access_def trace_default_key_def has_garde_fields_def says_internal_def says_validate_def
  options_of_def Let_def

lemma sample_command_derived:
  "derive_command (\<lambda>_. None) sample_command = Ok \<lparr>im_trait = ''::pharos_app::Command'', im_type = ''AddItem'', im_name = ''AddItem'',
     im_result = None, im_internal = True,
     im_trace = [\<lparr>tf_key = ''order_id'', tf_mode = TraceDebug, tf_access = ''order_id''\<rparr>,
       \<lparr>tf_key = ''quantity'', tf_mode = TraceDebug, tf_access = ''quantity''\<rparr>],
     im_validate = True\<rparr>"
  by (simp add: sample_command_defs pharos_paths_def resolve_path_def direct_path_def facade_path_def)

theorem derived_command_guarded_witness:
  "command_dispatch (generated_command (projr (derive_command (\<lambda>_. None) sample_command)) (\<lambda>_. Err [(''quantity'', ''required'')]))
     (\<lambda>c w. (Ok (), Suc w)) () 0
     = ((Err (DispatchValidation \<lparr>ve_violations = [\<lparr>fv_path = ''quantity'', fv_message = ''required''\<rparr>]\<rparr>) :: string DispatchError + unit), 0)"
proof -
  have "declares_rule sample_command"
    unfolding declares_rule_def
    by (intro exI [of _ "[plain_field ''order_id'' [], plain_field ''xml'' [plain_attr ''trace'' [bare_meta ''skip'']],
          plain_field ''quantity'' [plain_attr ''garde'' [bare_meta ''required'']]]"]
        exI [of _ "plain_field ''quantity'' [plain_attr ''garde'' [bare_meta ''required'']]"]
        exI [of _ "plain_attr ''garde'' [bare_meta ''required'']"] exI [of _ "[]"] exI [of _ "bare_meta ''required''"])
      (simp add: sample_command_def plain_field_def plain_attr_def bare_meta_def)
  then show ?thesis
    using derived_command_guarded [OF sample_command_derived, of "\<lambda>_. Err [(''quantity'', ''required'')]"
        "\<lambda>c w. (Ok () :: string + unit, Suc w)" "()" 0]
    by (simp add: sample_command_derived ValidationError_new_def)
qed

theorem span_records_fields_witness:
  "map tf_access (im_trace (projr (derive_command (\<lambda>_. None) sample_command))) = [''order_id'', ''quantity'']"
proof -
  have "struct_fields sample_command = Some [plain_field ''order_id'' [], plain_field ''xml'' [plain_attr ''trace'' [bare_meta ''skip'']],
       plain_field ''quantity'' [plain_attr ''garde'' [bare_meta ''required'']]]"
    by (simp add: sample_command_def struct_fields_def)
  from span_records_fields [OF sample_command_derived this] show ?thesis
    by (simp add: sample_command_derived opts_out_def mode_names_def plain_field_def plain_attr_def bare_meta_def trace_access_def)
qed

text \<open>Only the first \<open>#[trace]\<close> of a field is read: an opt-out in a second one is ignored and the field is recorded.\<close>

theorem second_trace_ignored:
  "trace_loop 0 [plain_field ''cpf'' [plain_attr ''trace'' [bare_meta ''debug''], plain_attr ''trace'' [bare_meta ''skip'']]]
     = Ok [\<lparr>tf_key = ''cpf'', tf_mode = TraceDebug, tf_access = ''cpf''\<rparr>]"
  by (simp add: sample_command_defs)

section \<open>Derived events\<close>

definition pinned_names :: "Variant \<Rightarrow> string list" where
  "pinned_names v = map (\<lambda>m. projr (nm_str m)) (filter (\<lambda>m. nm_path m = ''name'') (options_of ''event'' (va_attrs v)))"

definition pinned_versions :: "Variant \<Rightarrow> nat list" where
  "pinned_versions v = map (\<lambda>m. projr (nm_u32 m)) (filter (\<lambda>m. nm_path m \<noteq> ''name'') (options_of ''event'' (va_attrs v)))"

lemma read_event_last:
  "foldl read_event s ms =
     (last (fst s # map (\<lambda>m. projr (nm_str m)) (filter (\<lambda>m. nm_path m = ''name'') ms)),
      last (snd s # map (\<lambda>m. projr (nm_u32 m)) (filter (\<lambda>m. nm_path m \<noteq> ''name'') ms)))"
  by (induction ms arbitrary: s) (auto simp: read_event_def)

definition carries :: "Field list \<Rightarrow> string \<Rightarrow> string \<Rightarrow> bool" where
  "carries fs a n \<longleftrightarrow> list_ex (\<lambda>f. has_attr a f \<and> fd_ident f = Some n) fs"

lemma field_with_attr_carries:
  assumes "field_with_attr fs a = Some n"
  shows "carries fs a n"
proof -
  have "n \<in> set (List.map_filter fd_ident (filter (has_attr a) fs))"
    using assms by (auto simp: field_with_attr_def split: list.splits)
  then show ?thesis by (auto simp: carries_def list_ex_iff map_filter_def)
qed

lemma event_arm_spec:
  assumes "event_arm v = Ok a"
  shows "arm_variant a = va_ident v \<and> arm_name a = last (va_ident v # pinned_names v)
    \<and> arm_schema_version a = last (0 # pinned_versions v)
    \<and> (\<exists>fs. va_fields v = NamedFields fs \<and> carries fs ''occurred_at'' (arm_at a) \<and> carries fs ''aggregate_id'' (arm_id a))"
proof -
  obtain n sv where o: "event_options (va_ident v, 0) (va_attrs v) = Ok (n, sv)"
    using assms by (auto simp: event_arm_def split: sum.splits)
  have "(n, sv) = (last (va_ident v # pinned_names v), last (0 # pinned_versions v))"
    using event_loop.loop_parsed [OF o] by (simp only: read_event_last pinned_names_def pinned_versions_def fst_conv snd_conv)
  then show ?thesis
    using assms o by (auto simp: event_arm_def field_with_attr_carries split: Fields.splits option.splits)
qed

lemma event_arms_spec: "event_arms vs = Ok as \<Longrightarrow> list_all2 (\<lambda>v a. event_arm v = Ok a) vs as"
  by (induction vs arbitrary: as) (auto simp: map_sum_Ok split: sum.splits)

lemma arm_found:
  assumes "list_all2 (\<lambda>v a. event_arm v = Ok a) vs as" "distinct (map va_ident vs)" "v \<in> set vs"
  shows "\<exists>a. find (\<lambda>a. arm_variant a = va_ident v) as = Some a \<and> event_arm v = Ok a"
  using assms
proof (induction rule: list_all2_induct)
  case (Cons u us a as)
  then show ?case using event_arm_spec [OF Cons.hyps(1)] by (cases "v = u") force+
qed simp

text \<open>
  C32: The derived identity of an event: for a value of any variant, the event type is the last name
  pinned with \<open>#[event(name = ..)]\<close> and the name of the variant if none is pinned, the schema version is the
  last one given and 0 otherwise, and the time and the aggregate identifier are fields of the variant
  that carry the two markers.
\<close>

theorem derived_event_identity:
  assumes "derive_domain_event cn ast = Ok i" and "di_data ast = EnumData vs" and "distinct (map va_ident vs)"
    and "v \<in> set vs" and "evv_variant x = va_ident v"
  shows "generated_event_type i x = Some (last (va_ident v # pinned_names v))
    \<and> generated_schema_version i x = Some (last (0 # pinned_versions v))
    \<and> (\<exists>fs at_field id_field. va_fields v = NamedFields fs
        \<and> carries fs ''occurred_at'' at_field \<and> generated_occurred_at i x = Some (evv_field x at_field)
        \<and> carries fs ''aggregate_id'' id_field \<and> generated_aggregate_id i x = Some (evv_field x id_field))"
proof -
  have "event_arms vs = Ok (dei_arms i)"
    using assms(1,2) by (auto simp: derive_domain_event_def map_sum_Ok)
  from arm_found [OF event_arms_spec [OF this] assms(3,4)] obtain a
    where "arm_of i x = Some a" and a: "event_arm v = Ok a" by (auto simp: arm_of_def assms(5))
  then show ?thesis
    using event_arm_spec [OF a]
    by (auto simp: generated_event_type_def generated_schema_version_def generated_occurred_at_def generated_aggregate_id_def)
qed

definition sample_placed :: Variant where
  "sample_placed = \<lparr>va_ident = ''Placed'', va_attrs = [plain_attr ''event'' [(bare_meta ''name'')\<lparr>nm_str := Ok ''OrderPlaced''\<rparr>,
      (bare_meta ''schema_version'')\<lparr>nm_u32 := Ok 1\<rparr>]],
     va_fields = NamedFields [plain_field ''order_id'' [plain_attr ''aggregate_id'' []], plain_field ''when'' [plain_attr ''occurred_at'' []]]\<rparr>"

definition sample_paid :: Variant where
  "sample_paid = \<lparr>va_ident = ''Paid'', va_attrs = [],
     va_fields = NamedFields [plain_field ''when'' [plain_attr ''occurred_at'' []], plain_field ''order_id'' [plain_attr ''aggregate_id'' []]]\<rparr>"

definition sample_event :: DeriveInput where
  "sample_event = \<lparr>di_ident = ''OrderEvent'', di_attrs = [], di_data = EnumData [sample_placed, sample_paid]\<rparr>"

lemma sample_event_derived:
  "derive_domain_event (\<lambda>_. None) sample_event = Ok \<lparr>dei_core = ''::pharos_core'', dei_arms = [
     \<lparr>arm_variant = ''Placed'', arm_name = ''OrderPlaced'', arm_schema_version = 1, arm_at = ''when'', arm_id = ''order_id''\<rparr>,
     \<lparr>arm_variant = ''Paid'', arm_name = ''Paid'', arm_schema_version = 0, arm_at = ''when'', arm_id = ''order_id''\<rparr>]\<rparr>"
  by (simp add: sample_event_def sample_placed_def sample_paid_def derive_domain_event_def event_arm_def event_option_def field_with_attr_def has_attr_def
      plain_attr_def bare_meta_def plain_field_def map_filter_def pharos_paths_def resolve_path_def direct_path_def facade_path_def)

theorem derived_event_identity_witness:
  "generated_event_type (projr (derive_domain_event (\<lambda>_. None) sample_event)) \<lparr>evv_variant = ''Placed'', evv_field = id\<rparr> = Some ''OrderPlaced''"
proof -
  have vs: "di_data sample_event = EnumData [sample_placed, sample_paid]" by (simp add: sample_event_def)
  have "distinct (map va_ident [sample_placed, sample_paid])" "va_ident sample_placed = ''Placed''"
    by (simp_all add: sample_placed_def sample_paid_def)
  moreover have "pinned_names sample_placed = [''OrderPlaced'']"
    by (simp add: pinned_names_def options_of_def sample_placed_def plain_attr_def bare_meta_def)
  ultimately show ?thesis
    using derived_event_identity [OF sample_event_derived vs, of sample_placed "\<lparr>evv_variant = ''Placed'', evv_field = id\<rparr>"]
    by (simp add: sample_event_derived)
qed

section \<open>Attribute macros\<close>

text \<open>
  A function annotated with \<open>requires_roles\<close> checks the caller first: the expansion only succeeds
  when the named parameter exists, and then a refused caller gets the error of the check and no
  statement of the function has run, while for an accepted caller the function runs as written.
\<close>

theorem requires_roles_checks_first:
  assumes "requires_roles cn parse_expr attr func = Ok func'"
  shows "\<exists>roles p. parse_roles_args parse_expr attr = Ok (roles, p) \<and> TypedIdent p \<in> set (fn_inputs func)
    \<and> fn_inputs func' = fn_inputs func
    \<and> run_body auth exec (fn_stmts func') w = (case auth p roles of
        Err e \<Rightarrow> (Err e, w) | Ok _ \<Rightarrow> run_body auth exec (fn_stmts func) w)"
proof -
  obtain roles p where "parse_roles_args parse_expr attr = Ok (roles, p)" "TypedIdent p \<in> set (fn_inputs func)"
    and "func' = func\<lparr>fn_stmts := AuthorizeStmt (path_app (pharos_paths cn)) p roles # fn_stmts func\<rparr>"
    using assms by (auto simp: requires_roles_def list_ex_iff split: sum.splits if_splits)
  then show ?thesis by (intro exI [of _ roles] exI [of _ p]) simp
qed

definition sample_route :: "(string, unit) ItemFn" where
  "sample_route = \<lparr>fn_inputs = [TypedPattern, TypedIdent ''user''], fn_stmts = [UserStmt ()]\<rparr>"

definition parse_one :: "Token list \<Rightarrow> string + string \<times> Token list" where
  "parse_one toks = (case toks of IdentToken r # rest \<Rightarrow> Ok (r, rest) | _ \<Rightarrow> Err ''expected expression'')"

theorem requires_roles_checks_first_witness:
  "\<exists>func'. requires_roles (\<lambda>_. None) parse_one [IdentToken ''Admin'', CommaToken, IdentToken ''principal'', EqToken, IdentToken ''user''] sample_route = Ok func'
     \<and> run_body (\<lambda>p roles. Err ''forbidden'') (\<lambda>_ w. (Ok (), Suc w)) (fn_stmts func') 0 = (Err ''forbidden'', 0)"
proof -
  let ?attr = "[IdentToken ''Admin'', CommaToken, IdentToken ''principal'', EqToken, IdentToken ''user'']"
  obtain func' where f: "requires_roles (\<lambda>_. None) parse_one ?attr sample_route = Ok func'"
    by (simp add: requires_roles_def parse_roles_args_def parse_one_def sample_route_def)
  with requires_roles_checks_first [OF f, of "\<lambda>p roles. Err ''forbidden''" "\<lambda>_ w. (Ok (), Suc w)" 0] show ?thesis by auto
qed

text \<open>
  The expansion of \<open>external_fields\<close>: no marker is left, a marked field is not read from the body,
  everything else stays, and a second expansion changes nothing.
\<close>

theorem external_fields_expansion:
  assumes "external_fields ast = Ok ast'"
  shows "\<exists>fs fs'. di_data ast = StructData (NamedFields fs) \<and> di_data ast' = StructData (NamedFields fs')
    \<and> map fd_ident fs' = map fd_ident fs \<and> map fd_type fs' = map fd_type fs
    \<and> list_all2 (\<lambda>f f'. \<not> has_attr ''external'' f' \<and> (if has_attr ''external'' f
        then fd_attrs f' = filter (\<lambda>a. at_path a \<noteq> ''external'') (fd_attrs f) @ [serde_skip] else f' = f)) fs fs'
    \<and> external_fields ast' = Ok ast'"
proof -
  obtain fs where fs: "di_data ast = StructData (NamedFields fs)" and ast': "ast' = ast\<lparr>di_data := StructData (NamedFields (map external_field fs))\<rparr>"
    using assms by (auto simp: external_fields_def split: Data.splits Fields.splits)
  have e: "\<not> has_attr ''external'' (external_field f)" "fd_ident (external_field f) = fd_ident f" "fd_type (external_field f) = fd_type f" for f
    by (auto simp: external_field_def has_attr_def list_ex_iff serde_skip_def)
  then have "external_field (external_field f) = external_field f" for f by (simp add: external_field_def [of "external_field f"])
  then have "external_fields ast' = Ok ast'" by (simp add: external_fields_def ast')
  moreover have "list_all2 (\<lambda>f f'. \<not> has_attr ''external'' f' \<and> (if has_attr ''external'' f
      then fd_attrs f' = filter (\<lambda>a. at_path a \<noteq> ''external'') (fd_attrs f) @ [serde_skip] else f' = f)) fs (map external_field fs)"
    using e by (auto simp: list_all2_conv_all_nth external_field_def)
  ultimately show ?thesis using fs ast' e by (intro exI [of _ fs] exI [of _ "map external_field fs"]) simp
qed

text \<open>A generated identifier survives its text form whenever a \<open>Uuid\<close> does.\<close>

theorem typed_id_roundtrip:
  assumes "\<And>u. parse_str (show_uuid u) = Ok u"
  shows "id_from_str parse_str (id_to_string show_uuid i) = Ok i \<and> id_from_uuid (id_as_uuid i) = i"
  using assms by (cases i) (simp add: id_from_str_def id_to_string_def id_from_uuid_def id_as_uuid_def)

section \<open>Value objects\<close>

text \<open>
  \<open>value_object!\<close> of \<open>crates/pharos-core/src/value_object.rs\<close>: a private field behind a checked
  constructor. The two ways to make a value are the constructor and \<open>TryFrom\<close>.
\<close>

datatype 'a ValueObject = ValueObject 'a

definition vo_new :: "('a \<Rightarrow> bool) \<Rightarrow> string \<Rightarrow> 'a \<Rightarrow> DomainError + 'a ValueObject" where
  "vo_new pred msg v = (if pred v then Ok (ValueObject v) else Err (Validation msg))"

definition vo_try_from :: "('a \<Rightarrow> bool) \<Rightarrow> string \<Rightarrow> 'a \<Rightarrow> DomainError + 'a ValueObject" where
  "vo_try_from pred msg v = vo_new pred msg v"

definition vo_value :: "'a ValueObject \<Rightarrow> 'a" where
  "vo_value x = (case x of ValueObject v \<Rightarrow> v)"

definition vo_into_inner :: "'a ValueObject \<Rightarrow> 'a" where
  "vo_into_inner x = (case x of ValueObject v \<Rightarrow> v)"

definition vo_to_string :: "('a \<Rightarrow> string) \<Rightarrow> 'a ValueObject \<Rightarrow> string" where
  "vo_to_string show_inner x = show_inner (vo_value x)"

inductive made :: "('a \<Rightarrow> bool) \<Rightarrow> 'a ValueObject \<Rightarrow> bool" for pred :: "'a \<Rightarrow> bool" where
  made_new: "vo_new pred msg v = Ok x \<Longrightarrow> made pred x"
| made_try_from: "vo_try_from pred msg v = Ok x \<Longrightarrow> made pred x"

text \<open>Every value that can be made satisfies its rule, and every inner value that satisfies the rule can be made again.\<close>

theorem value_object_valid:
  "(made pred x \<longleftrightarrow> pred (vo_value x)) \<and> (made pred x \<longrightarrow> vo_new pred msg (vo_into_inner x) = Ok x)"
proof -
  have "made pred x \<Longrightarrow> pred (vo_value x)"
    by (induction rule: made.induct) (auto simp: vo_new_def vo_try_from_def vo_value_def split: if_splits)
  moreover have "vo_new pred msg (vo_into_inner x) = Ok x" if "pred (vo_value x)"
    using that by (cases x) (simp add: vo_new_def vo_value_def vo_into_inner_def)
  ultimately show ?thesis using made_new [of pred msg "vo_into_inner x" x] by auto
qed

end
