(* ===== verification/Trace_Context.thy ===== *)
theory Trace_Context
  imports Prelude
begin

text \<open>
  \<open>crates/pharos-axum/src/observability.rs\<close> and \<open>crates/pharos-observability/src/filter.rs\<close>: the
  \<open>traceparent\<close> header, the fields of the request span, and the log filter that keeps the
  framework's spans enabled.
\<close>

section \<open>The traceparent header\<close>

definition TRACEPARENT_HEADER :: string where
  "TRACEPARENT_HEADER = ''traceparent''"

definition TRACE_ID_LEN :: nat where
  "TRACE_ID_LEN = 32"

definition SPAN_ID_LEN :: nat where
  "SPAN_ID_LEN = 16"

record Traceparent =
  tp_trace_id :: string
  tp_span_id :: string
  tp_sampled :: bool

definition is_lower_hex :: "string \<Rightarrow> bool" where
  "is_lower_hex s = list_all (\<lambda>c. let n = of_char c :: nat in 48 \<le> n \<and> n \<le> 57 \<or> 97 \<le> n \<and> n \<le> 102) s"

text \<open>The value of a hexadecimal digit, and \<open>u8::from_str_radix\<close> on two of them.\<close>

definition hex_value :: "char \<Rightarrow> nat" where
  "hex_value c = (let n = of_char c in if n \<le> 57 then n - 48 else n - 87)"

definition from_hex :: "string \<Rightarrow> nat" where
  "from_hex s = foldl (\<lambda>n c. 16 * n + hex_value c) 0 s"

definition Traceparent_parse :: "string \<Rightarrow> Traceparent option" where
  "Traceparent_parse value = (case split_on (CHR ''-'') value of
       version # trace_id # span_id # flags # _ \<Rightarrow>
         if utf8_len version \<noteq> 2 \<or> version = ''ff'' \<or> \<not> is_lower_hex version then None
         else if utf8_len trace_id \<noteq> TRACE_ID_LEN \<or> \<not> is_lower_hex trace_id \<or> list_all (\<lambda>c. c = CHR ''0'') trace_id then None
         else if utf8_len span_id \<noteq> SPAN_ID_LEN \<or> \<not> is_lower_hex span_id \<or> list_all (\<lambda>c. c = CHR ''0'') span_id then None
         else if utf8_len flags \<noteq> 2 \<or> \<not> is_lower_hex flags then None
         else Some \<lparr>tp_trace_id = trace_id, tp_span_id = span_id, tp_sampled = odd (from_hex flags)\<rparr>
     | _ \<Rightarrow> None)"

definition to_header_value :: "Traceparent \<Rightarrow> string" where
  "to_header_value tp =
     ''00'' @ ''-'' @ tp_trace_id tp @ ''-'' @ tp_span_id tp @ ''-'' @ (if tp_sampled tp then ''01'' else ''00'')"

text \<open>
  \<open>HeaderValue::from_str\<close> belongs to the \<open>http\<close> crate and is the parameter \<open>from_str\<close>; what is used of it is
  that it takes visible ASCII as it is.
\<close>

definition accepts_visible :: "(string \<Rightarrow> string option) \<Rightarrow> bool" where
  "accepts_visible from_str \<longleftrightarrow> (\<forall>s. list_all (\<lambda>c. 32 \<le> (of_char c :: nat) \<and> (of_char c :: nat) < 127) s \<longrightarrow> from_str s = Some s)"

definition traceparent_value :: "(string \<Rightarrow> string option) \<Rightarrow> string \<Rightarrow> string \<Rightarrow> bool \<Rightarrow> string option" where
  "traceparent_value from_str trace_id span_id sampled =
     (let tp = \<lparr>tp_trace_id = trace_id, tp_span_id = span_id, tp_sampled = sampled\<rparr>
      in case Traceparent_parse (to_header_value tp) of
           None \<Rightarrow> None
         | Some _ \<Rightarrow> from_str (to_header_value tp))"

section \<open>The request span\<close>

definition loggable_uri :: "string \<Rightarrow> string option \<Rightarrow> string" where
  "loggable_uri path query = (case query of Some _ \<Rightarrow> path @ ''?<redacted>'' | None \<Rightarrow> path)"

text \<open>A request as far as the span reads it; \<open>to_str\<close> reads a header value as text when it is.\<close>

record 'h HttpRequest =
  rq_method :: string
  rq_path :: string
  rq_query :: "string option"
  rq_headers :: "(string, 'h) dashmap"

record RequestSpan =
  rs_method :: string
  rs_uri :: string
  rs_trace_id :: "string option"
  rs_parent_span_id :: "string option"
  rs_tenant :: "string option"
  rs_user :: "string option"

definition request_span :: "('h \<Rightarrow> string option) \<Rightarrow> 'h HttpRequest \<Rightarrow> RequestSpan" where
  "request_span to_str rq =
     (let traceparent = Option.bind (Option.bind (dm_get (rq_headers rq) TRACEPARENT_HEADER) to_str) Traceparent_parse;
          sp = \<lparr>rs_method = rq_method rq, rs_uri = loggable_uri (rq_path rq) (rq_query rq), rs_trace_id = None,
                  rs_parent_span_id = None, rs_tenant = None, rs_user = None\<rparr>
      in case traceparent of
           Some tp \<Rightarrow> sp\<lparr>rs_trace_id := Some (tp_trace_id tp), rs_parent_span_id := Some (tp_span_id tp)\<rparr>
         | None \<Rightarrow> sp)"

definition record_trace_id :: "string \<Rightarrow> RequestSpan \<Rightarrow> RequestSpan" where
  "record_trace_id x sp = sp\<lparr>rs_trace_id := Some x\<rparr>"

definition record_tenant :: "string \<Rightarrow> RequestSpan \<Rightarrow> RequestSpan" where
  "record_tenant x sp = sp\<lparr>rs_tenant := Some x\<rparr>"

definition record_user :: "string \<Rightarrow> RequestSpan \<Rightarrow> RequestSpan" where
  "record_user x sp = sp\<lparr>rs_user := Some x\<rparr>"

section \<open>The log filter\<close>

definition PHAROS_TARGETS :: "string list" where
  "PHAROS_TARGETS = [''pharos_axum'', ''pharos_app'', ''pharos_messaging'', ''pharos_postgres'']"

definition DEFAULT_LEVEL :: string where
  "DEFAULT_LEVEL = ''info''"

definition mentions_target :: "string \<Rightarrow> string \<Rightarrow> bool" where
  "mentions_target directives target =
     list_ex (\<lambda>directive. trim (hd (split_on (CHR ''['') (hd (split_on (CHR ''='') directive)))) = target)
       (split_on (CHR '','') directives)"

text \<open>The loop over the targets; \<open>merged\<close> is the text built so far.\<close>

fun merge_loop :: "string list \<Rightarrow> string \<Rightarrow> string" where
  "merge_loop [] merged = merged"
| "merge_loop (target # targets) merged =
     (if mentions_target merged target then merge_loop targets merged
      else merge_loop targets (merged @ (if merged \<noteq> [] then '','' else []) @ target @ ''='' @ DEFAULT_LEVEL))"

definition merge_directives :: "string \<Rightarrow> string" where
  "merge_directives directives = merge_loop PHAROS_TARGETS (trim directives)"

text \<open>The directives of a deployment: the variable \<open>RUST_LOG\<close> when it is set.\<close>

definition filter_directives :: "string option \<Rightarrow> string \<Rightarrow> string" where
  "filter_directives rust_log default_directives =
     merge_directives (case rust_log of Some d \<Rightarrow> d | None \<Rightarrow> default_directives)"

section \<open>Properties of the header\<close>

definition trace_ids_ok :: "Traceparent \<Rightarrow> bool" where
  "trace_ids_ok tp \<longleftrightarrow>
     length (tp_trace_id tp) = 32 \<and> is_lower_hex (tp_trace_id tp) \<and> \<not> list_all (\<lambda>c. c = CHR ''0'') (tp_trace_id tp)
     \<and> length (tp_span_id tp) = 16 \<and> is_lower_hex (tp_span_id tp) \<and> \<not> list_all (\<lambda>c. c = CHR ''0'') (tp_span_id tp)"

lemma lower_hex_ascii: "is_lower_hex s \<Longrightarrow> utf8_len s = length s"
  by (rule utf8_len_ascii) (auto simp: is_lower_hex_def list_all_iff Let_def)

lemma lower_hex_no_dash: "is_lower_hex s \<Longrightarrow> CHR ''-'' \<notin> set s"
  by (auto simp: is_lower_hex_def list_all_iff)

lemma parse_ids_ok: "Traceparent_parse v = Some tp \<Longrightarrow> trace_ids_ok tp"
  by (auto simp: Traceparent_parse_def trace_ids_ok_def TRACE_ID_LEN_def SPAN_ID_LEN_def lower_hex_ascii
      split: list.splits if_splits)

lemma flags_hex [simp]:
  "is_lower_hex ''00''" "is_lower_hex ''01''" "utf8_len ''00'' = 2" "utf8_len ''01'' = 2"
  "even (from_hex ''00'')" "odd (from_hex ''01'')"
  by (simp_all add: is_lower_hex_def utf8_len_def from_hex_def hex_value_def)

lemma header_fields:
  assumes "CHR ''-'' \<notin> set a" "CHR ''-'' \<notin> set b"
  shows "split_on (CHR ''-'') (''00-'' @ a @ ''-'' @ b @ ''-'' @ f) = [''00'', a, b] @ split_on (CHR ''-'') f"
  using split_on_append [of "CHR ''-''" a "b @ ''-'' @ f"] split_on_append [of "CHR ''-''" b f]
    split_on_plain [OF assms(1)] split_on_plain [OF assms(2)]
  by simp

text \<open>
  C37: The trace header survives a round trip: a header rendered from well-formed identifiers is parsed
  back to the same value, whatever is parsed is well formed (32 and 16 lower-case hexadecimal digits,
  neither all zero) and so can be rendered and parsed again, and a rendered header of well-formed
  identifiers is never refused when it is emitted, for any header type that takes visible ASCII.
\<close>

theorem traceparent_roundtrip:
  "(trace_ids_ok tp \<longrightarrow> Traceparent_parse (to_header_value tp) = Some tp
      \<and> (accepts_visible from_str \<longrightarrow>
           traceparent_value from_str (tp_trace_id tp) (tp_span_id tp) (tp_sampled tp) = Some (to_header_value tp)))
   \<and> (Traceparent_parse v = Some tp \<longrightarrow> trace_ids_ok tp \<and> Traceparent_parse (to_header_value tp) = Some tp)"
proof -
  have parse: "Traceparent_parse (to_header_value tp) = Some tp" if ok: "trace_ids_ok tp" for tp
  proof -
    have fs: "split_on (CHR ''-'') (to_header_value tp)
        = [''00'', tp_trace_id tp, tp_span_id tp, if tp_sampled tp then ''01'' else ''00'']"
      using ok header_fields [of "tp_trace_id tp" "tp_span_id tp" "if tp_sampled tp then ''01'' else ''00''"]
      by (simp add: trace_ids_ok_def lower_hex_no_dash to_header_value_def)
    show ?thesis using ok unfolding Traceparent_parse_def fs
      by (simp add: trace_ids_ok_def lower_hex_ascii TRACE_ID_LEN_def SPAN_ID_LEN_def)
  qed
  have "from_str (to_header_value tp) = Some (to_header_value tp)" if "trace_ids_ok tp" "accepts_visible from_str"
  proof -
    have "list_all (\<lambda>c. 32 \<le> (of_char c :: nat) \<and> (of_char c :: nat) < 127) (to_header_value tp)"
      using that(1) by (auto simp: to_header_value_def trace_ids_ok_def is_lower_hex_def list_all_iff Let_def)
    then show ?thesis using that(2) by (simp add: accepts_visible_def)
  qed
  moreover have same: "\<lparr>tp_trace_id = tp_trace_id tp, tp_span_id = tp_span_id tp, tp_sampled = tp_sampled tp\<rparr> = tp" by (cases tp) simp
  ultimately show ?thesis using parse parse_ids_ok unfolding traceparent_value_def Let_def same by auto
qed

definition sample_trace :: Traceparent where
  "sample_trace = \<lparr>tp_trace_id = ''4bf92f3577b34da6a3ce929d0e0e4736'', tp_span_id = ''00f067aa0ba902b7'', tp_sampled = True\<rparr>"

definition visible_header :: "string \<Rightarrow> string option" where
  "visible_header s = (if list_all (\<lambda>c. let n = of_char c :: nat in 32 \<le> n \<and> n < 127 \<or> n = 9) s then Some s else None)"

lemma visible_header_accepts: "accepts_visible visible_header"
  by (auto simp: accepts_visible_def visible_header_def list_all_iff Let_def)

theorem traceparent_roundtrip_witness:
  "Traceparent_parse ''00-4bf92f3577b34da6a3ce929d0e0e4736-00f067aa0ba902b7-01'' = Some sample_trace
   \<and> traceparent_value visible_header ''4bf92f3577b34da6a3ce929d0e0e4736'' ''00f067aa0ba902b7'' True
     = Some ''00-4bf92f3577b34da6a3ce929d0e0e4736-00f067aa0ba902b7-01''"
  using traceparent_roundtrip [of sample_trace visible_header] visible_header_accepts
  by (simp add: trace_ids_ok_def sample_trace_def to_header_value_def is_lower_hex_def)

text \<open>
  The parser ignores what follows the fourth field, so the check before a header is emitted does not
  notice a span identifier that brings its own flags and more: the header is emitted malformed.
\<close>

theorem malformed_span_id_emitted:
  "traceparent_value visible_header ''4bf92f3577b34da6a3ce929d0e0e4736'' ''00f067aa0ba902b7-00-x'' True
     = Some ''00-4bf92f3577b34da6a3ce929d0e0e4736-00f067aa0ba902b7-00-x-01''"
  by (simp add: traceparent_value_def to_header_value_def Traceparent_parse_def is_lower_hex_def utf8_len_def
      TRACE_ID_LEN_def SPAN_ID_LEN_def visible_header_def)

text \<open>
  The request span shows nothing of the query string but that there is one, and the trace fields
  of the span are set exactly when the request carries a well-formed trace header: a malformed
  header counts as absent.
\<close>

theorem span_hides_query:
  "request_span to_str (rq\<lparr>rq_query := Some q\<rparr>) = request_span to_str (rq\<lparr>rq_query := Some q'\<rparr>)
   \<and> rs_trace_id (request_span to_str rq)
     = map_option tp_trace_id (Option.bind (Option.bind (dm_get (rq_headers rq) TRACEPARENT_HEADER) to_str) Traceparent_parse)
   \<and> rs_parent_span_id (request_span to_str rq)
     = map_option tp_span_id (Option.bind (Option.bind (dm_get (rq_headers rq) TRACEPARENT_HEADER) to_str) Traceparent_parse)"
  by (auto simp: request_span_def loggable_uri_def Let_def split: option.splits)

section \<open>Properties of the filter\<close>

definition named :: "string \<Rightarrow> string" where
  "named directive = trim (hd (split_on (CHR ''['') (hd (split_on (CHR ''='') directive))))"

lemma mentions_named: "mentions_target ds t \<longleftrightarrow> t \<in> named ` set (split_on (CHR '','') ds)"
  by (auto simp: mentions_target_def named_def list_ex_iff image_iff)

lemma trim_id: "s = [] \<or> \<not> is_whitespace (hd s) \<and> \<not> is_whitespace (last s) \<Longrightarrow> trim s = s"
  unfolding trim_def by (metis dropWhile_eq_self_iff hd_rev rev_is_Nil_conv rev_rev_ident)

lemma trim_ends: "trim s \<noteq> [] \<Longrightarrow> \<not> is_whitespace (hd (trim s)) \<and> \<not> is_whitespace (last (trim s))"
proof -
  let ?a = "dropWhile is_whitespace s"
  let ?c = "dropWhile is_whitespace (rev ?a)"
  assume "trim s \<noteq> []"
  then have c: "?c \<noteq> []" by (simp add: trim_def)
  then have a: "?a \<noteq> []" by (metis dropWhile.simps(1) rev.simps(1))
  have "last ?c = last (rev ?a)"
    using c by (metis last_appendR takeWhile_dropWhile_id)
  then have "hd (rev ?c) = hd ?a" using a c by (simp add: hd_rev last_rev)
  then show ?thesis using hd_dropWhile [OF a] hd_dropWhile [OF c] c by (simp add: trim_def last_rev)
qed

text \<open>A target as the framework names them: plain text without the separators of directives.\<close>

definition plain_target :: "string \<Rightarrow> bool" where
  "plain_target t \<longleftrightarrow> t \<noteq> [] \<and> list_all (\<lambda>c. is_whitespace c = False \<and> c \<noteq> CHR '','' \<and> c \<noteq> CHR ''='' \<and> c \<noteq> CHR ''['') t"

lemma plain_directive:
  assumes "plain_target t"
  shows "split_on (CHR '','') (t @ ''=info'') = [t @ ''=info'']" "named (t @ ''=info'') = t"
proof -
  have t: "CHR '','' \<notin> set t" "CHR ''='' \<notin> set t" "CHR ''['' \<notin> set t"
    using assms unfolding plain_target_def list_all_iff by metis+
  have "trim t = t" using assms by (intro trim_id) (simp add: plain_target_def list_all_iff)
  note t = t this
  then show "split_on (CHR '','') (t @ ''=info'') = [t @ ''=info'']" by (intro split_on_plain) simp
  show "named (t @ ''=info'') = t"
    using split_on_append [of "CHR ''=''" t "''info''"] split_on_plain t by (simp add: named_def)
qed

lemma merge_loop_directives:
  assumes "list_all plain_target ts" "distinct ts" "m \<noteq> []"
  shows "split_on (CHR '','') (merge_loop ts m)
    = split_on (CHR '','') m @ map (\<lambda>t. t @ ''=info'') (filter (\<lambda>t. \<not> mentions_target m t) ts)"
  using assms
proof (induction ts arbitrary: m)
  case (Cons t ts)
  let ?m = "m @ '','' @ t @ ''=info''"
  have d: "split_on (CHR '','') ?m = split_on (CHR '','') m @ [t @ ''=info'']"
    using split_on_append [of "CHR '',''" m "t @ ''=info''"] plain_directive Cons.prems(1) by simp
  then have "mentions_target ?m t' \<longleftrightarrow> mentions_target m t' \<or> t' = t" for t'
    using plain_directive Cons.prems(1) by (auto simp: mentions_named)
  then have "filter (\<lambda>t'. \<not> mentions_target ?m t') ts = filter (\<lambda>t'. \<not> mentions_target m t') ts"
    using Cons.prems(2) by (auto intro: filter_cong)
  then show ?case using Cons.IH [of ?m] Cons.IH [of m] Cons.prems d by (simp add: DEFAULT_LEVEL_def)
qed simp

lemma targets_plain: "list_all plain_target PHAROS_TARGETS" "distinct PHAROS_TARGETS"
  by (simp_all add: plain_target_def PHAROS_TARGETS_def is_whitespace_def)

lemma merge_loop_idle: "list_all (mentions_target m) ts \<Longrightarrow> merge_loop ts m = m"
  by (induction ts) auto

lemma merge_empty: "merge_loop PHAROS_TARGETS [] = ''pharos_axum=info,pharos_app=info,pharos_messaging=info,pharos_postgres=info''"
  by (simp add: PHAROS_TARGETS_def DEFAULT_LEVEL_def mentions_target_def trim_def is_whitespace_def)

lemma merge_directives_split:
  "split_on (CHR '','') (merge_directives d)
    = (if trim d = [] then [] else split_on (CHR '','') (trim d))
      @ map (\<lambda>t. t @ ''=info'') (filter (\<lambda>t. \<not> mentions_target (trim d) t) PHAROS_TARGETS)"
proof (cases "trim d = []")
  case True
  then show ?thesis
    by (simp add: merge_directives_def merge_empty) (simp add: PHAROS_TARGETS_def mentions_target_def trim_def)
next
  case False
  then show ?thesis using merge_loop_directives [OF targets_plain, of "trim d"] by (simp add: merge_directives_def)
qed

lemma merge_loop_ends:
  "list_all plain_target ts \<Longrightarrow> m = [] \<or> \<not> is_whitespace (hd m) \<and> \<not> is_whitespace (last m)
    \<Longrightarrow> merge_loop ts m = [] \<or> \<not> is_whitespace (hd (merge_loop ts m)) \<and> \<not> is_whitespace (last (merge_loop ts m))"
proof (induction ts arbitrary: m)
  case (Cons t ts)
  have "t \<noteq> []" "\<not> is_whitespace (hd t)" using Cons.prems(1) by (auto simp: plain_target_def list_all_iff)
  moreover have "\<not> is_whitespace (CHR ''o'')" by (simp add: is_whitespace_def)
  moreover define m' where "m' = m @ (if m \<noteq> [] then '','' else []) @ t @ ''=info''"
  ultimately have "m' = [] \<or> \<not> is_whitespace (hd m') \<and> \<not> is_whitespace (last m')"
    using Cons.prems(2) by (auto simp: hd_append)
  then show ?case using Cons.IH [of m'] Cons.IH [of m] Cons.prems by (simp add: DEFAULT_LEVEL_def m'_def)
qed simp

text \<open>
  The log filter keeps the framework's spans without overruling the operator: the merged
  directives are those the operator gave, untouched and in order, followed by one directive at
  level info for exactly the framework targets the operator did not mention. Afterwards every
  framework target is mentioned, so that merging again changes nothing.
\<close>

theorem filter_fills_gaps:
  "split_on (CHR '','') (merge_directives d)
     = (if trim d = [] then [] else split_on (CHR '','') (trim d))
       @ map (\<lambda>t. t @ ''=info'') (filter (\<lambda>t. \<not> mentions_target (trim d) t) PHAROS_TARGETS)
   \<and> list_all (mentions_target (merge_directives d)) PHAROS_TARGETS
   \<and> merge_directives (merge_directives d) = merge_directives d"
proof -
  have all: "list_all (mentions_target (merge_directives d)) PHAROS_TARGETS"
  proof (unfold list_all_iff, intro ballI)
    fix t assume t: "t \<in> set PHAROS_TARGETS"
    then have p: "plain_target t" using targets_plain(1) by (simp add: list_all_iff)
    have "t \<noteq> []" using p by (simp add: plain_target_def)
    show "mentions_target (merge_directives d) t"
    proof (cases "mentions_target (trim d) t")
      case True
      moreover have "named [] = []" by (simp add: named_def trim_def)
      ultimately have "trim d \<noteq> []" using \<open>t \<noteq> []\<close> by (metis image_empty image_insert mentions_named list.set singletonD split_on.simps(1))
      with True show ?thesis unfolding mentions_named merge_directives_split by auto
    next
      case False
      then have "t @ ''=info'' \<in> set (split_on (CHR '','') (merge_directives d))" using t unfolding merge_directives_split by simp
      then show ?thesis using plain_directive(2) [OF p] unfolding mentions_named by (metis imageI)
    qed
  qed
  have "trim (merge_directives d) = merge_directives d"
    unfolding merge_directives_def
    by (rule trim_id, rule merge_loop_ends [OF targets_plain(1)]) (use trim_ends [of d] in blast)
  then have "merge_directives (merge_directives d) = merge_directives d"
    using merge_loop_idle [OF all] by (simp add: merge_directives_def)
  with all show ?thesis by (simp add: merge_directives_split)
qed

text \<open>
  A comma inside the fields of a span-scoped directive is taken for the end of the directive, so a
  field with the name of a framework target hides that target from the filter.
\<close>

theorem field_hides_target:
  "mentions_target ''my_app[req{id=1,pharos_app=2}]=info'' ''pharos_app''"
  by (simp add: mentions_target_def trim_def is_whitespace_def)

end
