(* ===== verification/Telemetry.thy ===== *)
theory Telemetry
  imports Trace_Context Event_Bus
begin

text \<open>
  The instruments around an application: the RED metrics of \<open>crates/pharos-axum/src/metrics.rs\<close>, the
  configuration, installation and trace propagation of \<open>crates/pharos-observability/src\<close> (\<open>lib.rs\<close>,
  \<open>otel.rs\<close>, \<open>propagation.rs\<close>, \<open>http.rs\<close>), and the captures of \<open>crates/pharos-testing/src/lib.rs\<close>. The
  exporter, the propagator and the metric families are third-party code: an exporter is what it
  answers, a propagator is what it writes and reads, a family is the map of what was recorded
  under each label set.
\<close>

section \<open>Request metrics\<close>

record HttpLabels =
  hl_method :: string
  hl_endpoint :: string
  hl_status :: nat

text \<open>
  A counter is a number, a histogram the list of its observations with their exemplars. \<open>'c\<close> is the
  span that is current when an observation is recorded, from which the trace id is read.
\<close>

record 'c HttpMetrics =
  hm_requests :: "(HttpLabels, nat) dashmap"
  hm_duration :: "(HttpLabels, (real \<times> string option) list) dashmap"
  hm_in_flight :: int
  hm_trace :: "('c \<Rightarrow> string option) option"

definition HttpMetrics_new :: "'c HttpMetrics" where
  "HttpMetrics_new = \<lparr>hm_requests = [], hm_duration = [], hm_in_flight = 0, hm_trace = None\<rparr>"

definition with_exemplars :: "('c \<Rightarrow> string option) \<Rightarrow> 'c HttpMetrics \<Rightarrow> 'c HttpMetrics" where
  "with_exemplars src m = m\<lparr>hm_trace := Some src\<rparr>"

definition metrics_observe :: "HttpLabels \<Rightarrow> real \<Rightarrow> 'c \<Rightarrow> 'c HttpMetrics \<Rightarrow> 'c HttpMetrics" where
  "metrics_observe labels seconds current m =
     (let exemplar = Option.bind (hm_trace m) (\<lambda>src. src current)
      in m\<lparr>hm_requests := dm_insert labels (case dm_get (hm_requests m) labels of None \<Rightarrow> 1 | Some n \<Rightarrow> n + 1) (hm_requests m),
           hm_duration := dm_insert labels (or_default (dm_get (hm_duration m) labels) @ [(seconds, exemplar)]) (hm_duration m)\<rparr>)"

text \<open>
  The middleware \<open>track\<close>, cut at its await: what it holds while the inner service runs, the part before
  and the part after. A request whose future is dropped never reaches the second part.
\<close>

record Tracked =
  tk_method :: string
  tk_endpoint :: string
  tk_started :: real

definition track_begin :: "string \<Rightarrow> string option \<Rightarrow> real \<Rightarrow> 'c HttpMetrics \<Rightarrow> Tracked \<times> 'c HttpMetrics" where
  "track_begin meth matched_path now m =
     (let endpoint = (case matched_path of Some p \<Rightarrow> p | None \<Rightarrow> ''<no route>'')
      in (\<lparr>tk_method = meth, tk_endpoint = endpoint, tk_started = now\<rparr>, m\<lparr>hm_in_flight := hm_in_flight m + 1\<rparr>))"

definition tracked_labels :: "Tracked \<Rightarrow> nat \<Rightarrow> HttpLabels" where
  "tracked_labels t status = \<lparr>hl_method = tk_method t, hl_endpoint = tk_endpoint t, hl_status = status\<rparr>"

definition track_end :: "Tracked \<Rightarrow> nat \<Rightarrow> real \<Rightarrow> 'c \<Rightarrow> 'c HttpMetrics \<Rightarrow> 'c HttpMetrics" where
  "track_end t status now current m =
     (let seconds = now - tk_started t;
          m1 = m\<lparr>hm_in_flight := hm_in_flight m - 1\<rparr>
      in metrics_observe (tracked_labels t status) seconds current m1)"

text \<open>
  Interleaved requests: request \<open>i\<close> arrives, is answered, or is dropped because its client went away.
  Events for a request that is not running do not occur and are ignored.
\<close>

datatype 'c http_event = Arrives nat string "string option" real | Answered nat nat real 'c | Dropped nat

record 'c HttpRun =
  hr_metrics :: "'c HttpMetrics"
  hr_running :: "(nat, Tracked) dashmap"

fun http_step :: "'c http_event \<Rightarrow> 'c HttpRun \<Rightarrow> 'c HttpRun" where
  "http_step (Arrives i meth path now) s =
     (case dm_get (hr_running s) i of
        Some _ \<Rightarrow> s
      | None \<Rightarrow> (let (t, m) = track_begin meth path now (hr_metrics s)
                 in s\<lparr>hr_metrics := m, hr_running := dm_insert i t (hr_running s)\<rparr>))"
| "http_step (Answered i status now current) s =
     (case dm_get (hr_running s) i of
        None \<Rightarrow> s
      | Some t \<Rightarrow> s\<lparr>hr_running := dm_remove i (hr_running s), hr_metrics := track_end t status now current (hr_metrics s)\<rparr>)"
| "http_step (Dropped i) s =
     (case dm_get (hr_running s) i of None \<Rightarrow> s | Some _ \<Rightarrow> s\<lparr>hr_running := dm_remove i (hr_running s)\<rparr>)"

definition http_start :: "('c \<Rightarrow> string option) option \<Rightarrow> 'c HttpRun" where
  "http_start src = \<lparr>hr_metrics = (case src of None \<Rightarrow> HttpMetrics_new | Some f \<Rightarrow> with_exemplars f HttpMetrics_new), hr_running = []\<rparr>"

definition http_run :: "'c http_event list \<Rightarrow> 'c HttpRun \<Rightarrow> 'c HttpRun" where
  "http_run es s = fold http_step es s"

section \<open>Configuration and installation\<close>

datatype LogFormat = Text | Json

definition LogFormat_from_env :: "string option \<Rightarrow> LogFormat" where
  "LogFormat_from_env log_format =
     (if log_format = Some ''json'' \<or> log_format = Some ''JSON'' then Json else Text)"

record Config =
  cf_service_name :: string
  cf_default_filter :: string
  cf_log_format :: "LogFormat option"

definition Config_new :: "string \<Rightarrow> Config" where
  "Config_new service_name =
     (let default_filter = map (\<lambda>c. if c = CHR ''-'' then CHR ''_'' else c) service_name @ ''=info,tower_http=info''
      in \<lparr>cf_service_name = service_name, cf_default_filter = default_filter, cf_log_format = None\<rparr>)"

definition with_default_filter :: "string \<Rightarrow> Config \<Rightarrow> Config" where
  "with_default_filter directives c = c\<lparr>cf_default_filter := directives\<rparr>"

definition with_log_format :: "LogFormat \<Rightarrow> Config \<Rightarrow> Config" where
  "with_log_format f c = c\<lparr>cf_log_format := Some f\<rparr>"

definition resolved_format :: "string option \<Rightarrow> Config \<Rightarrow> LogFormat" where
  "resolved_format log_format c = (case cf_log_format c of Some f \<Rightarrow> f | None \<Rightarrow> LogFormat_from_env log_format)"

text \<open>The environment of the process; \<open>parse_f64\<close> reads a finite number.\<close>

record ProcessEnv =
  pe_rust_log :: "string option"
  pe_log_format :: "string option"
  pe_endpoint :: "string option"
  pe_sampler_arg :: "string option"
  pe_parse_f64 :: "string \<Rightarrow> real option"

definition sample_ratio :: "ProcessEnv \<Rightarrow> real" where
  "sample_ratio pe = (case Option.bind (pe_sampler_arg pe) (pe_parse_f64 pe) of
       Some r \<Rightarrow> if 0 \<le> r \<and> r \<le> 1 then r else 1
     | None \<Rightarrow> 1)"

datatype ObservabilityError = AlreadyInstalled string | ExporterFailed string

record TracerProvider =
  pv_endpoint :: string
  pv_ratio :: real
  pv_service :: string

text \<open>The process-wide state: the propagator, the tracer provider and the subscriber with its layers.\<close>

record Subscriber =
  sb_text :: bool
  sb_json :: bool
  sb_filter :: string
  sb_otel :: "(TracerProvider \<times> string) option"

record Globals =
  gl_propagator :: bool
  gl_provider :: "TracerProvider option"
  gl_subscriber :: "Subscriber option"

text \<open>\<open>build\<close> is the answer of the exporter's builder for an endpoint.\<close>

definition install_provider ::
    "ProcessEnv \<Rightarrow> (string \<Rightarrow> string + unit) \<Rightarrow> string \<Rightarrow> (Globals, ObservabilityError, TracerProvider option) op" where
  "install_provider pe build service_name g = (case pe_endpoint pe of
       None \<Rightarrow> (Ok None, g)
     | Some endpoint \<Rightarrow>
         if endpoint = [] then (Ok None, g)
         else (case build endpoint of
             Err e \<Rightarrow> (Err (ExporterFailed e), g)
           | Ok _ \<Rightarrow> (let p = \<lparr>pv_endpoint = endpoint, pv_ratio = sample_ratio pe, pv_service = service_name\<rparr>
                      in (Ok (Some p), g\<lparr>gl_propagator := True, gl_provider := Some p\<rparr>))))"

text \<open>\<open>try_init\<close> refuses when a subscriber is installed; \<open>refusal\<close> is the text of its error.\<close>

definition install ::
    "ProcessEnv \<Rightarrow> (string \<Rightarrow> string + unit) \<Rightarrow> string \<Rightarrow> string \<Rightarrow> bool \<Rightarrow> Config \<Rightarrow> (Globals, ObservabilityError, TracerProvider option) op" where
  "install pe build refusal flt json config g =
     (case install_provider pe build (cf_service_name config) g of
        (Err e, g1) \<Rightarrow> (Err e, g1)
      | (Ok provider, g1) \<Rightarrow>
          (case gl_subscriber g1 of
             Some _ \<Rightarrow> (Err (AlreadyInstalled refusal), g1)
           | None \<Rightarrow> (Ok provider, g1\<lparr>gl_subscriber := Some
               \<lparr>sb_text = (\<not> json), sb_json = json, sb_filter = flt,
                sb_otel = map_option (\<lambda>p. (p, cf_service_name config)) provider\<rparr>\<rparr>)))"

definition init_with ::
    "ProcessEnv \<Rightarrow> (string \<Rightarrow> string + unit) \<Rightarrow> string \<Rightarrow> Config \<Rightarrow> (Globals, ObservabilityError, TracerProvider option) op" where
  "init_with pe build refusal config =
     (let flt = filter_directives (pe_rust_log pe) (cf_default_filter config);
          json = (resolved_format (pe_log_format pe) config = Json)
      in install pe build refusal flt json config)"

definition observability_init ::
    "ProcessEnv \<Rightarrow> (string \<Rightarrow> string + unit) \<Rightarrow> string \<Rightarrow> string \<Rightarrow> (Globals, ObservabilityError, TracerProvider option) op" where
  "observability_init pe build refusal service_name = init_with pe build refusal (Config_new service_name)"

definition traces_enabled :: "TracerProvider option \<Rightarrow> bool" where
  "traces_enabled provider \<longleftrightarrow> provider \<noteq> None"

section \<open>Trace propagation\<close>

text \<open>A propagator writes key-value pairs for a context and reads a context from a carrier.\<close>

record 'x Propagator =
  pg_inject :: "'x \<Rightarrow> (string \<times> string) list"
  pg_extract :: "(string \<Rightarrow> string option) \<Rightarrow> string list \<Rightarrow> 'x"

definition headers_set :: "string \<times> string \<Rightarrow> (string, string) dashmap \<Rightarrow> (string, string) dashmap" where
  "headers_set kv h = dm_insert (fst kv) (snd kv) h"

definition propagation_inject :: "'x Propagator \<Rightarrow> 'x \<Rightarrow> (string, string) dashmap \<Rightarrow> (string, string) dashmap" where
  "propagation_inject P context h = fold headers_set (pg_inject P context) h"

definition propagation_extract :: "'x Propagator \<Rightarrow> (string, string) dashmap \<Rightarrow> 'x" where
  "propagation_extract P h = pg_extract P (dm_get h) (map fst h)"

definition TraceContextHeaders_enrich :: "'x Propagator \<Rightarrow> 'x \<Rightarrow> Message \<Rightarrow> Message" where
  "TraceContextHeaders_enrich P context m = m\<lparr>headers := propagation_inject P context (headers m)\<rparr>"

text \<open>
  The request span of \<open>http.rs\<close>: the span of the request, with the trace id the SDK settled on after the
  inbound context became its parent; \<open>None\<close> is the invalid id.
\<close>

definition otel_request_span ::
    "('h \<Rightarrow> string option) \<Rightarrow> ('h HttpRequest \<Rightarrow> 'x) \<Rightarrow> ('x \<Rightarrow> string option) \<Rightarrow> 'h HttpRequest \<Rightarrow> RequestSpan" where
  "otel_request_span to_str extract_headers settle rq =
     (let sp = request_span to_str rq; parent = extract_headers rq
      in case settle parent of None \<Rightarrow> sp | Some trace_id \<Rightarrow> record_trace_id trace_id sp)"

section \<open>Captures for tests\<close>

text \<open>A capture and its clones share one list, which is the state the handler runs on.\<close>

definition capturing_handle :: "'e \<Rightarrow> ('e list, string, unit) op" where
  "capturing_handle ev captured = (Ok (), captured @ [ev])"

definition register_on :: "typeid \<Rightarrow> string \<Rightarrow> ('e list, 'e) EventBus \<Rightarrow> ('e list, 'e) EventBus" where
  "register_on t n b = bus_register t n capturing_handle b"

definition capturing_event_bus :: "typeid \<Rightarrow> string \<Rightarrow> ('e list, 'e) EventBus \<times> 'e list" where
  "capturing_event_bus t n = (let b = bus_new; capture = [] in (register_on t n b, capture))"

definition capture_count :: "'e list \<Rightarrow> nat" where
  "capture_count captured = length captured"

definition capture_is_empty :: "'e list \<Rightarrow> bool" where
  "capture_is_empty captured \<longleftrightarrow> capture_count captured = 0"

definition capture_clear :: "'e list \<Rightarrow> 'e list" where
  "capture_clear captured = []"

text \<open>
  The writer of \<open>TestSubscriber\<close>: \<open>decoded\<close> is the buffer as text, or \<open>None\<close> when it is not UTF-8, and
  \<open>n\<close> its length.
\<close>

definition trim_end_newlines :: "string \<Rightarrow> string" where
  "trim_end_newlines s = rev (dropWhile (\<lambda>c. c = CHR 0x0A) (rev s))"

definition mem_writer_write :: "string option \<Rightarrow> nat \<Rightarrow> (string list, string, nat) op" where
  "mem_writer_write decoded n lns =
     (Ok n, case decoded of
        None \<Rightarrow> lns
      | Some s \<Rightarrow> (let trimmed = trim_end_newlines s in if trimmed \<noteq> [] then lns @ [trimmed] else lns))"

definition subscriber_contains :: "string \<Rightarrow> string list \<Rightarrow> bool" where
  "subscriber_contains needle lns \<longleftrightarrow> list_ex (\<lambda>l. sublist needle l) lns"

section \<open>The metrics account for every request\<close>

text \<open>
  The reference: the observations a history of requests should leave, oldest first, and the number of
  requests that were dropped. \<open>running\<close> are the requests whose service runs.
\<close>

fun http_history ::
    "('c \<Rightarrow> string option) option \<Rightarrow> (nat \<rightharpoonup> Tracked) \<Rightarrow> 'c http_event list \<Rightarrow> (HttpLabels \<times> real \<times> string option) list \<times> nat" where
  "http_history src running [] = ([], 0)"
| "http_history src running (Arrives i meth path now # es) =
     http_history src (if running i = None
       then running(i \<mapsto> \<lparr>tk_method = meth, tk_endpoint = (case path of Some p \<Rightarrow> p | None \<Rightarrow> ''<no route>''), tk_started = now\<rparr>)
       else running) es"
| "http_history src running (Answered i status now current # es) =
     (case running i of
        None \<Rightarrow> http_history src running es
      | Some t \<Rightarrow> (let (obs, d) = http_history src (running(i := None)) es
                   in ((tracked_labels t status, now - tk_started t, Option.bind src (\<lambda>f. f current)) # obs, d)))"
| "http_history src running (Dropped i # es) =
     (case running i of
        None \<Rightarrow> http_history src running es
      | Some _ \<Rightarrow> (let (obs, d) = http_history src (running(i := None)) es in (obs, d + 1)))"

definition recorded :: "HttpLabels \<Rightarrow> (HttpLabels \<times> real \<times> string option) list \<Rightarrow> (real \<times> string option) list" where
  "recorded l obs = map snd (filter (\<lambda>o'. fst o' = l) obs)"

definition accounts ::
    "('c \<Rightarrow> string option) option \<Rightarrow> (HttpLabels \<times> real \<times> string option) list \<Rightarrow> nat \<Rightarrow> 'c HttpRun \<Rightarrow> bool" where
  "accounts src obs d s \<longleftrightarrow> dm_wf (hr_running s) \<and> hm_trace (hr_metrics s) = src
     \<and> hm_in_flight (hr_metrics s) = int (length (hr_running s) + d)
     \<and> (\<forall>l. dm_get (hm_requests (hr_metrics s)) l = (if recorded l obs = [] then None else Some (length (recorded l obs))))
     \<and> (\<forall>l. or_default (dm_get (hm_duration (hr_metrics s)) l) = recorded l obs)"

lemma accounts_start: "accounts src [] 0 (http_start src)"
  by (auto simp: accounts_def http_start_def HttpMetrics_new_def with_exemplars_def recorded_def or_default_def split: option.splits)

lemma accounts_observe:
  assumes "accounts src obs d s"
  shows "accounts src (obs @ [(l, x, Option.bind src (\<lambda>f. f current))]) d (s\<lparr>hr_metrics := metrics_observe l x current (hr_metrics s)\<rparr>)"
  using assms by (auto simp: accounts_def metrics_observe_def recorded_def or_default_def Let_def)

lemma accounts_removed:
  assumes "accounts src obs d s" "dm_get (hr_running s) i = Some t"
  shows "accounts src obs (d + 1) (s\<lparr>hr_running := dm_remove i (hr_running s)\<rparr>)"
    and "accounts src obs d (s\<lparr>hr_running := dm_remove i (hr_running s), hr_metrics := (hr_metrics s)\<lparr>hm_in_flight := hm_in_flight (hr_metrics s) - 1\<rparr>\<rparr>)"
  using assms dm_length_remove [of "hr_running s" i t]
  by (auto simp: accounts_def)


lemma http_step_accounts:
  assumes "accounts src obs d s"
  shows "accounts src (obs @ fst (http_history src (dm_get (hr_running s)) [ev])) (d + snd (http_history src (dm_get (hr_running s)) [ev])) (http_step ev s)"
proof (cases ev)
  case (Arrives i meth path now)
  then show ?thesis
    using assms by (auto simp: accounts_def track_begin_def Let_def dm_length_insert split: option.splits)
next
  case (Answered i status now current)
  show ?thesis
  proof (cases "dm_get (hr_running s) i")
    case (Some t)
    show ?thesis
      using accounts_observe [OF accounts_removed(2) [OF assms Some], of "tracked_labels t status" "now - tk_started t" current]
      by (simp add: Answered Some track_end_def Let_def)
  qed (use assms Answered in simp)
next
  case (Dropped i)
  show ?thesis
  proof (cases "dm_get (hr_running s) i")
    case (Some t)
    show ?thesis using accounts_removed(1) [OF assms Some] by (simp add: Dropped Some)
  qed (use assms Dropped in simp)
qed

lemma http_history_Cons:
  "http_history src (dm_get (hr_running s)) (ev # es) =
     (let (obs, d) = http_history src (dm_get (hr_running s)) [ev];
          (obs', d') = http_history src (dm_get (hr_running (http_step ev s))) es
      in (obs @ obs', d + d'))"
proof (cases ev)
  case (Arrives i meth path now)
  have "dm_get (dm_insert i t m) = (dm_get m)(i \<mapsto> t)" for t and m :: "(nat, Tracked) dashmap" by auto
  then show ?thesis by (auto simp: Arrives track_begin_def Let_def split: option.splits prod.splits)
next
  case (Answered i status now current)
  have "dm_get (dm_remove i m) = (dm_get m)(i := None)" for m :: "(nat, Tracked) dashmap" by auto
  then show ?thesis by (auto simp: Answered Let_def split: option.splits prod.splits)
next
  case (Dropped i)
  have "dm_get (dm_remove i m) = (dm_get m)(i := None)" for m :: "(nat, Tracked) dashmap" by auto
  then show ?thesis by (auto simp: Dropped Let_def split: option.splits prod.splits)
qed

lemma http_run_accounts:
  assumes "accounts src obs d s"
  shows "accounts src (obs @ fst (http_history src (dm_get (hr_running s)) es)) (d + snd (http_history src (dm_get (hr_running s)) es)) (http_run es s)"
  using assms
proof (induction es arbitrary: s obs d)
  case (Cons ev es)
  from Cons.IH [OF http_step_accounts [OF Cons.prems, of ev]] show ?case
    by (simp add: http_history_Cons [of src s ev es] http_run_def Let_def split_beta add.assoc)
qed (simp add: http_run_def)

definition none_dropped :: "'c http_event list \<Rightarrow> bool" where
  "none_dropped es \<longleftrightarrow> list_all (\<lambda>e. case e of Dropped _ \<Rightarrow> False | _ \<Rightarrow> True) es"

lemma none_dropped_history: "none_dropped es \<Longrightarrow> snd (http_history src running es) = 0"
  by (induction src running es rule: http_history.induct) (auto simp: none_dropped_def split_beta split: option.splits)

text \<open>
  C28: Over every interleaving of requests that are all run to their answer, the request metrics are exact:
  for each label set the counter is the number of answered requests with these labels and the
  histogram was given exactly their durations, in order of completion, each with the trace id current
  at that moment; and the gauge is the number of requests in flight. Requests that are dropped before
  their answer are excluded; what they leave behind is \<open>dropped_request_leaks\<close>.
\<close>

theorem request_metrics_exact:
  assumes "none_dropped es" and "obs = fst (http_history src (\<lambda>_. None) es)" and "s = http_run es (http_start src)"
  shows "dm_get (hm_requests (hr_metrics s)) l = (if recorded l obs = [] then None else Some (length (recorded l obs)))
    \<and> or_default (dm_get (hm_duration (hr_metrics s)) l) = recorded l obs
    \<and> hm_in_flight (hr_metrics s) = int (length (hr_running s))"
proof -
  have "dm_get (hr_running (http_start src)) = (\<lambda>_. None)" by (auto simp: http_start_def)
  with http_run_accounts [OF accounts_start, of src es] none_dropped_history [OF assms(1), of src "\<lambda>_. None"] assms(2,3)
  show ?thesis by (simp add: accounts_def)
qed

definition sample_traffic :: "nat http_event list" where
  "sample_traffic = [Arrives 1 ''GET'' (Some ''/orders/{id}'') 0, Arrives 2 ''GET'' None 1, Arrives 3 ''PUT'' (Some ''/orders/{id}'') 2,
     Answered 1 200 3 7, Answered 2 404 4 7]"

theorem request_metrics_exact_witness:
  "hm_in_flight (hr_metrics (http_run sample_traffic (http_start (Some (\<lambda>_. Some ''abc''))))) = 1
   \<and> or_default (dm_get (hm_duration (hr_metrics (http_run sample_traffic (http_start (Some (\<lambda>_. Some ''abc''))))))
       \<lparr>hl_method = ''GET'', hl_endpoint = ''/orders/{id}'', hl_status = 200\<rparr>) = [(3, Some ''abc'')]"
proof -
  let ?src = "Some (\<lambda>_ :: nat. Some ''abc'')"
  let ?l = "\<lparr>hl_method = ''GET'', hl_endpoint = ''/orders/{id}'', hl_status = 200\<rparr>"
  have n: "none_dropped sample_traffic" by (simp add: none_dropped_def sample_traffic_def)
  have h: "recorded ?l (fst (http_history ?src (\<lambda>_. None) sample_traffic)) = [(3, Some ''abc'')]"
    by (simp add: sample_traffic_def tracked_labels_def recorded_def)
  have "length (hr_running (http_run sample_traffic (http_start ?src))) = 1"
    by (simp add: sample_traffic_def http_run_def http_start_def track_begin_def dm_get_def dm_insert_def dm_remove_def)
  with request_metrics_exact [OF n refl refl, of ?src ?l] h show ?thesis by simp
qed

text \<open>A dropped request is never taken off the gauge: it stays raised after all requests are gone.\<close>

theorem dropped_request_leaks:
  "hr_running (http_run [Arrives i meth path now, Dropped i] (http_start src)) = []
   \<and> hm_in_flight (hr_metrics (http_run [Arrives i meth path now, Dropped i] (http_start src))) = 1"
  by (simp add: http_run_def http_start_def track_begin_def dm_get_def dm_insert_def dm_remove_def HttpMetrics_new_def
      with_exemplars_def Let_def split: option.split)

text \<open>
  The labels stay bounded: every endpoint that occurs is a route some request matched, or the constant
  for requests without a route.
\<close>

definition known_endpoints :: "'c http_event list \<Rightarrow> string set" where
  "known_endpoints es = insert ''<no route>'' {p. \<exists>i meth now. Arrives i meth (Some p) now \<in> set es}"

lemma history_endpoints:
  assumes "\<forall>i t. running i = Some t \<longrightarrow> tk_endpoint t \<in> K" and "known_endpoints es \<subseteq> K"
  shows "\<forall>ob \<in> set (fst (http_history src running es)). hl_endpoint (fst ob) \<in> K"
  using assms
proof (induction src running es rule: http_history.induct)
  case (2 src running i meth path now es)
  have "p \<in> known_endpoints (Arrives i meth path now # es)" if "path = Some p" for p
    using that by (auto simp: known_endpoints_def)
  moreover have "''<no route>'' \<in> known_endpoints (Arrives i meth path now # es)" by (simp add: known_endpoints_def)
  ultimately have "\<forall>j t. (if running i = None
       then running(i \<mapsto> \<lparr>tk_method = meth, tk_endpoint = (case path of Some p \<Rightarrow> p | None \<Rightarrow> ''<no route>''), tk_started = now\<rparr>)
       else running) j = Some t \<longrightarrow> tk_endpoint t \<in> K"
    using "2.prems" by (auto split: option.splits)
  moreover have "known_endpoints es \<subseteq> K" using "2.prems"(2) by (auto simp: known_endpoints_def)
  ultimately show ?case using "2.IH" by simp
next
  case (3 src running i status now current es)
  have k: "known_endpoints es \<subseteq> K" using "3.prems"(2) by (auto simp: known_endpoints_def)
  show ?case
  proof (cases "running i")
    case (Some t)
    have r: "\<forall>j u. (running(i := None)) j = Some u \<longrightarrow> tk_endpoint u \<in> K" using "3.prems"(1) by auto
    from "3.IH"(2) [OF Some r k] show ?thesis
      using "3.prems"(1) Some by (auto simp: tracked_labels_def split_beta fun_upd_def)
  qed (use "3.prems"(1) "3.IH"(1) k in simp)
next
  case (4 src running i es)
  have k: "known_endpoints es \<subseteq> K" using "4.prems"(2) by (auto simp: known_endpoints_def)
  show ?case
  proof (cases "running i")
    case (Some t)
    have r: "\<forall>j u. (running(i := None)) j = Some u \<longrightarrow> tk_endpoint u \<in> K" using "4.prems"(1) by auto
    from "4.IH"(2) [OF Some r k] show ?thesis
      using "4.prems"(1) Some by (auto simp: tracked_labels_def split_beta fun_upd_def)
  qed (use "4.prems"(1) "4.IH"(1) k in simp)
qed simp

theorem endpoint_labels_bounded:
  "hl_endpoint ` fst ` set (hm_requests (hr_metrics (http_run es (http_start src)))) \<subseteq> known_endpoints es"
proof
  fix p assume "p \<in> hl_endpoint ` fst ` set (hm_requests (hr_metrics (http_run es (http_start src))))"
  then obtain l where p: "p = hl_endpoint l" and "l \<in> set (map fst (hm_requests (hr_metrics (http_run es (http_start src)))))" by auto
  then have "dm_get (hm_requests (hr_metrics (http_run es (http_start src)))) l \<noteq> None" unfolding dm_keys_get by simp
  moreover obtain obs d where h: "http_history src (\<lambda>_. None) es = (obs, d)" by fastforce
  moreover have "dm_get (hr_running (http_start src)) = (\<lambda>_. None)" by (auto simp: http_start_def)
  ultimately have "recorded l obs \<noteq> []"
    using http_run_accounts [OF accounts_start, of src es] by (auto simp: accounts_def split: if_splits)
  then obtain x where "(l, x) \<in> set obs" by (auto simp: recorded_def filter_empty_conv)
  then show "p \<in> known_endpoints es" using history_endpoints [of "\<lambda>_. None" "known_endpoints es" es src] h p by fastforce
qed

section \<open>Installation\<close>

lemma sample_ratio_bounds: "0 \<le> sample_ratio pe \<and> sample_ratio pe \<le> 1"
  by (auto simp: sample_ratio_def split: option.splits)

text \<open>
  Installation succeeds exactly when no subscriber is installed and the exporter, if an endpoint is
  configured, can be built. Then exactly one of the two formats is active, the filter names every
  target of the framework, and spans are exported, with a sampled share between 0 and 1, exactly
  when a non-empty endpoint is configured. A failure leaves the installed subscriber as it was.
\<close>

theorem init_installs_once:
  assumes "init_with pe build refusal config g = (r, g')"
  shows "(is_ok r \<longleftrightarrow> gl_subscriber g = None \<and> (\<forall>e. pe_endpoint pe = Some e \<and> e \<noteq> [] \<longrightarrow> is_ok (build e)))
    \<and> (case r of
        Err _ \<Rightarrow> gl_subscriber g' = gl_subscriber g
      | Ok provider \<Rightarrow> (\<exists>sb. gl_subscriber g' = Some sb \<and> sb_text sb = (\<not> sb_json sb)
            \<and> list_all (mentions_target (sb_filter sb)) PHAROS_TARGETS)
          \<and> traces_enabled provider = (pe_endpoint pe \<notin> {None, Some []})
          \<and> (\<forall>p. provider = Some p \<longrightarrow> 0 \<le> pv_ratio p \<and> pv_ratio p \<le> 1))"
proof -
  have f: "list_all (mentions_target (filter_directives a b)) PHAROS_TARGETS" for a b
    using filter_fills_gaps by (simp add: filter_directives_def)
  show ?thesis
    using assms f sample_ratio_bounds [of pe]
    by (auto simp: init_with_def install_def install_provider_def traces_enabled_def Let_def split: option.splits sum.splits if_splits)
qed

text \<open>A second installation fails, but not before it has replaced the process-wide tracer provider.\<close>

theorem failed_init_replaces_provider:
  assumes "pe_endpoint pe = Some e" "e \<noteq> []" "build e = Ok ()" "gl_subscriber g = Some sb"
  shows "\<exists>g' p. init_with pe build refusal config g = (Err (AlreadyInstalled refusal), g') \<and> gl_provider g' = Some p
    \<and> pv_service p = cf_service_name config"
  using assms by (simp add: init_with_def install_def install_provider_def Let_def)

section \<open>Propagation\<close>

lemma headers_set_fold:
  "dm_get (fold headers_set kvs h) k = (case map_of (rev kvs) k of Some v \<Rightarrow> Some v | None \<Rightarrow> dm_get h k)"
  by (induction kvs arbitrary: h) (auto simp: headers_set_def map_add_def split: option.splits)

text \<open>
  The trace context travels with a message: whatever headers the message had, what the relay
  extracts from the enriched message is the context of the request that enqueued it, for every
  propagator that reads back what it wrote; all other headers and all other parts of the message
  are unchanged.
\<close>

theorem trace_context_travels:
  assumes "\<And>x get ks. (\<forall>kv \<in> set (pg_inject P x). get (fst kv) = Some (snd kv) \<and> fst kv \<in> set ks) \<Longrightarrow> pg_extract P get ks = x"
    and "distinct (map fst (pg_inject P context))"
  shows "propagation_extract P (headers (TraceContextHeaders_enrich P context m)) = context
    \<and> (\<forall>k. k \<notin> fst ` set (pg_inject P context) \<longrightarrow> dm_get (headers (TraceContextHeaders_enrich P context m)) k = dm_get (headers m) k)
    \<and> (TraceContextHeaders_enrich P context m)\<lparr>headers := []\<rparr> = m\<lparr>headers := []\<rparr>"
proof -
  let ?h = "fold headers_set (pg_inject P context) (headers m)"
  have get: "dm_get ?h (fst kv) = Some (snd kv)" if "kv \<in> set (pg_inject P context)" for kv
  proof -
    have "map_of (rev (pg_inject P context)) (fst kv) = Some (snd kv)"
      by (rule map_of_is_SomeI) (use assms(2) that in \<open>simp_all add: rev_map [symmetric]\<close>)
    then show ?thesis by (simp add: headers_set_fold)
  qed
  moreover have "fst kv \<in> set (map fst ?h)" if "kv \<in> set (pg_inject P context)" for kv
    unfolding dm_keys_get using get [OF that] by simp
  ultimately have "pg_extract P (dm_get ?h) (map fst ?h) = context" by (intro assms(1)) auto
  moreover have "dm_get ?h k = dm_get (headers m) k" if "k \<notin> fst ` set (pg_inject P context)" for k
  proof -
    have "map_of (rev (pg_inject P context)) k = None" using that by (simp add: map_of_eq_None_iff)
    then show ?thesis by (simp add: headers_set_fold)
  qed
  ultimately show ?thesis
    by (simp add: TraceContextHeaders_enrich_def propagation_inject_def propagation_extract_def)
qed

definition sample_propagator :: "string Propagator" where
  "sample_propagator = \<lparr>pg_inject = (\<lambda>x. [(''traceparent'', x)]),
     pg_extract = (\<lambda>get ks. case get ''traceparent'' of Some x \<Rightarrow> x | None \<Rightarrow> [])\<rparr>"

theorem trace_context_travels_witness:
  "propagation_extract sample_propagator (headers (TraceContextHeaders_enrich sample_propagator ''00-ab-cd-01''
     (with_header (Message_new 1 ''orders'' [] ''json'') ''traceparent'' ''stale''))) = ''00-ab-cd-01''"
proof -
  have "pg_extract sample_propagator get ks = x"
    if "\<forall>kv \<in> set (pg_inject sample_propagator x). get (fst kv) = Some (snd kv) \<and> fst kv \<in> set ks" for x get ks
    using that by (simp add: sample_propagator_def)
  moreover have "distinct (map fst (pg_inject sample_propagator ''00-ab-cd-01''))" by (simp add: sample_propagator_def)
  ultimately show ?thesis using trace_context_travels [of sample_propagator "''00-ab-cd-01''"] by blast
qed

section \<open>Captures\<close>

fun publish_each :: "'e DomainEvent \<Rightarrow> ('w, 'e) EventBus \<Rightarrow> 'e list \<Rightarrow> ('w, EventBusError, unit) op" where
  "publish_each De b [] w = (Ok (), w)"
| "publish_each De b (ev # evs) w = (case bus_publish De b ev w of (Err e, w') \<Rightarrow> (Err e, w') | (Ok _, w') \<Rightarrow> publish_each De b evs w')"

text \<open>
  A capturing bus records exactly the events of its type, in the order of their publication, and never
  makes a publication fail.
\<close>

theorem capture_in_order:
  assumes "capturing_event_bus t n = (b, capture)"
  shows "publish_each De b evs (capture @ before) = (Ok (), capture @ before @ filter (\<lambda>ev. type_id De ev = t) evs)"
proof -
  have b: "b = bus_register t n capturing_handle bus_new" "capture = []"
    using assms by (auto simp: capturing_event_bus_def register_on_def Let_def)
  have "publish_each De b evs c = (Ok (), c @ filter (\<lambda>ev. type_id De ev = t) evs)" for c
    by (induction evs arbitrary: c)
      (simp_all add: b(1) bus_publish_def bus_register_def bus_new_def with_error_policy_def or_default_def capturing_handle_def)
  then show ?thesis by (simp add: b(2))
qed

text \<open>A captured line is never empty and never ends in a newline; what is not UTF-8 is dropped, and every byte counts as written.\<close>

theorem captured_lines:
  assumes "mem_writer_write decoded n lns = (r, lns')"
  shows "r = Ok n \<and> (\<exists>new. lns' = lns @ new \<and> length new \<le> 1
    \<and> list_all (\<lambda>l. l \<noteq> [] \<and> last l \<noteq> CHR 0x0A \<and> (\<exists>k. decoded = Some (l @ replicate k (CHR 0x0A)))) new)"
proof (cases decoded)
  case (Some s)
  let ?nl = "CHR 0x0A"
  have s: "s = trim_end_newlines s @ rev (takeWhile (\<lambda>c. c = ?nl) (rev s))"
    by (simp add: trim_end_newlines_def flip: rev_append)
  have "rev (takeWhile (\<lambda>c. c = ?nl) (rev s)) = replicate (length (takeWhile (\<lambda>c. c = ?nl) (rev s))) ?nl"
    by (rule replicate_eqI) (auto dest: set_takeWhileD)
  then have "\<exists>k. s = trim_end_newlines s @ replicate k ?nl" using s by metis
  moreover have "last (trim_end_newlines s) \<noteq> ?nl" if "trim_end_newlines s \<noteq> []"
    using that hd_dropWhile [of "\<lambda>c. c = ?nl" "rev s"] by (simp add: trim_end_newlines_def last_rev)
  ultimately show ?thesis using assms Some by (auto simp: mem_writer_write_def Let_def split: if_splits)
qed (use assms in \<open>simp add: mem_writer_write_def\<close>)

end
