(* ===== verification/Spec2Isabelle.thy ===== *)
theory Spec2Isabelle
  imports Money Consumer Event_Sourcing Saga Socket Protobuf Tenancy Http Registry Contract_Kit Derive Telemetry
begin

text \<open>
  \<^bold>\<open>pharos-rs, a verification development.\<close>

  Pharos is a Rust framework for event-driven applications. Aggregates raise domain events; a
  repository stores aggregates under optimistic concurrency (\<open>pharos-core\<close>, \<open>pharos-es\<close>); events are
  published on an in-process bus or written to an outbox in the transaction of the save (\<open>pharos-app\<close>);
  a dispatcher moves outbox messages to a broker, a consumer processes deliveries idempotently with
  the help of an inbox, and what cannot be delivered is parked on a dead-letter queue
  (\<open>pharos-messaging\<close>); sagas react to events with commands (\<open>pharos-saga\<close>); events leave the process
  in a versioned envelope (\<open>pharos-app\<close>, \<open>pharos-proto\<close>); clients follow rooms over WebSockets
  (\<open>pharos-realtime\<close>); requests enter over HTTP (\<open>pharos-axum\<close>). \<open>pharos-memory\<close> implements the
  storage and broker interfaces in memory. The paths below are relative to \<open>src/crates\<close>.

  \<^bold>\<open>Conventions.\<close> A Rust \<open>Result<T, E>\<close> is the sum \<open>'e + 'a\<close> with \<open>Ok\<close> and \<open>Err\<close>; every early return and
  every \<open>?\<close> is a branch. An operation with effects has the type \<open>('w, 'e, 'a) op\<close>: it takes the state
  and returns the result with the new state. A trait is a record of its operations, and generic code
  takes such records over an arbitrary state \<open>'w\<close>; the in-memory adapters instantiate them. A map is
  an association list with distinct keys in an arbitrary order. Clock readings, fresh identifiers
  and random numbers are inputs: arbitrary supplies in the state. Counters that only grow by one are
  \<open>nat\<close> and do not overflow: versions, which are \<open>u64\<close>, and attempts of outbox records and deliveries, which
  are \<open>u32\<close> with an unchecked addition in the code; a record is failed or dead-lettered when its attempts
  reach \<open>max_attempts\<close>, itself a \<open>u32\<close>, before they could overflow, while a delivery that is requeued under
  contention counts without a bound. Amounts are integers with the bounds of \<open>i128\<close> checked where the code checks them; schema
  versions are 32-bit words, because the code adds one to them unchecked. \<open>f64\<close> computations (the delays of
  the retry policy, the token bucket of a connection, durations of requests) are made in the reals: rounding,
  infinities and the panic of \<open>Duration::from_secs_f64\<close> are not shown, and no property claims the bounds of the
  retry delays. Text is a list of characters up to U+00FF, with byte lengths in UTF-8. Code outside
  the repository (serde, prost, tokio channels and timers, the \<open>http\<close> crate, axum, the socket) is a parameter of the
  definitions that use it, with its documented behaviour as a hypothesis where a property needs it.
  Log output, the counters the framework increments on the way and \<open>Debug\<close> output are left out.

  \<^bold>\<open>Theories.\<close>

  \<^item> \<open>Prelude\<close>: results, operations, maps, decimal and textual functions of the Rust library.
  \<^item> \<open>Money\<close> (\<open>pharos-core/src/money.rs\<close>, \<open>allocation.rs\<close>): currencies, checked amounts, allocation,
    display and text form. Allocation is lossless and fair and never leaves \<open>i128\<close>; arithmetic is
    exact or reports overflow; the text form round-trips.
  \<^item> \<open>Messaging\<close> (\<open>pharos-messaging/src/messaging.rs\<close>): messages, the broker traits, retry policies.
    Messages past their budget are dead-lettered; delays are computed in exact arithmetic.
  \<^item> \<open>Outbox\<close>, \<open>Outbox_Contract\<close> (\<open>outbox.rs\<close>, \<open>dead_letter.rs\<close> and their adapters in \<open>pharos-memory\<close>): records,
    claims under a lease, the dead-letter sweep. Two concurrent claiming passes, interleaved record
    by record, never obtain the same record. The locales \<open>outbox_repository\<close> and \<open>sweep_context\<close> are the
    contracts that the dispatcher and the sweep rely on.
  \<^item> \<open>Dispatcher\<close> (\<open>outbox_dispatcher.rs\<close>): the sequential run, and \<open>lane_step\<close>, which cuts a lane at its await
    points so that a concurrent run is an interleaving of lane steps. For every interleaving the
    messages of a key are delivered in claim order without gaps; the sequential run is one of the
    interleavings.
  \<^item> \<open>Inbox\<close>, \<open>Consumer\<close> (\<open>inbox.rs\<close>, \<open>consume.rs\<close>, \<open>in_memory_inbox.rs\<close>, \<open>in_memory_messaging.rs\<close>): the
    idempotent consumer. A message is processed at most once per consumer, and one whose handler
    always fails leaves the queue after its budget with exactly one dead letter.
  \<^item> \<open>Memory_World\<close>: the in-memory adapters in one state, the interpretations of the outbox contracts
    on them and the properties of dispatcher and sweep. The fate of every record of a run follows from
    the lanes and from what the link refuses; report, rows and broker agree with it.
  \<^item> \<open>Versioned\<close>, \<open>Aggregate\<close> (\<open>pharos-core/src\<close>, \<open>in_memory_repository.rs\<close>, the code generated by
    \<open>derive(AggregateRoot)\<close>): aggregates, errors, the repository. \<open>versioned_store\<close> is optimistic
    concurrency as a contract; the repository, the unit of work and the saga store are its instances.
    What a save stores, when it is refused and what \<open>find_by_id\<close> then returns is pinned for every state.
  \<^item> \<open>Unit_Of_Work\<close> (\<open>unit_of_work.rs\<close>, \<open>in_memory_unit_of_work.rs\<close>): a save and its messages are atomic.
  \<^item> \<open>Event_Bus\<close> (\<open>event_bus.rs\<close>, \<open>event_handler.rs\<close>, \<open>cascade.rs\<close>): registration, both error policies, the
    relay entry points. Handlers are asked in the order in which they were registered.
  \<^item> \<open>Service\<close> (\<open>service.rs\<close>, \<open>error.rs\<close>, \<open>aggregate_store.rs\<close>, \<open>default_store.rs\<close>): saving with inline or
    outbox delivery; exactly the unpublished remainder is restored after a failure.
  \<^item> \<open>Handlers\<close> (\<open>command.rs\<close>, \<open>query.rs\<close>, \<open>resilience.rs\<close>): validated dispatch, retrying, dead-lettering.
  \<^item> \<open>Event_Sourcing\<close> (\<open>pharos-es\<close>, \<open>in_memory_event_store.rs\<close>): replay and snapshots. Loading through a
    snapshot equals replaying the stream, in every state that loads, saves and delayed snapshot
    writes can reach.
  \<^item> \<open>Saga\<close> (\<open>pharos-saga\<close>, \<open>in_memory_saga_store.rs\<close>): transitions, runner, timeout sweep, store.
    \<open>saga_step\<close> cuts \<open>handle\<close> and \<open>run_due_timeouts\<close> at their await points, and a whole call of either is a run of
    such steps. No update is lost, terminal instances stay as they are, and an instance is claimed twice within a
    lease only if it was replaced in between.
  \<^item> \<open>Integration\<close>, \<open>Protobuf\<close> (\<open>integration_event.rs\<close>, \<open>serialization.rs\<close>, \<open>upcast.rs\<close>, \<open>pharos-proto\<close>): envelopes,
    codecs, upcasting. Decoding ends, runs the registered chain, and yields only the latest version.
  \<^item> \<open>Tenancy\<close> (\<open>tenant.rs\<close>, \<open>tenant_local.rs\<close>, \<open>tenant_iter.rs\<close>, \<open>enrichment.rs\<close>, \<open>elevation.rs\<close>): task-local
    scopes as values passed to the work. No storage is reached under an elevation that is not already on record, and
    spawned tasks, tenant passes and message handling do not inherit one.
  \<^item> \<open>Hub\<close>, \<open>Socket\<close> (\<open>pharos-realtime/src\<close>): rooms, backlog, resume and the receivers of the
    subscribers, their lag included, as a transition system cut at the lock regions; the connection as a function of the branches that become ready.
  \<^item> \<open>Http\<close>, \<open>Trace_Context\<close>, \<open>Registry\<close> (\<open>pharos-axum/src/lib.rs\<close>, \<open>observability.rs\<close>,
    \<open>pharos-observability/src/filter.rs\<close>, \<open>tower_service.rs\<close>, \<open>secret.rs\<close>, schema registry and consumer groups).
  \<^item> \<open>Derive\<close> (\<open>pharos-macros\<close>, \<open>pharos-core/src/value_object.rs\<close>): the derive and attribute macros as functions on
    parsed items, and the code they generate. A derived command keeps its declared guards, its span
    records every field that does not opt out, a derived event has the declared identity.
  \<^item> \<open>Telemetry\<close> (\<open>pharos-axum/src/metrics.rs\<close>, \<open>pharos-observability/src\<close>, \<open>pharos-testing/src/lib.rs\<close>): request
    metrics under interleaved requests and what a dropped request leaves, configuration and installation, propagation of
    the trace context, captures for tests.
  \<^item> \<open>Contract_Kit\<close> (\<open>pharos-testing/src/contract\<close>): the conformance suites for adapters as programs over the
    records of the traits; the in-memory adapters pass them.

  \<^bold>\<open>Termination and bounds.\<close> Loops are structural recursions or functions with a measure, so they are
  total. The upcasting loop need not end in the code: it is a \<open>partial_function (option)\<close>, and
  \<open>decode_terminates\<close> proves that it returns whenever the registry holds fewer than \<open>2 ^ 32\<close> upcasters. The
  conflict retries of the saga runner are bounded by the constant \<open>MAX_CONFLICT_RETRIES\<close>, as in the
  code. The WebSocket loop runs for as long as branches become ready: its model consumes an arbitrary finite
  list of them and reports whether the connection is still open at the end.

  \<^bold>\<open>Findings.\<close> Some theorems show where the code differs from what its comments say; they stand beside
  the properties of their component (for instance \<open>default_run_is_lane_order\<close>, \<open>deleted_aggregate_resurrects\<close>,
  \<open>direct_save_lost_update\<close>, \<open>stale_resume_told_up_to_date\<close>, \<open>join_forgets_members\<close>, \<open>dropped_request_leaks\<close>).

  \<^bold>\<open>Not modelled.\<close> The parser of \<open>syn\<close> and the token streams of \<open>quote\<close> (the macros are modelled between them);
  the SDK behind \<open>pharos-observability\<close> and the text exposition of the metrics; the order of router layers
  in \<open>pharos-observability/src/http.rs\<close>; the router wrapper of \<open>pharos-axum/src/profile.rs\<close>, whose guarantee is a
  matter of Rust types; the traits \<open>Entity\<close> and \<open>Authorize\<close>, which have no behaviour of their own; accessors,
  \<open>Clone\<close> and \<open>Debug\<close> implementations, forwarding implementations for \<open>Arc\<close>, and re-exports. A \<open>tokio\<close> broadcast
  channel is represented by what is sent into it, from where a receiver listens, and the answers of a receiver.
\<close>

end
